(* ===== verification/Prelude.thy ===== *)
theory Prelude
  imports Main "HOL-Library.Word" "HOL-Library.AList"
begin

text \<open>
  What every component shares: addresses, the ways a C call can fail to return, the result type
  that carries them, the two reading modes of a result (\<open>okay\<close> and \<open>rets\<close>), and the collections
  of rules the component proofs use.
\<close>

section \<open>Addresses and machine integers\<close>

type_synonym addr = nat
type_synonym byte = "8 word"
type_synonym u32 = "32 word"
type_synonym u64 = "64 word"

abbreviation NULL :: addr where "NULL \<equiv> 0"

section \<open>Outcomes of a C call\<close>

text \<open>
  A call returns a value, or it does not return. \<open>Blocked\<close> is a call that waits for a mutex or a
  semaphore that is not available. \<open>Diverges\<close> is a loop that has used up the number of iterations
  its model was given, \<open>Overlap\<close> a copy between overlapping buffers. Every other reason is behaviour the C standard leaves undefined, or a failed
  assertion.
\<close>

datatype halt =
    Blocked
  | AssertFail
  | NullDeref
  | UseAfterFree
  | BadFree
  | UninitUse
  | OutOfBounds
  | Overlap
  | Diverges

datatype 'a outcome = Ret 'a | Stuck halt

primrec obind :: "'a outcome \<Rightarrow> ('a \<Rightarrow> 'b outcome) \<Rightarrow> 'b outcome" where
  "obind (Ret x) f = f x"
| "obind (Stuck h) f = Stuck h"

lemma obind_Ret_right [simp]: "obind m Ret = m"
  by (cases m) simp_all

lemma obind_assoc: "obind (obind m f) g = obind m (\<lambda>x. obind (f x) g)"
  by (cases m) simp_all

lemma obind_eq_Ret [simp]: "obind m f = Ret y \<longleftrightarrow> (\<exists>x. m = Ret x \<and> f x = Ret y)"
  by (cases m) simp_all

lemma obind_eq_Stuck:
  "obind m f = Stuck h \<longleftrightarrow> m = Stuck h \<or> (\<exists>x. m = Ret x \<and> f x = Stuck h)"
  by (cases m) auto

lemma obind_if: "obind (if b then m else n) f = (if b then obind m f else obind n f)"
  by simp

lemma obind_cong [fundef_cong]:
  assumes "m = n" and "\<And>x. n = Ret x \<Longrightarrow> f x = g x"
  shows "obind m f = obind n g"
  using assms by (cases n) simp_all

section \<open>Reading an outcome\<close>

text \<open>
  \<open>okay m Q\<close>: the call returns a value that satisfies \<open>Q\<close>, waits for a lock, or stays in a
  loop; it has no undefined behaviour. \<open>rets m Q\<close>: the call returns, and the value satisfies \<open>Q\<close>.
\<close>

definition waits :: "halt \<Rightarrow> bool" where
  "waits h \<longleftrightarrow> h = Blocked \<or> h = Diverges"

lemma waits_simps [simp]:
  "waits Blocked" "waits Diverges" "\<not> waits AssertFail" "\<not> waits NullDeref"
  "\<not> waits UseAfterFree" "\<not> waits BadFree" "\<not> waits UninitUse" "\<not> waits OutOfBounds" "\<not> waits Overlap"
  by (simp_all add: waits_def)

definition okay :: "'a outcome \<Rightarrow> ('a \<Rightarrow> bool) \<Rightarrow> bool" where
  "okay m Q \<longleftrightarrow> (case m of Ret x \<Rightarrow> Q x | Stuck h \<Rightarrow> waits h)"

definition rets :: "'a outcome \<Rightarrow> ('a \<Rightarrow> bool) \<Rightarrow> bool" where
  "rets m Q \<longleftrightarrow> (case m of Ret x \<Rightarrow> Q x | Stuck h \<Rightarrow> False)"

named_theorems okay_rule

lemma okay_Ret [simp]: "okay (Ret x) Q \<longleftrightarrow> Q x"
  by (simp add: okay_def)

lemma okay_Stuck [simp]: "okay (Stuck h) Q \<longleftrightarrow> waits h"
  by (simp add: okay_def)

lemma okay_obind [simp]: "okay (obind m f) Q \<longleftrightarrow> okay m (\<lambda>x. okay (f x) Q)"
  by (cases m) simp_all

lemma okay_mono: "okay m P \<Longrightarrow> (\<And>x. P x \<Longrightarrow> Q x) \<Longrightarrow> okay m Q"
  by (cases m) simp_all

lemma okay_mono_Ret: "okay m P \<Longrightarrow> (\<And>x. m = Ret x \<Longrightarrow> P x \<Longrightarrow> Q x) \<Longrightarrow> okay m Q"
  by (cases m) simp_all

lemma okay_conj: "okay m (\<lambda>x. P x \<and> Q x) \<longleftrightarrow> okay m P \<and> okay m Q"
  by (cases m) auto

lemma okay_True_conv: "okay m (\<lambda>x. True) \<longleftrightarrow> (\<forall>h. m = Stuck h \<longrightarrow> waits h)"
  by (cases m) auto

lemma okayD: "okay m Q \<Longrightarrow> m = Ret x \<Longrightarrow> Q x"
  by simp

lemma okay_if: "okay (if b then m else n) Q \<longleftrightarrow> (if b then okay m Q else okay n Q)"
  by simp

lemma rets_Ret [simp]: "rets (Ret x) Q \<longleftrightarrow> Q x"
  by (simp add: rets_def)

lemma rets_Stuck [simp]: "\<not> rets (Stuck h) Q"
  by (simp add: rets_def)

lemma rets_obind [simp]: "rets (obind m f) Q \<longleftrightarrow> rets m (\<lambda>x. rets (f x) Q)"
  by (cases m) simp_all

lemma rets_mono: "rets m P \<Longrightarrow> (\<And>x. P x \<Longrightarrow> Q x) \<Longrightarrow> rets m Q"
  by (cases m) simp_all

lemma rets_iff: "rets m Q \<longleftrightarrow> (\<exists>x. m = Ret x \<and> Q x)"
  by (cases m) simp_all

lemma rets_okay: "rets m Q \<Longrightarrow> okay m Q"
  by (cases m) simp_all

text \<open>What holds if a call returns.\<close>

definition keeps :: "'a outcome \<Rightarrow> ('a \<Rightarrow> bool) \<Rightarrow> bool" where
  "keeps m Q \<longleftrightarrow> (case m of Ret x \<Rightarrow> Q x | Stuck h \<Rightarrow> True)"

lemma keeps_simps [simp]:
  "keeps (Ret x) Q \<longleftrightarrow> Q x" "keeps (Stuck h) Q"
  "keeps (obind m f) Q \<longleftrightarrow> keeps m (\<lambda>x. keeps (f x) Q)"
  by (cases m; simp add: keeps_def)+

lemma keeps_mono: "keeps m P \<Longrightarrow> (\<And>x. P x \<Longrightarrow> Q x) \<Longrightarrow> keeps m Q"
  by (cases m) simp_all

lemma okay_keeps: "okay m P \<Longrightarrow> keeps m Q \<Longrightarrow> (\<And>x. P x \<Longrightarrow> Q x \<Longrightarrow> R x) \<Longrightarrow> okay m R"
  by (cases m) simp_all

text \<open>A call for each element of a list, in order.\<close>

fun run_all :: "('a \<Rightarrow> 's \<Rightarrow> 's outcome) \<Rightarrow> 'a list \<Rightarrow> 's \<Rightarrow> 's outcome" where
  "run_all fn [] s = Ret s"
| "run_all fn (v # vs) s = obind (fn v s) (run_all fn vs)"

lemma okay_run_all:
  assumes "P s" "\<And>v s. v \<in> set vs \<Longrightarrow> P s \<Longrightarrow> okay (f v s) P"
  shows "okay (run_all f vs s) P"
  using assms
proof (induction vs arbitrary: s)
  case (Cons v vs)
  have "okay (run_all f vs t) P" if "P t" for t
    using that Cons.prems(2) by (intro Cons.IH) auto
  then show ?case using Cons.prems by (auto intro: okay_mono)
qed simp

section \<open>Association lists as finite maps\<close>

lemma map_of_update [simp]: "map_of (AList.update k v xs) = (map_of xs)(k \<mapsto> v)"
  by (simp add: update_conv')

lemma map_of_AList_delete [simp]: "map_of (AList.delete k xs) = (map_of xs)(k := None)"
  by (simp add: delete_conv')

lemma map_of_eq_Some_distinct:
  "distinct (map fst xs) \<Longrightarrow> map_of xs k = Some v \<longleftrightarrow> (k, v) \<in> set xs"
  by simp

end
