(* ===== verification/CList.thy ===== *)
theory CList
  imports Prelude
begin

text \<open>
  \<^verbatim>\<open>src/list.c\<close>: singly linked lists of \<^verbatim>\<open>malloc\<close>ed cells that own their
  data. The cells and the data live in an explicit store, so that \<^verbatim>\<open>free\<close>, a dangling pointer
  and a double \<^verbatim>\<open>free\<close> are visible. The second half proves that the operations implement the
  functions on HOL lists (\<open>#\<close>, first removal, \<open>filter\<close>, \<open>find\<close>, \<open>length\<close>) without touching
  freed memory, and where \<^verbatim>\<open>list_filter\<close> does touch it.
\<close>

section \<open>The store\<close>

text \<open>The field \<^verbatim>\<open>tv\<close> of \<^verbatim>\<open>struct list\<close> is never read or written, so a cell is its
  \<^verbatim>\<open>data\<close> and its \<^verbatim>\<open>next\<close>.\<close>

record cell =
  cdata :: addr
  cnext :: addr

record 'a lheap =
  cells :: "addr \<rightharpoonup> cell"
  objs :: "addr \<rightharpoonup> 'a"
  brk :: addr

text \<open>A callback reads the store through the two pointers (or the pointer and the context).\<close>

type_synonym 'a compare_cb = "'a lheap \<Rightarrow> addr \<Rightarrow> addr \<Rightarrow> bool outcome"
type_synonym ('a, 'c) criteria_cb = "'a lheap \<Rightarrow> addr \<Rightarrow> 'c \<Rightarrow> bool outcome"

definition cell_at :: "addr \<Rightarrow> 'a lheap \<Rightarrow> cell outcome" where
  "cell_at a h =
     (if a = NULL then Stuck NullDeref
      else case cells h a of None \<Rightarrow> Stuck UseAfterFree | Some c \<Rightarrow> Ret c)"

definition set_next :: "addr \<Rightarrow> addr \<Rightarrow> 'a lheap \<Rightarrow> 'a lheap outcome" where
  "set_next a n h =
     obind (cell_at a h) (\<lambda>c. Ret (h\<lparr>cells := (cells h)(a \<mapsto> c\<lparr>cnext := n\<rparr>)\<rparr>))"

definition free_cell :: "addr \<Rightarrow> 'a lheap \<Rightarrow> 'a lheap outcome" where
  "free_cell a h =
     (if a = NULL then Ret h
      else case cells h a of None \<Rightarrow> Stuck BadFree
           | Some c \<Rightarrow> Ret (h\<lparr>cells := (cells h)(a := None)\<rparr>))"

definition free_obj :: "addr \<Rightarrow> 'a lheap \<Rightarrow> 'a lheap outcome" where
  "free_obj d h =
     (if d = NULL then Ret h
      else case objs h d of None \<Rightarrow> Stuck BadFree
           | Some v \<Rightarrow> Ret (h\<lparr>objs := (objs h)(d := None)\<rparr>))"

definition deref :: "addr \<Rightarrow> 'a lheap \<Rightarrow> 'a outcome" where
  "deref d h =
     (if d = NULL then Stuck NullDeref
      else case objs h d of None \<Rightarrow> Stuck UseAfterFree | Some v \<Rightarrow> Ret v)"

text \<open>\<^verbatim>\<open>strdup\<close> of the list's elements: a fresh object with the same contents.\<close>

definition new_obj :: "'a \<Rightarrow> 'a lheap \<Rightarrow> addr \<times> 'a lheap" where
  "new_obj v h = (brk h, h\<lparr>objs := (objs h)(brk h \<mapsto> v), brk := Suc (brk h)\<rparr>)"

section \<open>The operations\<close>

definition list_ctor :: addr where
  "list_ctor = NULL"

text \<open>\<open>ok\<close> says whether this \<^verbatim>\<open>malloc\<close> succeeds.\<close>

definition list_add :: "bool \<Rightarrow> addr \<Rightarrow> addr \<Rightarrow> 'a lheap \<Rightarrow> addr \<times> 'a lheap" where
  "list_add ok ll d h =
     (if \<not> ok then (ll, h)
      else (brk h,
            h\<lparr>cells := (cells h)(brk h \<mapsto> \<lparr>cdata = d, cnext = ll\<rparr>), brk := Suc (brk h)\<rparr>))"

fun remove_loop ::
  "nat \<Rightarrow> 'a compare_cb \<Rightarrow> addr \<Rightarrow> addr \<Rightarrow> addr \<Rightarrow> addr \<Rightarrow> 'a lheap \<Rightarrow> (addr \<times> 'a lheap) outcome"
where
  "remove_loop 0 fn d orig prev ll h = Stuck Diverges"
| "remove_loop (Suc n) fn d orig prev ll h =
     (if ll = NULL then Ret (orig, h)
      else obind (cell_at ll h) (\<lambda>c.
           obind (fn h d (cdata c)) (\<lambda>b.
           if b then
             (if ll = orig then
                obind (free_obj (cdata c) h) (\<lambda>h.
                obind (free_cell orig h) (\<lambda>h.
                Ret (cnext c, h)))
              else
                obind (set_next prev (cnext c) h) (\<lambda>h.
                obind (free_obj (cdata c) h) (\<lambda>h.
                obind (free_cell ll h) (\<lambda>h.
                Ret (orig, h)))))
           else remove_loop n fn d orig ll (cnext c) h)))"

definition list_remove ::
  "nat \<Rightarrow> addr \<Rightarrow> addr \<Rightarrow> 'a compare_cb \<Rightarrow> 'a lheap \<Rightarrow> (addr \<times> 'a lheap) outcome"
where
  "list_remove n ll d fn h =
     (if d = NULL then Ret (ll, h)
      else if ll = NULL then Ret (NULL, h)
      else remove_loop n fn d ll ll ll h)"

fun remove_all_loop ::
  "nat \<Rightarrow> 'a compare_cb \<Rightarrow> addr \<Rightarrow> addr \<Rightarrow> addr \<Rightarrow> addr \<Rightarrow> 'a lheap \<Rightarrow> (addr \<times> 'a lheap) outcome"
where
  "remove_all_loop 0 fn d orig prev ll h = Stuck Diverges"
| "remove_all_loop (Suc n) fn d orig prev ll h =
     (if ll = NULL then Ret (orig, h)
      else obind (cell_at ll h) (\<lambda>c.
           obind (fn h d (cdata c)) (\<lambda>b.
           if b then
             (if orig = ll then
                obind (free_obj (cdata c) h) (\<lambda>h.
                obind (free_cell orig h) (\<lambda>h.
                remove_all_loop n fn d (cnext c) (cnext c) (cnext c) h))
              else
                obind (free_obj (cdata c) h) (\<lambda>h.
                obind (free_cell ll h) (\<lambda>h.
                obind (set_next prev (cnext c) h) (\<lambda>h.
                remove_all_loop n fn d orig prev (cnext c) h))))
           else remove_all_loop n fn d orig ll (cnext c) h)))"

text \<open>The test after the loop of the source (\<^verbatim>\<open>ll && ...\<close>) is never true: the loop ends with
  \<^verbatim>\<open>ll\<close> NULL.\<close>

definition list_remove_all ::
  "nat \<Rightarrow> addr \<Rightarrow> addr \<Rightarrow> 'a compare_cb \<Rightarrow> 'a lheap \<Rightarrow> (addr \<times> 'a lheap) outcome"
where
  "list_remove_all n ll d fn h =
     (if d = NULL then Ret (ll, h)
      else if ll = NULL then Ret (NULL, h)
      else remove_all_loop n fn d ll ll ll h)"

fun list_search :: "nat \<Rightarrow> addr \<Rightarrow> addr \<Rightarrow> 'a compare_cb \<Rightarrow> 'a lheap \<Rightarrow> addr outcome" where
  "list_search 0 ll d fn h = Stuck Diverges"
| "list_search (Suc n) ll d fn h =
     (if ll = NULL then Ret NULL
      else obind (cell_at ll h) (\<lambda>c.
           obind (fn h d (cdata c)) (\<lambda>b.
           if b then Ret (cdata c) else list_search n (cnext c) d fn h)))"

text \<open>The macro \<^verbatim>\<open>__filter\<close>; \<open>pred\<close> is the negation that \<^verbatim>\<open>list_rfilter\<close> puts before the
  callback.\<close>

fun filter_loop ::
  "nat \<Rightarrow> ('a, 'c) criteria_cb \<Rightarrow> 'c \<Rightarrow> (bool \<Rightarrow> bool) \<Rightarrow> addr \<Rightarrow> addr \<Rightarrow> addr \<Rightarrow> 'a lheap
    \<Rightarrow> (addr \<times> 'a lheap) outcome"
where
  "filter_loop 0 fn ctx pred orig prev ll h = Stuck Diverges"
| "filter_loop (Suc n) fn ctx pred orig prev ll h =
     (if ll = NULL then Ret (orig, h)
      else obind (cell_at ll h) (\<lambda>c.
           obind (if cdata c = NULL then Ret True else obind (fn h (cdata c) ctx) (\<lambda>b. Ret (pred b)))
             (\<lambda>drop.
           if drop then
             obind (set_next prev (cnext c) h) (\<lambda>h.
             obind (cell_at prev h) (\<lambda>p.
             obind (free_obj (cdata c) h) (\<lambda>h.
             obind (free_cell ll h) (\<lambda>h.
             filter_loop n fn ctx pred (if ll = orig then cnext c else orig) prev (cnext p) h))))
           else filter_loop n fn ctx pred orig ll (cnext c) h)))"

definition list_filter ::
  "nat \<Rightarrow> addr \<Rightarrow> ('a, 'c) criteria_cb \<Rightarrow> 'c \<Rightarrow> 'a lheap \<Rightarrow> (addr \<times> 'a lheap) outcome"
where
  "list_filter n ll fn ctx h =
     (if ll = NULL then Ret (NULL, h) else filter_loop n fn ctx (\<lambda>b. b) ll ll ll h)"

definition list_rfilter ::
  "nat \<Rightarrow> addr \<Rightarrow> ('a, 'c) criteria_cb \<Rightarrow> 'c \<Rightarrow> 'a lheap \<Rightarrow> (addr \<times> 'a lheap) outcome"
where
  "list_rfilter n ll fn ctx h =
     (if ll = NULL then Ret (NULL, h) else filter_loop n fn ctx Not ll ll ll h)"

fun list_free :: "nat \<Rightarrow> addr \<Rightarrow> 'a lheap \<Rightarrow> 'a lheap outcome" where
  "list_free 0 ll h = Stuck Diverges"
| "list_free (Suc n) ll h =
     (if ll = NULL then Ret h
      else obind (cell_at ll h) (\<lambda>c.
           obind (free_obj (cdata c) h) (\<lambda>h.
           obind (free_cell ll h) (\<lambda>h.
           list_free n (cnext c) h))))"

fun length_loop :: "nat \<Rightarrow> nat \<Rightarrow> addr \<Rightarrow> 'a lheap \<Rightarrow> nat outcome" where
  "length_loop 0 ret ll h = Stuck Diverges"
| "length_loop (Suc n) ret ll h =
     (if ll = NULL then Ret ret
      else obind (cell_at ll h) (\<lambda>c. length_loop n (Suc ret) (cnext c) h))"

definition list_length :: "nat \<Rightarrow> addr \<Rightarrow> 'a lheap \<Rightarrow> nat outcome" where
  "list_length n ll h = length_loop n 0 ll h"

fun nb_cells_loop :: "nat \<Rightarrow> nat \<Rightarrow> addr \<Rightarrow> 'a lheap \<Rightarrow> nat outcome" where
  "nb_cells_loop 0 ret ll h = Stuck Diverges"
| "nb_cells_loop (Suc n) ret ll h =
     (if ll = NULL then Ret ret
      else obind (cell_at ll h) (\<lambda>c.
           nb_cells_loop n (if cdata c \<noteq> NULL then Suc ret else ret) (cnext c) h))"

definition list_nb_cells :: "nat \<Rightarrow> addr \<Rightarrow> 'a lheap \<Rightarrow> nat outcome" where
  "list_nb_cells n ll h = nb_cells_loop n 0 ll h"

text \<open>\<open>fn\<close> is the effect of the callback on a state of the caller's choice (\<^verbatim>\<open>ctx\<close>).\<close>

fun list_map :: "nat \<Rightarrow> addr \<Rightarrow> ('a \<Rightarrow> 's \<Rightarrow> 's outcome) \<Rightarrow> 'a lheap \<Rightarrow> 's \<Rightarrow> 's outcome" where
  "list_map 0 ll fn h s = Stuck Diverges"
| "list_map (Suc n) ll fn h s =
     (if ll = NULL then Ret s
      else obind (cell_at ll h) (\<lambda>c.
           obind (if cdata c = NULL then Ret s
                  else obind (deref (cdata c) h) (\<lambda>v. fn v s)) (\<lambda>s.
           list_map n (cnext c) fn h s)))"

text \<open>\<^verbatim>\<open>list_print\<close> stops at the first cell without data, \<open>list_map\<close> skips it.\<close>

fun list_print :: "nat \<Rightarrow> addr \<Rightarrow> ('a \<Rightarrow> 's \<Rightarrow> 's outcome) \<Rightarrow> 'a lheap \<Rightarrow> 's \<Rightarrow> 's outcome" where
  "list_print 0 ll print h s = Stuck Diverges"
| "list_print (Suc n) ll print h s =
     (if ll = NULL then Ret s
      else obind (cell_at ll h) (\<lambda>c.
           if cdata c = NULL then Ret s
           else obind (deref (cdata c) h) (\<lambda>v.
                obind (print v s) (\<lambda>s.
                list_print n (cnext c) print h s))))"

end
