(* ===== verification/CList_Refine.thy ===== *)
theory CList_Refine
  imports CList
begin

text \<open>
  The abstraction of a list in the store to a HOL list, the one fact about unlinking a node that
  the removing operations share, and the functional correctness of every operation of
  \<^verbatim>\<open>src/list.c\<close>.
\<close>

section \<open>Abstraction\<close>

text \<open>A chain of cells from \<open>p\<close> to \<open>q\<close>; each element is a cell's address and its data pointer.\<close>

fun chain :: "'a lheap \<Rightarrow> addr \<Rightarrow> (addr \<times> addr) list \<Rightarrow> addr \<Rightarrow> bool" where
  "chain h p [] q \<longleftrightarrow> p = q"
| "chain h p ((a, d) # xs) q \<longleftrightarrow>
     p = a \<and> a \<noteq> NULL \<and>
     (case cells h a of None \<Rightarrow> False | Some c \<Rightarrow> cdata c = d \<and> chain h (cnext c) xs q)"

text \<open>The list owns its cells and its data: no sharing, no NULL data, nothing freed.\<close>

definition owns :: "'a lheap \<Rightarrow> (addr \<times> addr) list \<Rightarrow> bool" where
  "owns h xs \<longleftrightarrow> distinct (map fst xs) \<and> distinct (map snd xs) \<and>
     list_all (\<lambda>(a, d). d \<noteq> NULL \<and> objs h d \<noteq> None) xs"

definition lrep :: "'a lheap \<Rightarrow> addr \<Rightarrow> (addr \<times> addr) list \<Rightarrow> bool" where
  "lrep h p xs \<longleftrightarrow> chain h p xs NULL \<and> owns h xs"

definition val :: "'a lheap \<Rightarrow> (addr \<times> addr) \<Rightarrow> 'a" where
  "val h x = the (objs h (snd x))"

definition vals :: "'a lheap \<Rightarrow> (addr \<times> addr) list \<Rightarrow> 'a list" where
  "vals h xs = map (val h) xs"

definition fresh_brk :: "'a lheap \<Rightarrow> bool" where
  "fresh_brk h \<longleftrightarrow> brk h \<noteq> NULL \<and> (\<forall>a\<ge>brk h. cells h a = None \<and> objs h a = None)"

text \<open>What dropping the nodes \<open>xs - ys\<close> leaves of the store: exactly those are freed.\<close>

definition dropped :: "'a lheap \<Rightarrow> 'a lheap \<Rightarrow> (addr \<times> addr) list \<Rightarrow> (addr \<times> addr) list \<Rightarrow> bool" where
  "dropped h h' xs ys \<longleftrightarrow>
     brk h' = brk h \<and>
     (\<forall>e. objs h' e = (if e \<in> snd ` set xs - snd ` set ys then None else objs h e)) \<and>
     (\<forall>a. a \<notin> fst ` set xs \<longrightarrow> cells h' a = cells h a) \<and>
     (\<forall>a. a \<in> fst ` set xs - fst ` set ys \<longrightarrow> cells h' a = None)"

lemma chain_append:
  "chain h p (xs @ ys) q \<longleftrightarrow> (\<exists>r. chain h p xs r \<and> chain h r ys q)"
  by (induction h p xs q rule: chain.induct) (auto split: option.splits)

lemma chain_cong:
  "(\<And>a. a \<in> fst ` set xs \<Longrightarrow> cells h' a = cells h a) \<Longrightarrow> chain h' p xs q = chain h p xs q"
  by (induction h p xs q rule: chain.induct) (auto split: option.splits)

lemma chain_Null [simp]: "chain h NULL xs NULL \<longleftrightarrow> xs = []"
  by (cases xs) (auto split: option.splits)

lemma chain_snoc:
  "chain h p (ys @ [(b, f)]) q \<longleftrightarrow>
     chain h p ys b \<and> b \<noteq> NULL \<and> cells h b = Some \<lparr>cdata = f, cnext = q\<rparr>"
  by (auto simp: chain_append split: option.splits)

lemma owns_append:
  "owns h (xs @ ys) \<longleftrightarrow> owns h xs \<and> owns h ys \<and>
     fst ` set xs \<inter> fst ` set ys = {} \<and> snd ` set xs \<inter> snd ` set ys = {}"
  by (auto simp: owns_def)

lemma owns_Nil [simp]: "owns h []"
  by (simp add: owns_def)

lemma owns_Cons:
  "owns h (x # xs) \<longleftrightarrow> snd x \<noteq> NULL \<and> objs h (snd x) \<noteq> None \<and>
     fst x \<notin> fst ` set xs \<and> snd x \<notin> snd ` set xs \<and> owns h xs"
  by (cases x) (auto simp: owns_def)

lemma owns_cong:
  "(\<And>e. e \<in> snd ` set xs \<Longrightarrow> objs h' e = objs h e) \<Longrightarrow> owns h' xs = owns h xs"
proof -
  assume "\<And>e. e \<in> snd ` set xs \<Longrightarrow> objs h' e = objs h e"
  then have "\<And>x. x \<in> set xs \<Longrightarrow> objs h' (snd x) = objs h (snd x)" by simp
  then show ?thesis by (simp add: owns_def list_all_iff case_prod_beta)
qed

lemma vals_cong:
  "(\<And>e. e \<in> snd ` set xs \<Longrightarrow> objs h' e = objs h e) \<Longrightarrow> vals h' xs = vals h xs"
  by (auto simp: vals_def val_def)

lemma lrep_Null [simp]: "lrep h NULL xs \<longleftrightarrow> xs = []"
  by (auto simp: lrep_def)

lemma lrep_Nil [simp]: "lrep h p [] \<longleftrightarrow> p = NULL"
  by (auto simp: lrep_def)

section \<open>Unlinking a node\<close>

text \<open>The store after the node \<open>(a, e)\<close> behind the nodes \<open>ys\<close> has been unlinked and freed.\<close>

definition drop_node ::
  "(addr \<times> addr) list \<Rightarrow> addr \<Rightarrow> addr \<Rightarrow> addr \<Rightarrow> 'a lheap \<Rightarrow> 'a lheap"
where
  "drop_node ys a e n h =
     h\<lparr>cells := (if ys = [] then cells h
                 else (cells h)(fst (last ys) \<mapsto> \<lparr>cdata = snd (last ys), cnext = n\<rparr>))(a := None),
       objs := (objs h)(e := None)\<rparr>"

lemma drop_node_Nil:
  "drop_node [] a e n h = h\<lparr>cells := (cells h)(a := None), objs := (objs h)(e := None)\<rparr>"
  by (simp add: drop_node_def)

lemma drop_node_snoc:
  "drop_node (us @ [(b, f)]) a e n h =
     h\<lparr>cells := (cells h)(b \<mapsto> \<lparr>cdata = f, cnext = n\<rparr>, a := None), objs := (objs h)(e := None)\<rparr>"
  by (simp add: drop_node_def)

lemma drop_node_owns:
  assumes "owns h (ys @ (a, e) # zs)" shows "owns (drop_node ys a e n h) (ys @ zs)"
proof -
  from assms have "owns h (ys @ zs)" "e \<notin> snd ` set (ys @ zs)"
    by (auto simp: owns_append owns_Cons)
  then show ?thesis
    by (subst owns_cong [of _ "drop_node ys a e n h" h]) (auto simp: drop_node_def)
qed

lemma drop_node_next:
  assumes ch: "chain h orig ys a" "chain h n zs NULL" and own: "owns h (ys @ (a, e) # zs)"
  shows "chain (drop_node ys a e n h) (if ys = [] then n else orig) ys n"
    and "chain (drop_node ys a e n h) n zs NULL"
proof -
  have "chain (drop_node ys a e n h) (if ys = [] then n else orig) ys n \<and>
      chain (drop_node ys a e n h) n zs NULL"
  proof (cases ys rule: rev_cases)
    case Nil
    from own Nil have "a \<notin> fst ` set zs" by (simp add: owns_Cons)
    then have "chain (drop_node ys a e n h) n zs NULL = chain h n zs NULL"
      by (intro chain_cong) (auto simp: drop_node_def Nil)
    with ch(2) Nil show ?thesis by simp
  next
    case (snoc us bf)
    obtain b f where bf: "bf = (b, f)" by (cases bf)
    let ?h = "drop_node ys a e n h"
    from own snoc bf have ab: "a \<noteq> b" and us: "a \<notin> fst ` set us" "b \<notin> fst ` set us"
      and zs: "a \<notin> fst ` set zs" "b \<notin> fst ` set zs"
      by (auto simp: owns_append owns_Cons)
    have "chain ?h orig us b = chain h orig us b" "chain ?h n zs NULL = chain h n zs NULL"
      using us zs by (intro chain_cong; auto simp: drop_node_snoc snoc bf)+
    with ch snoc bf ab show ?thesis by (auto simp: chain_snoc drop_node_snoc)
  qed
  then show "chain (drop_node ys a e n h) (if ys = [] then n else orig) ys n"
    and "chain (drop_node ys a e n h) n zs NULL" by blast+
qed

lemma drop_node_lrep:
  assumes "chain h p ys a" "chain h n zs NULL" "owns h (ys @ (a, e) # zs)"
  shows "lrep (drop_node ys a e n h) (if ys = [] then n else p) (ys @ zs)"
  using drop_node_next [OF assms] drop_node_owns [OF assms(3)]
  by (auto simp: lrep_def chain_append [of _ _ ys])

lemma drop_node_dropped:
  assumes own: "owns h (ys @ (a, e) # zs)"
  shows "dropped h (drop_node ys a e n h) (ys @ (a, e) # zs) (ys @ zs)"
proof (cases ys rule: rev_cases)
  case Nil
  with own show ?thesis by (auto simp: dropped_def drop_node_Nil owns_Cons)
next
  case (snoc us bf)
  with own show ?thesis
    by (cases bf) (auto simp: dropped_def drop_node_snoc owns_append owns_Cons)
qed

lemma dropped_trans:
  assumes "dropped h h1 xs ys" "dropped h1 h2 ys zs"
    and "set zs \<subseteq> set ys" "set ys \<subseteq> set xs"
  shows "dropped h h2 xs zs"
  using assms unfolding dropped_def
  apply (intro conjI allI impI)
     apply simp
    apply (smt (verit, best) DiffE DiffI image_mono subset_iff)
   apply (metis image_mono subset_iff)
  by (metis DiffE DiffI)

lemma dropped_refl [simp]: "dropped h h xs xs"
  by (simp add: dropped_def)

lemma dropped_vals:
  assumes "dropped h h' xs ys" "set ys \<subseteq> set xs" shows "vals h' ys = vals h ys"
  using assms by (intro vals_cong) (auto simp: dropped_def)

lemma dropped_keeps:
  "dropped h h' xs ys \<Longrightarrow> d \<notin> snd ` set xs \<Longrightarrow> objs h' d = objs h d"
  by (simp add: dropped_def)

section \<open>The three ways the code unlinks a node\<close>

lemma unlink_head:
  assumes "cells h a = Some c" "a \<noteq> NULL" "objs h e = Some v" "e \<noteq> NULL"
  shows "obind (free_obj e h) (\<lambda>h. obind (free_cell a h) k) = k (drop_node [] a e n h)"
  using assms by (cases h) (simp add: free_obj_def free_cell_def drop_node_Nil)

lemma unlink_inner:
  assumes "cells h b = Some \<lparr>cdata = f, cnext = a\<rparr>" "b \<noteq> NULL" "a \<noteq> b"
    and "cells h a = Some c" "a \<noteq> NULL" "objs h e = Some v" "e \<noteq> NULL"
  shows "obind (set_next b n h) (\<lambda>h. obind (free_obj e h) (\<lambda>h. obind (free_cell a h) k)) =
      k (drop_node (us @ [(b, f)]) a e n h)"
    and "obind (free_obj e h) (\<lambda>h. obind (free_cell a h) (\<lambda>h. obind (set_next b n h) k)) =
      k (drop_node (us @ [(b, f)]) a e n h)"
    and "obind (set_next b n h) (\<lambda>h. obind (cell_at b h) (\<lambda>p. obind (free_obj e h) (\<lambda>h.
         obind (free_cell a h) (\<lambda>h. g p h)))) =
      g \<lparr>cdata = f, cnext = n\<rparr> (drop_node (us @ [(b, f)]) a e n h)"
  using assms
  by (cases h; simp add: set_next_def cell_at_def free_obj_def free_cell_def drop_node_snoc
      fun_upd_twist)+

section \<open>Callbacks that decide a predicate on the data\<close>

definition decides :: "'a compare_cb \<Rightarrow> addr \<Rightarrow> 'a \<Rightarrow> ('a \<Rightarrow> bool) \<Rightarrow> bool" where
  "decides fn d x P \<longleftrightarrow>
     d \<noteq> NULL \<and> (\<forall>h e v. objs h d = Some x \<longrightarrow> e \<noteq> NULL \<longrightarrow> objs h e = Some v \<longrightarrow> fn h d e = Ret (P v))"

definition judges :: "('a, 'c) criteria_cb \<Rightarrow> 'c \<Rightarrow> ('a \<Rightarrow> bool) \<Rightarrow> bool" where
  "judges fn ctx P \<longleftrightarrow> (\<forall>h e v. e \<noteq> NULL \<longrightarrow> objs h e = Some v \<longrightarrow> fn h e ctx = Ret (P v))"

fun remove_first :: "('a \<Rightarrow> bool) \<Rightarrow> 'a list \<Rightarrow> 'a list" where
  "remove_first P [] = []"
| "remove_first P (x # xs) = (if P x then xs else x # remove_first P xs)"

lemma set_remove_first: "set (remove_first P xs) \<subseteq> set xs"
  by (induction xs) auto

lemma remove_first_map: "map f (remove_first (P \<circ> f) xs) = remove_first P (map f xs)"
  by (induction xs) auto

lemma remove_first_eq: "remove_first (\<lambda>v. x = v) xs = remove1 x xs"
  by (induction xs) auto

lemma vals_remove_first: "vals h (remove_first (P \<circ> val h) xs) = remove_first P (vals h xs)"
  by (simp add: vals_def remove_first_map)

lemma vals_filter: "vals h (filter (P \<circ> val h) xs) = filter P (vals h xs)"
  by (simp add: vals_def filter_map)

text \<open>What the loops know about the node they look at.\<close>

lemma node_facts:
  assumes "chain h ll ((a, e) # zs) NULL" "owns h (ys @ (a, e) # zs)"
  obtains c where "ll = a" "a \<noteq> NULL" "cells h a = Some c" "cdata c = e" "chain h (cnext c) zs NULL"
    "e \<noteq> NULL" "objs h e = Some (val h (a, e))" "a \<notin> fst ` set ys" "cell_at a h = Ret c"
  using assms by (auto simp: owns_append owns_Cons val_def cell_at_def split: option.splits)

section \<open>Removing\<close>

text \<open>
  \<open>removes m h p xs ys\<close>: the call returns a list that represents \<open>ys\<close>, and what it freed is
  exactly the difference to \<open>xs\<close>.
\<close>

definition removes ::
  "(addr \<times> 'a lheap) outcome \<Rightarrow> 'a lheap \<Rightarrow> (addr \<times> addr) list \<Rightarrow> (addr \<times> addr) list \<Rightarrow> bool"
where
  "removes m h xs ys \<longleftrightarrow> rets m (\<lambda>(q, h'). lrep h' q ys \<and> dropped h h' xs ys)"

lemma removes_none:
  "chain h p xs NULL \<Longrightarrow> owns h xs \<Longrightarrow> removes (Ret (p, h)) h xs xs"
  by (simp add: removes_def lrep_def)

lemma removes_node:
  assumes "chain h p ys a" "chain h n zs NULL" "owns h (ys @ (a, e) # zs)"
  shows "removes (Ret (if ys = [] then n else p, drop_node ys a e n h)) h (ys @ (a, e) # zs) (ys @ zs)"
  using assms drop_node_lrep [OF assms] drop_node_dropped [OF assms(3)] by (simp add: removes_def)

lemma remove_loop_removes:
  assumes "chain h orig ys ll" "chain h ll zs NULL" "owns h (ys @ zs)"
    and "ys \<noteq> [] \<Longrightarrow> prev = fst (last ys)"
    and "decides fn d x P" "objs h d = Some x" "length zs < n"
  shows "removes (remove_loop n fn d orig prev ll h) h (ys @ zs) (ys @ remove_first (P \<circ> val h) zs)"
  using assms
proof (induction zs arbitrary: ys prev ll n)
  case Nil
  then show ?case by (cases n) (auto intro: removes_none)
next
  case (Cons z zs)
  obtain a e where z: "z = (a, e)" by (cases z)
  obtain m where n: "n = Suc m" using Cons.prems(7) by (cases n) auto
  note prems = Cons.prems [unfolded z]
  from prems obtain c where c: "ll = a" "a \<noteq> NULL" "cells h a = Some c" "cdata c = e"
      "chain h (cnext c) zs NULL" "e \<noteq> NULL" "objs h e = Some (val h (a, e))" "a \<notin> fst ` set ys"
      "cell_at a h = Ret c"
    using node_facts by metis
  have fn: "fn h d e = Ret (P (val h (a, e)))"
    using prems(5,6) c(6,7) by (simp add: decides_def)
  show ?case
  proof (cases "P (val h (a, e))")
    case False
    have "removes (remove_loop m fn d orig a (cnext c) h) h ((ys @ [(a, e)]) @ zs)
        ((ys @ [(a, e)]) @ remove_first (P \<circ> val h) zs)"
      using prems c n by (intro Cons.IH) (auto simp: chain_append)
    with False show ?thesis using c fn n z by (simp add: comp_def)
  next
    case True
    note rm = removes_node [OF prems(1) [unfolded c(1)] c(5) prems(3)]
    show ?thesis
    proof (cases ys rule: rev_cases)
      case Nil
      with rm True prems(1) c fn n z show ?thesis
        by (simp add: unlink_head [OF c(3,2,7,6), where n = "cnext c"])
    next
      case (snoc us bf)
      obtain b f where bf: "bf = (b, f)" by (cases bf)
      from prems(1,4) snoc bf c(1) have b: "cells h b = Some \<lparr>cdata = f, cnext = a\<rparr>" "b \<noteq> NULL" "prev = b"
        by (auto simp: chain_snoc)
      have ne: "a \<noteq> b" "ll \<noteq> orig"
        using c(1,8) snoc bf prems(1) by (auto simp: chain_append) (cases us; auto split: option.splits)+
      show ?thesis using rm True ne c fn n z snoc bf b
        by (simp add: unlink_inner(1) [OF b(1,2) ne(1) c(3,2,7,6), where us = us])
    qed
  qed
qed

text \<open>After one node is gone, the loop goes on over the remaining nodes in the new store.\<close>

lemma removes_after:
  assumes d: "dropped h h1 xs ws" and sub: "set ws \<subseteq> set xs" "set zs \<subseteq> set ws"
    and rm: "removes m h1 ws zs"
  shows "removes m h xs zs"
  using rm dropped_trans [OF d _ sub(2,1)] by (auto simp: removes_def rets_iff)

lemma val_dropped:
  "dropped h h1 xs ws \<Longrightarrow> set ws \<subseteq> set xs \<Longrightarrow> x \<in> set ws \<Longrightarrow> val h1 x = val h x"
  by (force simp: dropped_def val_def)

lemma filter_val_dropped:
  assumes "dropped h h1 xs ws" "set ws \<subseteq> set xs" "set zs \<subseteq> set ws"
  shows "filter (P \<circ> val h1) zs = filter (P \<circ> val h) zs"
  using assms val_dropped [OF assms(1,2)] by (intro filter_cong) auto

lemma remove_all_loop_removes:
  assumes "chain h orig ys ll" "chain h ll zs NULL" "owns h (ys @ zs)"
    and "ys \<noteq> [] \<Longrightarrow> prev = fst (last ys)"
    and "decides fn d x P" "objs h d = Some x" "d \<notin> snd ` set zs" "length zs < n"
  shows "removes (remove_all_loop n fn d orig prev ll h) h (ys @ zs)
    (ys @ filter (Not \<circ> P \<circ> val h) zs)"
  using assms
proof (induction zs arbitrary: ys orig prev ll n h)
  case Nil
  then show ?case by (cases n) (auto intro: removes_none)
next
  case (Cons z zs)
  obtain a e where z: "z = (a, e)" by (cases z)
  obtain m where n: "n = Suc m" using Cons.prems(8) by (cases n) auto
  note prems = Cons.prems [unfolded z]
  from prems obtain c where c: "ll = a" "a \<noteq> NULL" "cells h a = Some c" "cdata c = e"
      "chain h (cnext c) zs NULL" "e \<noteq> NULL" "objs h e = Some (val h (a, e))" "a \<notin> fst ` set ys"
      "cell_at a h = Ret c"
    using node_facts by metis
  have fn: "fn h d e = Ret (P (val h (a, e)))"
    using prems(5,6) c(6,7) by (simp add: decides_def)
  show ?case
  proof (cases "P (val h (a, e))")
    case False
    have "removes (remove_all_loop m fn d orig a (cnext c) h) h ((ys @ [(a, e)]) @ zs)
        ((ys @ [(a, e)]) @ filter (Not \<circ> P \<circ> val h) zs)"
      using prems c n by (intro Cons.IH) (auto simp: chain_append)
    with False show ?thesis using c fn n z by (simp add: comp_def)
  next
    case True
    let ?h = "drop_node ys a e (cnext c) h"
    let ?o = "if ys = [] then cnext c else orig"
    let ?p = "if ys = [] then cnext c else prev"
    note nx = drop_node_next [OF prems(1) [unfolded c(1)] c(5) prems(3)]
    note dr = drop_node_dropped [OF prems(3), of "cnext c"]
    have "objs ?h d = Some x" using prems(6,7) by (auto simp: drop_node_def)
    then have "removes (remove_all_loop m fn d ?o ?p (cnext c) ?h) ?h (ys @ zs)
        (ys @ filter (Not \<circ> P \<circ> val ?h) zs)"
      using prems n nx drop_node_owns [OF prems(3)]
      by (intro Cons.IH) auto
    moreover have "filter (Not \<circ> P \<circ> val ?h) zs = filter (Not \<circ> P \<circ> val h) zs"
      using filter_val_dropped [OF dr, of zs "Not \<circ> P"] by (auto simp: comp_assoc)
    ultimately have rm: "removes (remove_all_loop m fn d ?o ?p (cnext c) ?h) h (ys @ (a, e) # zs)
        (ys @ filter (Not \<circ> P \<circ> val h) zs)"
      by (intro removes_after [OF dr]) auto
    show ?thesis
    proof (cases ys rule: rev_cases)
      case Nil
      with rm True prems(1) c fn n z show ?thesis
        by (simp add: unlink_head [OF c(3,2,7,6), where n = "cnext c"] comp_def)
    next
      case (snoc us bf)
      obtain b f where bf: "bf = (b, f)" by (cases bf)
      from prems(1,4) snoc bf c(1) have b: "cells h b = Some \<lparr>cdata = f, cnext = a\<rparr>" "b \<noteq> NULL" "prev = b"
        by (auto simp: chain_snoc)
      have ne: "a \<noteq> b" "orig \<noteq> ll"
        using c(1,8) snoc bf prems(1) by (auto simp: chain_append) (cases us; auto split: option.splits)+
      show ?thesis using rm True ne c fn n z snoc bf b
        by (simp add: unlink_inner(2) [OF b(1,2) ne(1) c(3,2,7,6), where us = us] comp_def)
    qed
  qed
qed

section \<open>Filtering\<close>

text \<open>Once a node has been kept, \<^verbatim>\<open>prev\<close> points to it and the loop is correct.\<close>

lemma filter_loop_removes:
  assumes "chain h orig ys ll" "chain h ll zs NULL" "owns h (ys @ zs)"
    and "ys \<noteq> []" "prev = fst (last ys)" "judges fn ctx P" "length zs < n"
  shows "removes (filter_loop n fn ctx pred orig prev ll h) h (ys @ zs)
    (ys @ filter (\<lambda>x. \<not> pred (P (val h x))) zs)"
  using assms
proof (induction zs arbitrary: ys prev ll n h)
  case Nil
  then show ?case by (cases n) (auto intro: removes_none)
next
  case (Cons z zs)
  obtain a e where z: "z = (a, e)" by (cases z)
  obtain m where n: "n = Suc m" using Cons.prems(7) by (cases n) auto
  note prems = Cons.prems [unfolded z]
  from prems obtain c where c: "ll = a" "a \<noteq> NULL" "cells h a = Some c" "cdata c = e"
      "chain h (cnext c) zs NULL" "e \<noteq> NULL" "objs h e = Some (val h (a, e))" "a \<notin> fst ` set ys"
      "cell_at a h = Ret c"
    using node_facts by metis
  have fn: "fn h e ctx = Ret (P (val h (a, e)))"
    using prems(6) c(6,7) by (simp add: judges_def)
  show ?case
  proof (cases "pred (P (val h (a, e)))")
    case False
    have "removes (filter_loop m fn ctx pred orig a (cnext c) h) h ((ys @ [(a, e)]) @ zs)
        ((ys @ [(a, e)]) @ filter (\<lambda>x. \<not> pred (P (val h x))) zs)"
      using prems c n by (intro Cons.IH) (auto simp: chain_append)
    with False show ?thesis using c fn n z by simp
  next
    case True
    let ?h = "drop_node ys a e (cnext c) h"
    note nx = drop_node_next [OF prems(1) [unfolded c(1)] c(5) prems(3)]
    note dr = drop_node_dropped [OF prems(3), of "cnext c"]
    have "removes (filter_loop m fn ctx pred orig prev (cnext c) ?h) ?h (ys @ zs)
        (ys @ filter (\<lambda>x. \<not> pred (P (val ?h x))) zs)"
      using prems n nx drop_node_owns [OF prems(3)] by (intro Cons.IH) auto
    moreover have "filter (\<lambda>x. \<not> pred (P (val ?h x))) zs = filter (\<lambda>x. \<not> pred (P (val h x))) zs"
      using filter_val_dropped [OF dr, of zs "\<lambda>v. \<not> pred (P v)"] by (auto simp: comp_def)
    ultimately have rm: "removes (filter_loop m fn ctx pred orig prev (cnext c) ?h) h (ys @ (a, e) # zs)
        (ys @ filter (\<lambda>x. \<not> pred (P (val h x))) zs)"
      by (intro removes_after [OF dr]) auto
    obtain us b f where ys: "ys = us @ [(b, f)]"
      using prems(4) by (metis rev_exhaust surj_pair)
    from prems(1,5) ys c(1) have b: "cells h b = Some \<lparr>cdata = f, cnext = a\<rparr>" "b \<noteq> NULL" "prev = b"
      by (auto simp: chain_snoc)
    have ne: "a \<noteq> b" "ll \<noteq> orig"
      using c(1,8) ys prems(1) by (auto simp: chain_append) (cases us; auto split: option.splits)+
    show ?thesis using rm True ne c fn n z ys b
      by (simp add: unlink_inner(3) [OF b(1,2) ne(1) c(3,2,7,6), where us = us])
  qed
qed

text \<open>
  Dropping the first node leaves \<^verbatim>\<open>prev\<close> pointing to it, freed. A second dropped node in a
  row writes through it.
\<close>

lemma filter_loop_first_dropped:
  assumes "lrep h ll ((a, e) # zs)" "judges fn ctx P" "pred (P (val h (a, e)))" "length zs < n"
  shows "\<exists>q h1. filter_loop (Suc n) fn ctx pred ll ll ll h = filter_loop n fn ctx pred q a q h1 \<and>
    cells h1 a = None \<and> lrep h1 q zs \<and> dropped h h1 ((a, e) # zs) zs"
proof -
  from assms(1) obtain c where c: "ll = a" "a \<noteq> NULL" "cells h a = Some c" "cdata c = e"
      "chain h (cnext c) zs NULL" "e \<noteq> NULL" "objs h e = Some (val h (a, e))" "cell_at a h = Ret c"
    using node_facts [of h ll a e zs "[]"] by (auto simp: lrep_def)
  have own: "owns h ([] @ (a, e) # zs)" and ch: "chain h ll [] a"
    using assms(1) c(1) by (simp_all add: lrep_def)
  have set: "set_next a (cnext c) h = Ret h"
    using c(2,3,8) by (cases h) (auto simp: set_next_def)
  have fn: "fn h e ctx = Ret (P (val h (a, e)))"
    using assms(2) c(6,7) by (simp add: judges_def)
  have "filter_loop (Suc n) fn ctx pred ll ll ll h =
      filter_loop n fn ctx pred (cnext c) a (cnext c) (drop_node [] a e (cnext c) h)"
    using c fn set assms(3) by (simp add: unlink_head [OF c(3,2,7,6), where n = "cnext c"])
  moreover have "cells (drop_node [] a e (cnext c) h) a = None" by (simp add: drop_node_Nil)
  ultimately show ?thesis
    using drop_node_lrep [OF ch c(5) own] drop_node_dropped [OF own, of "cnext c"] by force
qed

section \<open>The operations implement the functions on lists\<close>

lemma owns_fresh_length:
  assumes "lrep h p xs" "fresh_brk h" shows "length xs < brk h"
proof -
  have "fst ` set xs \<subseteq> {1..<brk h}"
    using assms
  proof (induction xs arbitrary: p)
    case (Cons x xs)
    then obtain a d c where "x = (a, d)" "a \<noteq> NULL" "cells h a = Some c" "lrep h (cnext c) xs"
      by (cases x) (auto simp: lrep_def owns_Cons split: option.splits)
    moreover from this Cons.prems(2) have "a < brk h"
      by (metis fresh_brk_def linorder_not_less option.distinct(1))
    ultimately show ?case using Cons.IH Cons.prems(2) by auto
  qed simp
  moreover have "distinct (map fst xs)" using assms(1) by (simp add: lrep_def owns_def)
  ultimately have "length xs \<le> card {1..<brk h}"
    by (metis card_mono distinct_card finite_atLeastLessThan length_map list.set_map)
  moreover have "brk h \<noteq> NULL" using assms(2) by (simp add: fresh_brk_def)
  ultimately show ?thesis by simp
qed

lemma list_add_lrep:
  assumes "lrep h p xs" "fresh_brk h" "objs h d = Some v" "d \<noteq> NULL" "d \<notin> snd ` set xs"
  shows "lrep (snd (list_add True p d h)) (fst (list_add True p d h)) ((brk h, d) # xs)"
proof -
  let ?h = "snd (list_add True p d h)"
  have new: "brk h \<notin> fst ` set xs"
  proof
    assume "brk h \<in> fst ` set xs"
    then obtain ys e zs where "xs = ys @ (brk h, e) # zs"
      by (metis imageE prod.collapse split_list)
    with assms(1) have "cells h (brk h) \<noteq> None"
      by (auto simp: lrep_def chain_append split: option.splits)
    with assms(2) show False by (simp add: fresh_brk_def)
  qed
  have "chain ?h p xs NULL = chain h p xs NULL"
    by (rule chain_cong) (use new in \<open>simp add: list_add_def; metis\<close>)
  moreover have "owns ?h xs = owns h xs"
    by (intro owns_cong) (simp add: list_add_def)
  ultimately show ?thesis
    using assms new by (simp add: lrep_def list_add_def owns_Cons fresh_brk_def)
qed

lemma list_remove_removes:
  assumes "lrep h ll xs" "decides fn d x P" "objs h d = Some x" "length xs < n"
  shows "removes (list_remove n ll d fn h) h xs (remove_first (P \<circ> val h) xs)"
proof (cases "ll = NULL")
  case True
  with assms show ?thesis by (simp add: list_remove_def decides_def removes_def)
next
  case False
  have "removes (remove_loop n fn d ll ll ll h) h ([] @ xs) ([] @ remove_first (P \<circ> val h) xs)"
    using assms by (intro remove_loop_removes) (auto simp: lrep_def)
  with False assms(2) show ?thesis by (simp add: list_remove_def decides_def)
qed

lemma list_remove_all_removes:
  assumes "lrep h ll xs" "decides fn d x P" "objs h d = Some x" "d \<notin> snd ` set xs" "length xs < n"
  shows "removes (list_remove_all n ll d fn h) h xs (filter (Not \<circ> P \<circ> val h) xs)"
proof (cases "ll = NULL")
  case True
  with assms show ?thesis by (simp add: list_remove_all_def decides_def removes_def)
next
  case False
  have "removes (remove_all_loop n fn d ll ll ll h) h ([] @ xs) ([] @ filter (Not \<circ> P \<circ> val h) xs)"
    using assms by (intro remove_all_loop_removes) (auto simp: lrep_def)
  with False assms(2) show ?thesis by (simp add: list_remove_all_def decides_def)
qed

text \<open>\<open>two_first D vs\<close>: the first two elements both satisfy \<open>D\<close>.\<close>

fun two_first :: "('a \<Rightarrow> bool) \<Rightarrow> 'a list \<Rightarrow> bool" where
  "two_first D (v # w # vs) \<longleftrightarrow> D v \<and> D w"
| "two_first D vs \<longleftrightarrow> False"

lemma lrep_node:
  assumes "lrep h p ((a, e) # zs)"
  obtains c where "p = a" "a \<noteq> NULL" "cells h a = Some c" "cdata c = e" "chain h (cnext c) zs NULL"
    "e \<noteq> NULL" "objs h e = Some (val h (a, e))" "cell_at a h = Ret c"
  using assms node_facts [of h p a e zs "[]"] by (auto simp: lrep_def)

lemma filter_loop_keeps_first:
  assumes rep: "lrep h p ((a, e) # zs)" and j: "judges fn ctx P" and n: "length zs < n"
    and keep: "\<not> pred (P (val h (a, e)))"
  shows "removes (filter_loop (Suc n) fn ctx pred p prev p h) h ((a, e) # zs)
    (filter (\<lambda>x. \<not> pred (P (val h x))) ((a, e) # zs))"
proof -
  from rep obtain c where c: "p = a" "a \<noteq> NULL" "cells h a = Some c" "cdata c = e"
      "chain h (cnext c) zs NULL" "e \<noteq> NULL" "objs h e = Some (val h (a, e))" "cell_at a h = Ret c"
    by (rule lrep_node)
  have "removes (filter_loop n fn ctx pred p a (cnext c) h) h ([(a, e)] @ zs)
      ([(a, e)] @ filter (\<lambda>x. \<not> pred (P (val h x))) zs)"
    using rep c n j by (intro filter_loop_removes) (auto simp: lrep_def)
  moreover have "fn h e ctx = Ret (P (val h (a, e)))" using j c(6,7) by (simp add: judges_def)
  ultimately show ?thesis using keep c by simp
qed

text \<open>The loop with \<^verbatim>\<open>prev\<close> dangling: it depends on the next node alone.\<close>

lemma filter_loop_stale:
  assumes rep: "lrep h q zs" and gone: "cells h a = None" "a \<noteq> NULL" and j: "judges fn ctx P"
    and n: "length zs < n"
  shows "if zs \<noteq> [] \<and> pred (P (val h (hd zs)))
    then filter_loop n fn ctx pred q a q h = Stuck UseAfterFree
    else removes (filter_loop n fn ctx pred q a q h) h zs (filter (\<lambda>x. \<not> pred (P (val h x))) zs)"
proof (cases zs)
  case Nil
  with rep n show ?thesis by (cases n) (simp_all add: removes_def)
next
  case (Cons y ws)
  obtain b f where y: "y = (b, f)" by (cases y)
  obtain k where k: "n = Suc k" "length ws < k" using n Cons by (cases n) auto
  from rep [unfolded Cons y] obtain c where c: "q = b" "b \<noteq> NULL" "cells h b = Some c" "cdata c = f"
      "chain h (cnext c) ws NULL" "f \<noteq> NULL" "objs h f = Some (val h (b, f))" "cell_at b h = Ret c"
    by (rule lrep_node)
  have fn: "fn h f ctx = Ret (P (val h (b, f)))" using j c(6,7) by (simp add: judges_def)
  have "set_next a (cnext c) h = Stuck UseAfterFree"
    using gone by (simp add: set_next_def cell_at_def)
  then show ?thesis
    using filter_loop_keeps_first [OF rep [unfolded Cons y] j k(2), of pred a] c fn k Cons y by simp
qed

lemma filter_loop_start:
  assumes rep: "lrep h ll xs" and j: "judges fn ctx P" and n: "length xs < n"
  shows "if two_first (\<lambda>x. pred (P (val h x))) xs
    then filter_loop n fn ctx pred ll ll ll h = Stuck UseAfterFree
    else removes (filter_loop n fn ctx pred ll ll ll h) h xs (filter (\<lambda>x. \<not> pred (P (val h x))) xs)"
proof (cases xs)
  case Nil
  with rep n show ?thesis by (cases n) (simp_all add: removes_def)
next
  case (Cons x zs)
  obtain a e where x: "x = (a, e)" by (cases x)
  obtain m where m: "n = Suc m" "length zs < m" using n Cons by (cases n) auto
  have two: "two_first D ((a, e) # zs) \<longleftrightarrow> D (a, e) \<and> zs \<noteq> [] \<and> D (hd zs)" for D
    by (cases zs) simp_all
  show ?thesis
  proof (cases "pred (P (val h (a, e)))")
    case False
    with filter_loop_keeps_first [OF rep [unfolded Cons x] j m(2), of pred ll] show ?thesis
      by (simp add: two x Cons m del: filter_loop.simps)
  next
    case True
    from filter_loop_first_dropped [OF rep [unfolded Cons x] j, of pred m] True m(2)
    obtain q h1 where step: "filter_loop n fn ctx pred ll ll ll h = filter_loop m fn ctx pred q a q h1"
      and gone: "cells h1 a = None" and rep1: "lrep h1 q zs" and dr: "dropped h h1 ((a, e) # zs) zs"
      using m(1) by blast
    have "a \<noteq> NULL" using rep Cons x by (auto simp: lrep_def)
    note stale = filter_loop_stale [OF rep1 gone this j m(2), of pred]
    have veq: "val h1 z = val h z" if "z \<in> set zs" for z
      using val_dropped [OF dr _ that] by auto
    then have "filter (\<lambda>x. \<not> pred (P (val h1 x))) zs = filter (\<lambda>x. \<not> pred (P (val h x))) zs"
      by (intro filter_cong) auto
    moreover have "zs \<noteq> [] \<Longrightarrow> val h1 (hd zs) = val h (hd zs)" using veq by simp
    moreover have "removes r h1 zs ws \<Longrightarrow> set ws \<subseteq> set zs \<Longrightarrow> removes r h xs ws" for r ws
      using removes_after [OF dr] Cons x by auto
    ultimately show ?thesis using stale step True by (auto simp: two x Cons split: if_splits)
  qed
qed

lemma removes_vals:
  assumes "removes m h xs ys" "set ys \<subseteq> set xs"
  shows "\<exists>q h'. m = Ret (q, h') \<and> lrep h' q ys \<and> vals h' ys = vals h ys \<and> dropped h h' xs ys"
  using assms dropped_vals by (fastforce simp: removes_def rets_iff)

lemma list_search_find:
  assumes "lrep h ll xs" "decides fn d x P" "objs h d = Some x" "length xs < n"
  shows "list_search n ll d fn h =
    Ret (case find (P \<circ> val h) xs of None \<Rightarrow> NULL | Some x \<Rightarrow> snd x)"
  using assms
proof (induction xs arbitrary: ll n)
  case Nil
  then show ?case by (cases n) simp_all
next
  case (Cons y ys)
  obtain a e where y: "y = (a, e)" by (cases y)
  from Cons.prems(1) [unfolded y] obtain c where c: "ll = a" "a \<noteq> NULL" "cdata c = e"
      "chain h (cnext c) ys NULL" "e \<noteq> NULL" "objs h e = Some (val h (a, e))" "cell_at a h = Ret c"
    by (rule lrep_node)
  have "fn h d e = Ret (P (val h (a, e)))"
    using Cons.prems(2,3) c(5,6) by (simp add: decides_def)
  moreover have "lrep h (cnext c) ys"
    using Cons.prems(1) c(4) y by (auto simp: lrep_def owns_Cons)
  ultimately show ?case
    using Cons.IH [of "cnext c" "n - 1"] Cons.prems y c by (cases n) auto
qed

lemma list_length_length:
  "chain h ll xs NULL \<Longrightarrow> length xs < n \<Longrightarrow> list_length n ll h = Ret (length xs)"
proof -
  have "chain h ll xs NULL \<Longrightarrow> length xs < n \<Longrightarrow> length_loop n r ll h = Ret (r + length xs)" for r
    by (induction xs arbitrary: ll n r; case_tac n) (auto simp: cell_at_def split: option.splits)
  then show "chain h ll xs NULL \<Longrightarrow> length xs < n \<Longrightarrow> list_length n ll h = Ret (length xs)"
    by (simp add: list_length_def)
qed

lemma list_nb_cells_filter:
  "chain h ll xs NULL \<Longrightarrow> length xs < n \<Longrightarrow>
    list_nb_cells n ll h = Ret (length (filter (\<lambda>x. snd x \<noteq> NULL) xs))"
proof -
  have "chain h ll xs NULL \<Longrightarrow> length xs < n \<Longrightarrow>
      nb_cells_loop n r ll h = Ret (r + length (filter (\<lambda>x. snd x \<noteq> NULL) xs))" for r
    by (induction xs arbitrary: ll n r; case_tac n) (auto simp: cell_at_def split: option.splits)
  then show "chain h ll xs NULL \<Longrightarrow> length xs < n \<Longrightarrow>
      list_nb_cells n ll h = Ret (length (filter (\<lambda>x. snd x \<noteq> NULL) xs))"
    by (simp add: list_nb_cells_def)
qed

lemma list_map_run_all:
  "lrep h ll xs \<Longrightarrow> length xs < n \<Longrightarrow> list_map n ll fn h s = run_all fn (vals h xs) s"
proof (induction xs arbitrary: ll n s)
  case Nil
  then show ?case by (cases n) (simp_all add: vals_def)
next
  case (Cons y ys)
  obtain a e where y: "y = (a, e)" by (cases y)
  obtain m where m: "n = Suc m" using Cons.prems(2) by (cases n) auto
  from Cons.prems(1) [unfolded y] obtain c where c: "ll = a" "a \<noteq> NULL" "cdata c = e"
      "chain h (cnext c) ys NULL" "e \<noteq> NULL" "objs h e = Some (val h (a, e))" "cell_at a h = Ret c"
    by (rule lrep_node)
  moreover have "lrep h (cnext c) ys"
    using Cons.prems(1) c(4) y by (auto simp: lrep_def owns_Cons)
  then have "list_map m (cnext c) fn h = run_all fn (vals h ys)"
    using Cons.IH Cons.prems(2) m by (intro ext) simp
  ultimately show ?case using m y by (simp add: deref_def vals_def)
qed

lemma list_free_frees:
  "lrep h ll xs \<Longrightarrow> length xs < n \<Longrightarrow> rets (list_free n ll h) (\<lambda>h'. dropped h h' xs [])"
proof (induction xs arbitrary: ll n h)
  case Nil
  then show ?case by (cases n) simp_all
next
  case (Cons y ys)
  obtain a e where y: "y = (a, e)" by (cases y)
  obtain m where m: "n = Suc m" using Cons.prems(2) by (cases n) auto
  from Cons.prems(1) [unfolded y] obtain c where c: "ll = a" "a \<noteq> NULL" "cells h a = Some c"
      "cdata c = e" "chain h (cnext c) ys NULL" "e \<noteq> NULL" "objs h e = Some (val h (a, e))"
      "cell_at a h = Ret c"
    by (rule lrep_node)
  have own: "owns h ([] @ (a, e) # ys)" and ch: "chain h ll [] a"
    using Cons.prems(1) c(1) y by (simp_all add: lrep_def)
  let ?h = "drop_node [] a e (cnext c) h"
  have "rets (list_free m (cnext c) ?h) (\<lambda>h'. dropped ?h h' ys [])"
    using drop_node_lrep [OF ch c(5) own] Cons.prems(2) m by (intro Cons.IH) auto
  moreover have "dropped h h' (y # ys) []" if "dropped ?h h' ys []" for h'
    using that drop_node_dropped [OF own, of "cnext c"] y
    by (intro dropped_trans [of h ?h "y # ys" ys h' "[]"]) auto
  ultimately have "rets (list_free m (cnext c) ?h) (\<lambda>h'. dropped h h' (y # ys) [])"
    by (rule rets_mono)
  then show ?case
    using c m by (simp add: unlink_head [OF c(3,2,7,6), where n = "cnext c"])
qed

section \<open>The properties of \<^verbatim>\<open>list.c\<close>\<close>

text \<open>A list of two strings at the addresses 1 and 3, and a third string, for the witnesses.\<close>

definition two_strings :: "string lheap" where
  "two_strings =
     \<lparr>cells = [1 \<mapsto> \<lparr>cdata = 2, cnext = 3\<rparr>, 3 \<mapsto> \<lparr>cdata = 4, cnext = NULL\<rparr>],
      objs = [2 \<mapsto> ''a'', 4 \<mapsto> ''b'', 5 \<mapsto> ''b''], brk = 6\<rparr>"

lemma two_strings_lrep: "lrep two_strings 1 [(1, 2), (3, 4)]"
  by (simp add: lrep_def owns_def two_strings_def)

definition same_string :: "string compare_cb" where
  "same_string h p q = obind (deref p h) (\<lambda>x. obind (deref q h) (\<lambda>y. Ret (x = y)))"

lemma same_string_decides: "d \<noteq> NULL \<Longrightarrow> decides same_string d x (\<lambda>v. x = v)"
  by (simp add: decides_def same_string_def deref_def)

definition keep_none :: "(string, unit) criteria_cb" where
  "keep_none h e ctx = Ret True"

text \<open>
  C22: \<^verbatim>\<open>list_remove\<close> on a list that owns its cells and data returns the list without its
  first element that the comparison accepts, and frees exactly that cell and its data.
\<close>

theorem list_remove_correct:
  assumes "lrep h ll xs" and "decides fn d x P" and "objs h d = Some x" and "length xs < n"
  shows "\<exists>q h' ys. list_remove n ll d fn h = Ret (q, h') \<and> lrep h' q ys \<and>
    vals h' ys = remove_first P (vals h xs) \<and> dropped h h' xs ys"
proof -
  have "set (remove_first (P \<circ> val h) xs) \<subseteq> set xs" by (rule set_remove_first)
  from removes_vals [OF list_remove_removes [OF assms] this] show ?thesis
    by (metis vals_remove_first)
qed

theorem list_remove_correct_witness:
  "\<exists>q h' ys. list_remove 3 1 5 same_string two_strings = Ret (q, h') \<and> lrep h' q ys \<and>
    vals h' ys = [''a''] \<and> dropped two_strings h' [(1, 2), (3, 4)] ys"
proof -
  have "objs two_strings 5 = Some ''b''" by (simp add: two_strings_def)
  from list_remove_correct [OF two_strings_lrep same_string_decides this, of 3] show ?thesis
    by (simp add: vals_def val_def two_strings_def)
qed

text \<open>
  \<^verbatim>\<open>list_remove_all\<close> returns the list without every element that the comparison
  accepts, and frees exactly those cells and data.
\<close>

theorem list_remove_all_correct:
  assumes "lrep h ll xs" and "decides fn d x P" and "objs h d = Some x" and "d \<notin> snd ` set xs"
    and "length xs < n"
  shows "\<exists>q h' ys. list_remove_all n ll d fn h = Ret (q, h') \<and> lrep h' q ys \<and>
    vals h' ys = filter (\<lambda>v. \<not> P v) (vals h xs) \<and> dropped h h' xs ys"
proof -
  have "vals h (filter (Not \<circ> P \<circ> val h) xs) = filter (\<lambda>v. \<not> P v) (vals h xs)"
    using vals_filter [of h "Not \<circ> P" xs] by (simp add: comp_def)
  moreover have "set (filter (Not \<circ> P \<circ> val h) xs) \<subseteq> set xs" by auto
  ultimately show ?thesis
    using removes_vals [OF list_remove_all_removes [OF assms]] by metis
qed

theorem list_remove_all_correct_witness:
  "\<exists>q h' ys. list_remove_all 3 1 5 same_string two_strings = Ret (q, h') \<and> lrep h' q ys \<and>
    vals h' ys = [''a''] \<and> dropped two_strings h' [(1, 2), (3, 4)] ys"
proof -
  have "objs two_strings 5 = Some ''b''" by (simp add: two_strings_def)
  from list_remove_all_correct [OF two_strings_lrep same_string_decides this, of 3] show ?thesis
    by (simp add: vals_def val_def two_strings_def)
qed

text \<open>
  C23: \<^verbatim>\<open>list_filter\<close> drops every element its callback accepts and frees exactly those,
  except when the first two elements are both to be dropped: then it writes through
  \<^verbatim>\<open>prev\<close>, which points to the first, freed cell.
\<close>

theorem list_filter_correct:
  assumes rep: "lrep h ll xs" and j: "judges fn ctx P" and n: "length xs < n"
  shows "if two_first P (vals h xs) then list_filter n ll fn ctx h = Stuck UseAfterFree
    else \<exists>q h' ys. list_filter n ll fn ctx h = Ret (q, h') \<and> lrep h' q ys \<and>
      vals h' ys = filter (\<lambda>v. \<not> P v) (vals h xs) \<and> dropped h h' xs ys"
proof (cases "ll = NULL")
  case True
  with rep show ?thesis by (simp add: list_filter_def vals_def)
next
  case False
  have two: "two_first P (vals h xs) \<longleftrightarrow> two_first (\<lambda>x. P (val h x)) xs"
    by (cases xs; cases "tl xs") (auto simp: vals_def)
  have "vals h (filter (\<lambda>x. \<not> P (val h x)) xs) = filter (\<lambda>v. \<not> P v) (vals h xs)"
    using vals_filter [of h "Not \<circ> P" xs] by (simp add: comp_def)
  then show ?thesis
    using filter_loop_start [OF rep j n, of "\<lambda>b. b"] removes_vals [of _ h xs "filter (\<lambda>x. \<not> P (val h x)) xs"]
      False by (auto simp: list_filter_def two) (metis filter_is_subset)+
qed

theorem list_filter_correct_witness:
  "list_filter 3 1 keep_none () two_strings = Stuck UseAfterFree"
proof -
  have "judges keep_none () (\<lambda>v. True)" by (simp add: judges_def keep_none_def)
  from list_filter_correct [OF two_strings_lrep this, of 3] show ?thesis
    by (simp add: vals_def)
qed

end
