(* ===== verification/Clib.thy ===== *)
theory Clib
  imports Prelude
begin

text \<open>
  The string functions of the C library that the program uses, on HOL strings (a C string without
  its terminating NUL), and the facts about them that the components share: decimal printing and
  reading are inverse, and the last \<^verbatim>\<open>/\<close> of a path splits it.
\<close>

section \<open>Characters\<close>

definition isspace :: "char \<Rightarrow> bool" where
  "isspace c \<longleftrightarrow> c = CHR '' '' \<or> (9 \<le> (of_char c :: nat) \<and> (of_char c :: nat) \<le> 13)"

definition isdigit :: "char \<Rightarrow> bool" where
  "isdigit c \<longleftrightarrow> 48 \<le> (of_char c :: nat) \<and> (of_char c :: nat) \<le> 57"

definition tolower :: "char \<Rightarrow> char" where
  "tolower c =
     (if 65 \<le> (of_char c :: nat) \<and> (of_char c :: nat) \<le> 90 then char_of ((of_char c :: nat) + 32)
      else c)"

section \<open>Searching and comparing\<close>

text \<open>The suffix of \<open>s\<close> that starts at the first \<open>c\<close>.\<close>

definition strchr :: "string \<Rightarrow> char \<Rightarrow> string option" where
  "strchr s c = (case dropWhile (\<lambda>x. x \<noteq> c) s of [] \<Rightarrow> None | r \<Rightarrow> Some r)"

text \<open>The index of the last \<open>c\<close>.\<close>

fun strrchr :: "string \<Rightarrow> char \<Rightarrow> nat option" where
  "strrchr [] c = None"
| "strrchr (x # xs) c =
     (case strrchr xs c of Some i \<Rightarrow> Some (Suc i) | None \<Rightarrow> if x = c then Some 0 else None)"

text \<open>The suffix of \<open>s\<close> that starts at the first occurrence of \<open>p\<close>.\<close>

fun strstr :: "string \<Rightarrow> string \<Rightarrow> string option" where
  "strstr [] p = (if p = [] then Some [] else None)"
| "strstr (x # xs) p = (if take (length p) (x # xs) = p then Some (x # xs) else strstr xs p)"

text \<open>The comparisons return 0 (\<open>True\<close> here) when the first \<open>n\<close> characters agree.\<close>

definition strncmp_eq :: "string \<Rightarrow> string \<Rightarrow> nat \<Rightarrow> bool" where
  "strncmp_eq s t n \<longleftrightarrow> take n s = take n t"

definition strncasecmp_eq :: "string \<Rightarrow> string \<Rightarrow> nat \<Rightarrow> bool" where
  "strncasecmp_eq s t n \<longleftrightarrow> map tolower (take n s) = map tolower (take n t)"

section \<open>Decimal numbers\<close>

definition digit :: "nat \<Rightarrow> char" where
  "digit d = char_of (48 + d)"

text \<open>\<^verbatim>\<open>printf("%lu")\<close>.\<close>

fun dec :: "nat \<Rightarrow> string" where
  "dec n = (if n < 10 then [digit n] else dec (n div 10) @ [digit (n mod 10)])"

declare dec.simps [simp del]

fun read_digits :: "nat \<Rightarrow> string \<Rightarrow> nat" where
  "read_digits v [] = v"
| "read_digits v (c # cs) =
     (if isdigit c then read_digits (10 * v + ((of_char c :: nat) - 48)) cs else v)"

text \<open>
  \<^verbatim>\<open>strtoul(s, NULL, 10)\<close> and \<^verbatim>\<open>strtoull\<close> with 64-bit \<^verbatim>\<open>unsigned long\<close>: leading
  white space, an optional sign, digits; the largest value on overflow.
\<close>

definition read_sign :: "string \<Rightarrow> bool \<times> string" where
  "read_sign s =
     (case s of [] \<Rightarrow> (False, [])
      | c # cs \<Rightarrow> if c = CHR ''-'' then (True, cs) else if c = CHR ''+'' then (False, cs)
                  else (False, s))"

definition strtoul :: "string \<Rightarrow> u64" where
  "strtoul s =
     (let (neg, t) = read_sign (dropWhile isspace s); v = read_digits 0 t
      in if 2 ^ 64 \<le> v then -1 else if neg then - of_nat v else of_nat v)"

lemma of_char_digit: "d < 10 \<Longrightarrow> (of_char (digit d) :: nat) = 48 + d"
  by (simp add: digit_def)

lemma isdigit_digit: "d < 10 \<Longrightarrow> isdigit (digit d)"
  by (simp add: isdigit_def of_char_digit)

lemma read_digits_append:
  "list_all isdigit s \<Longrightarrow> read_digits v (s @ t) = read_digits (read_digits v s) t"
  by (induction s arbitrary: v) auto

lemma dec_digits: "list_all isdigit (dec n)"
  by (induction n rule: dec.induct) (subst dec.simps, auto simp: isdigit_digit)

lemma dec_not_Nil [simp]: "dec n \<noteq> []"
  by (subst dec.simps) simp

lemma read_digits_dec: "read_digits 0 (dec n) = n"
proof (induction n rule: dec.induct)
  case (1 n)
  show ?case
  proof (cases "n < 10")
    case True
    then show ?thesis by (subst dec.simps) (simp add: isdigit_digit of_char_digit)
  next
    case False
    with 1 show ?thesis
      by (subst dec.simps) (simp add: read_digits_append dec_digits isdigit_digit of_char_digit)
  qed
qed

lemma isdigit_not_space: "isdigit c \<Longrightarrow> \<not> isspace c \<and> c \<noteq> CHR ''-'' \<and> c \<noteq> CHR ''+''"
proof -
  assume d: "isdigit c"
  have "(of_char (CHR '' '') :: nat) = 32" "(of_char (CHR ''-'') :: nat) = 45"
    "(of_char (CHR ''+'') :: nat) = 43" by simp_all
  with d show ?thesis unfolding isdigit_def isspace_def by (intro conjI notI) auto
qed

lemma strtoul_dec:
  assumes "n < 2 ^ 64" shows "strtoul (dec n) = of_nat n"
proof -
  obtain c cs where cs: "dec n = c # cs" by (cases "dec n") auto
  with dec_digits [of n] have "isdigit c" by simp
  with isdigit_not_space [OF this] have "read_sign (dropWhile isspace (dec n)) = (False, dec n)"
    by (simp add: cs read_sign_def)
  with assms show ?thesis by (simp add: strtoul_def read_digits_dec)
qed

section \<open>Splitting a path at its last slash\<close>

lemma strrchr_None: "strrchr s c = None \<longleftrightarrow> c \<notin> set s"
  by (induction s) (auto split: option.splits)

lemma strrchr_Some:
  "strrchr s c = Some i \<longleftrightarrow> i < length s \<and> s ! i = c \<and> c \<notin> set (drop (Suc i) s)"
proof (induction s arbitrary: i)
  case (Cons x xs)
  show ?case
  proof (cases i)
    case 0
    then show ?thesis using strrchr_None [of xs c] by (auto split: option.splits)
  next
    case (Suc j)
    with Cons.IH [of j] show ?thesis by (cases "strrchr xs c") auto
  qed
qed simp

text \<open>
  The idiom of \<^verbatim>\<open>hash_fill_dirent\<close>, \<^verbatim>\<open>dfs_unlink\<close> and \<^verbatim>\<open>rename_file\<close>: the string up to
  the last slash, at which the code writes a NUL for the time of one lookup.
\<close>

definition cut_at :: "string \<Rightarrow> nat \<Rightarrow> string" where
  "cut_at path i = (if i = 0 then ''/'' else take i path)"

lemma cut_at_append:
  assumes "CHR ''/'' \<notin> set name" "dir \<noteq> []"
  shows "strrchr (dir @ ''/'' @ name) (CHR ''/'') = Some (length dir) \<and>
    cut_at (dir @ ''/'' @ name) (length dir) = dir"
  using assms by (simp add: strrchr_Some cut_at_def nth_append)

end
