(* ===== verification/Tmpstr.thy ===== *)
theory Tmpstr
  imports Clib
begin

text \<open>
  \<^verbatim>\<open>src/tmpstr.c\<close>: a per-thread ring of \<^verbatim>\<open>TMPSTR_NB\<close> buffers of \<^verbatim>\<open>TMPSTR_MAX\<close>
  bytes. A pointer that \<^verbatim>\<open>tmpstr_printf\<close> returns is the index of its buffer here, so that the
  reuse of a buffer is visible. The lemmas say how long a string stays what it was.
\<close>

definition TMPSTR_MAX :: nat where "TMPSTR_MAX = 2048"
definition TMPSTR_NB :: nat where "TMPSTR_NB = 32"

record tmpring =
  strings :: "string list"
  current :: nat

text \<open>The zero-initialised thread-local storage.\<close>

definition ring0 :: tmpring where
  "ring0 = \<lparr>strings = replicate TMPSTR_NB [], current = 0\<rparr>"

definition tmpstr_new :: "tmpring \<Rightarrow> nat \<times> tmpring" where
  "tmpstr_new r =
     (let c = Suc (current r); c = (if TMPSTR_NB \<le> c then 0 else c)
      in (c, r\<lparr>current := c\<rparr>))"

text \<open>\<open>s\<close> is the text the format and its arguments describe; \<^verbatim>\<open>vsnprintf\<close> keeps what fits
  in the buffer with its NUL.\<close>

definition tmpstr_fit :: "string \<Rightarrow> string" where
  "tmpstr_fit s = take (TMPSTR_MAX - 1) s"

definition tmpstr_printf :: "string \<Rightarrow> tmpring \<Rightarrow> nat \<times> tmpring" where
  "tmpstr_printf s r =
     (let (i, r) = tmpstr_new r in (i, r\<lparr>strings := (strings r)[i := tmpstr_fit s]\<rparr>))"

definition tmpstr_at :: "nat \<Rightarrow> tmpring \<Rightarrow> string" where
  "tmpstr_at i r = strings r ! i"

fun tmpstr_printfs :: "string list \<Rightarrow> tmpring \<Rightarrow> tmpring" where
  "tmpstr_printfs [] r = r"
| "tmpstr_printfs (s # ss) r = tmpstr_printfs ss (snd (tmpstr_printf s r))"

definition ring_ok :: "tmpring \<Rightarrow> bool" where
  "ring_ok r \<longleftrightarrow> length (strings r) = TMPSTR_NB \<and> current r < TMPSTR_NB"

lemma ring_ok_ring0 [simp]: "ring_ok ring0"
  by (simp add: ring_ok_def ring0_def TMPSTR_NB_def)

lemma tmpstr_new_current: "ring_ok r \<Longrightarrow> fst (tmpstr_new r) = Suc (current r) mod TMPSTR_NB"
  by (simp add: tmpstr_new_def ring_ok_def Let_def mod_Suc)

lemma tmpstr_printf_simps:
  assumes "ring_ok r"
  shows "fst (tmpstr_printf s r) = Suc (current r) mod TMPSTR_NB"
    and "current (snd (tmpstr_printf s r)) = Suc (current r) mod TMPSTR_NB"
    and "strings (snd (tmpstr_printf s r)) =
      (strings r)[Suc (current r) mod TMPSTR_NB := tmpstr_fit s]"
    and "ring_ok (snd (tmpstr_printf s r))"
  using assms tmpstr_new_current [OF assms]
  by (auto simp: tmpstr_printf_def tmpstr_new_def ring_ok_def Let_def mod_Suc split: if_splits)

lemma tmpstr_printf_fst_less: "ring_ok r \<Longrightarrow> fst (tmpstr_printf s r) < TMPSTR_NB"
  by (simp add: tmpstr_printf_simps(1) TMPSTR_NB_def)

lemma tmpstr_at_printf: "ring_ok r \<Longrightarrow> tmpstr_at (fst (tmpstr_printf s r)) (snd (tmpstr_printf s r)) = tmpstr_fit s"
  by (simp add: tmpstr_at_def tmpstr_printf_simps ring_ok_def TMPSTR_NB_def)

lemma ring_ok_printfs [simp]: "ring_ok r \<Longrightarrow> ring_ok (tmpstr_printfs ss r)"
  by (induction ss arbitrary: r) (auto intro: tmpstr_printf_simps(4))

lemma current_printfs:
  "ring_ok r \<Longrightarrow> current (tmpstr_printfs ss r) = (current r + length ss) mod TMPSTR_NB"
proof (induction ss arbitrary: r)
  case Nil
  then show ?case by (simp add: ring_ok_def)
next
  case (Cons s ss)
  from Cons.IH [OF tmpstr_printf_simps(4) [OF Cons.prems]] show ?case
    by (simp add: tmpstr_printf_simps Cons.prems mod_simps)
qed

text \<open>Buffer \<open>i\<close> is untouched as long as the ring has not come round to it.\<close>

lemma tmpstr_at_printfs:
  assumes "ring_ok r" "i < TMPSTR_NB" "\<forall>k<length ss. (current r + Suc k) mod TMPSTR_NB \<noteq> i"
  shows "tmpstr_at i (tmpstr_printfs ss r) = tmpstr_at i r"
  using assms
proof (induction ss arbitrary: r)
  case (Cons s ss)
  let ?r = "snd (tmpstr_printf s r)"
  have "\<forall>k<length ss. (current ?r + Suc k) mod TMPSTR_NB \<noteq> i"
  proof (intro allI impI)
    fix k assume "k < length ss"
    then have "(current r + Suc (Suc k)) mod TMPSTR_NB \<noteq> i"
      using Cons.prems(3) [rule_format, of "Suc k"] by simp
    then show "(current ?r + Suc k) mod TMPSTR_NB \<noteq> i"
      using mod_add_left_eq [of "Suc (current r)" TMPSTR_NB "Suc k"]
      by (simp add: tmpstr_printf_simps Cons.prems(1))
  qed
  then have "tmpstr_at i (tmpstr_printfs ss ?r) = tmpstr_at i ?r"
    using Cons.prems by (intro Cons.IH) (auto intro: tmpstr_printf_simps(4))
  also have "\<dots> = tmpstr_at i r"
    using Cons.prems(3) by (auto simp: tmpstr_at_def tmpstr_printf_simps Cons.prems(1))
  finally show ?case by simp
qed simp

lemma mod_shift_neq: "0 < (k::nat) \<Longrightarrow> k < n \<Longrightarrow> (c + k) mod n \<noteq> c mod n"
  by (simp add: mod_eq_dvd_iff_nat nat_dvd_not_less)

text \<open>
  C26: a string that \<^verbatim>\<open>tmpstr_printf\<close> returned survives the next 31 calls, whatever they
  print, and the call after those overwrites it.
\<close>

theorem tmpstr_lifetime:
  assumes "ring_ok r" and "length ss < TMPSTR_NB" and "length ts = TMPSTR_NB - 1"
    and "i = fst (tmpstr_printf s r)" and "r1 = snd (tmpstr_printf s r)"
  shows "tmpstr_at i (tmpstr_printfs ss r1) = tmpstr_fit s \<and>
    tmpstr_at i (snd (tmpstr_printf t (tmpstr_printfs ts r1))) = tmpstr_fit t"
proof
  have r1: "ring_ok r1" "current r1 = i" "i < TMPSTR_NB"
    using assms by (simp_all add: tmpstr_printf_simps TMPSTR_NB_def)
  have "\<forall>k<length ss. (current r1 + Suc k) mod TMPSTR_NB \<noteq> i"
    using assms(2) r1 mod_shift_neq [of "Suc _" TMPSTR_NB i] by (auto simp: mod_less)
  then have "tmpstr_at i (tmpstr_printfs ss r1) = tmpstr_at i r1"
    by (rule tmpstr_at_printfs [OF r1(1,3)])
  then show "tmpstr_at i (tmpstr_printfs ss r1) = tmpstr_fit s"
    using assms by (simp add: tmpstr_at_printf)
  let ?r = "tmpstr_printfs ts r1"
  have "Suc (current ?r) mod TMPSTR_NB = i"
    using r1 assms(3) by (simp add: current_printfs mod_simps TMPSTR_NB_def)
  then have "fst (tmpstr_printf t ?r) = i"
    using r1(1) by (simp add: tmpstr_printf_simps)
  then show "tmpstr_at i (snd (tmpstr_printf t ?r)) = tmpstr_fit t"
    using tmpstr_at_printf [of ?r t] r1(1) by simp
qed

theorem tmpstr_lifetime_witness:
  "tmpstr_at 1 (tmpstr_printfs [''b'', ''c''] (snd (tmpstr_printf ''a'' ring0))) = ''a'' \<and>
    tmpstr_at 1 (snd (tmpstr_printf ''z'' (tmpstr_printfs (replicate 31 ''y'')
      (snd (tmpstr_printf ''a'' ring0))))) = ''z''"
  using tmpstr_lifetime [OF ring_ok_ring0, of "[''b'', ''c'']" "replicate 31 ''y''" _ "''a''", OF _ _ refl refl,
      of "''z''"]
  by (simp add: tmpstr_printf_simps(1) TMPSTR_NB_def tmpstr_fit_def TMPSTR_MAX_def ring0_def [THEN arg_cong [of _ _ current]])

end
