(* ===== verification/World.thy ===== *)
theory World
  imports Clib Tmpstr
begin

text \<open>
  The data of the program (\<^verbatim>\<open>struct pentry\<close>, \<^verbatim>\<open>struct conf\<close>, \<^verbatim>\<open>struct stat\<close>) and its
  state, and the interface of everything it calls that is not in \<^verbatim>\<open>src/\<close>: libdroplet and the
  operating system. That interface is a record of functions \<open>E\<close> over an abstract world \<open>'w\<close> and an
  abstract type \<open>'d\<close> of libdroplet dictionaries; every definition that calls out takes \<open>E\<close> as an
  argument, and nothing is assumed of it unless a theorem says so.
\<close>

unbundle bit_operations_syntax

section \<open>Constants of the C library\<close>

abbreviation O_RDONLY :: u32 where "O_RDONLY \<equiv> 0"
abbreviation O_WRONLY :: u32 where "O_WRONLY \<equiv> 1"
abbreviation O_RDWR :: u32 where "O_RDWR \<equiv> 2"
abbreviation O_ACCMODE :: u32 where "O_ACCMODE \<equiv> 3"
abbreviation O_CREAT :: u32 where "O_CREAT \<equiv> 64"
abbreviation O_TRUNC :: u32 where "O_TRUNC \<equiv> 512"
abbreviation O_APPEND :: u32 where "O_APPEND \<equiv> 1024"

abbreviation S_IFMT :: u32 where "S_IFMT \<equiv> 0xF000"
abbreviation S_IFDIR :: u32 where "S_IFDIR \<equiv> 0x4000"
abbreviation S_IFREG :: u32 where "S_IFREG \<equiv> 0x8000"
abbreviation S_IFLNK :: u32 where "S_IFLNK \<equiv> 0xA000"
abbreviation S_IRUSR :: u32 where "S_IRUSR \<equiv> 0x100"
abbreviation S_IWUSR :: u32 where "S_IWUSR \<equiv> 0x80"
abbreviation S_IXUSR :: u32 where "S_IXUSR \<equiv> 0x40"
abbreviation S_IWGRP :: u32 where "S_IWGRP \<equiv> 0x10"
abbreviation S_IWOTH :: u32 where "S_IWOTH \<equiv> 2"

abbreviation ENOENT :: int where "ENOENT \<equiv> 2"
abbreviation EBADF :: int where "EBADF \<equiv> 9"
abbreviation EBUSY :: int where "EBUSY \<equiv> 16"
abbreviation EEXIST :: int where "EEXIST \<equiv> 17"
abbreviation EBADFD :: int where "EBADFD \<equiv> 77"
abbreviation EINTR :: int where "EINTR \<equiv> 4"

type_synonym errno = int

text \<open>The fields of \<^verbatim>\<open>struct stat\<close> that the program reads or writes.\<close>

record stat =
  st_mode :: u32
  st_nlink :: u64
  st_size :: u64
  st_uid :: u32
  st_gid :: u32
  st_atime :: u64
  st_mtime :: u64
  st_ctime :: u64

definition stat0 :: stat where
  "stat0 = \<lparr>st_mode = 0, st_nlink = 0, st_size = 0, st_uid = 0, st_gid = 0,
            st_atime = 0, st_mtime = 0, st_ctime = 0\<rparr>"

section \<open>libdroplet's statuses and file types\<close>

text \<open>
  The statuses that the program tests, and all others. \<open>status_code\<close> of the interface is the
  integer of the enumeration, which handlers return as an \<^verbatim>\<open>int\<close>.
\<close>

datatype dpl_status = DPL_SUCCESS | DPL_FAILURE | DPL_ENOENT | DPL_EINVAL | DPL_EISDIR | DPL_OTHER nat

datatype dpl_ftype = DPL_FTYPE_REG | DPL_FTYPE_DIR | DPL_FTYPE_OTHER

type_synonym ino = string

section \<open>Data of the program\<close>

text \<open>\<^verbatim>\<open>hash.h\<close>\<close>

datatype flag = FLAG_CLEAN | FLAG_DIRTY
datatype filetype = FILE_REG | FILE_DIR | FILE_SYMLINK
datatype placeholder = FILE_LOCAL | FILE_REMOTE | FILE_UNSET

text \<open>
  \<^verbatim>\<open>struct pentry\<close>. A mutex is whether it is held, the semaphore is its value. \<open>dirent\<close> is
  the list of strings that the \<^verbatim>\<open>struct list\<close> represents. The field \<^verbatim>\<open>st\<close> is never used.
\<close>

record pentry =
  fd :: int
  path :: "string option"
  digest :: string
  metadata :: addr
  md_mutex :: bool
  mutex :: bool
  refcount :: nat
  flag :: flag
  exclude :: bool
  filetype :: filetype
  dirent :: "string list"
  ondisk :: placeholder
  atime :: int

text \<open>A \<^verbatim>\<open>char *\<close> of the configuration: NULL, a string literal, a \<^verbatim>\<open>malloc\<close>ed string, or a
  pointer to a string that was freed.\<close>

datatype cstr = CNull | CLit string | CHeap string | CFreed

text \<open>\<^verbatim>\<open>struct re\<close>: the compiled pattern is the pattern it was compiled from.\<close>

record re =
  re_str :: cstr
  re_rx :: "string option"
  re_set :: bool

record conf =
  root_dir :: cstr
  cache_dir :: cstr
  compression_method :: cstr
  zlib_level :: u32
  gc_loop_delay :: u32
  gc_age_threshold :: u32
  sc_loop_delay :: u32
  sc_age_threshold :: u32
  max_retry :: u32
  log_level :: u32
  cache_max_size :: u32
  regex :: re
  encryption_method :: cstr
  debug :: u32
  profiling :: u32
  profiling_logfile :: cstr

text \<open>The string a \<^verbatim>\<open>char *\<close> points to, what \<^verbatim>\<open>%s\<close> prints of it (it is never applied to a
  freed pointer: only \<^verbatim>\<open>regex.str\<close> can be one), and \<^verbatim>\<open>free\<close>.\<close>

primrec cstr_get :: "cstr \<Rightarrow> string outcome" where
  "cstr_get CNull = Stuck NullDeref"
| "cstr_get (CLit s) = Ret s"
| "cstr_get (CHeap s) = Ret s"
| "cstr_get CFreed = Stuck UseAfterFree"

primrec cstr_print :: "cstr \<Rightarrow> string" where
  "cstr_print CNull = ''(null)''"
| "cstr_print (CLit s) = s"
| "cstr_print (CHeap s) = s"
| "cstr_print CFreed = []"

primrec cstr_free :: "cstr \<Rightarrow> unit outcome" where
  "cstr_free CNull = Ret ()"
| "cstr_free (CLit s) = Stuck BadFree"
| "cstr_free (CHeap s) = Ret ()"
| "cstr_free CFreed = Stuck BadFree"

text \<open>A string that can be read, and one that can be read and freed.\<close>

definition cstr_ok :: "cstr \<Rightarrow> bool" where
  "cstr_ok c \<longleftrightarrow> (\<exists>s. c = CLit s \<or> c = CHeap s)"

definition cstr_own :: "cstr \<Rightarrow> bool" where
  "cstr_own c \<longleftrightarrow> c = CNull \<or> (\<exists>s. c = CHeap s)"

lemma cstr_ok_simps [simp]: "\<not> cstr_ok CNull" "cstr_ok (CLit s)" "cstr_ok (CHeap s)" "\<not> cstr_ok CFreed"
  by (simp_all add: cstr_ok_def)

lemma cstr_own_simps [simp]:
  "cstr_own CNull" "\<not> cstr_own (CLit s)" "cstr_own (CHeap s)" "\<not> cstr_own CFreed"
  by (simp_all add: cstr_own_def)

lemma cstr_free_own [simp]: "cstr_own c \<Longrightarrow> cstr_free c = Ret ()"
  by (cases c) simp_all

lemma okay_cstr_get [okay_rule]: "cstr_ok c \<Longrightarrow> (\<And>m. Q m) \<Longrightarrow> okay (cstr_get c) Q"
  by (cases c) simp_all

lemma okay_cstr_free [okay_rule]: "cstr_own c \<Longrightarrow> Q () \<Longrightarrow> okay (cstr_free c) Q"
  by (cases c) simp_all

section \<open>What the program calls\<close>

text \<open>
  The operating system and the C library, where their answer depends on the world. A call that
  fails answers \<open>Inl errno\<close>. \<open>malloc_ok\<close> says whether the next allocation succeeds,
  \<open>init_rc\<close> what the next call that initialises a mutex or a semaphore returns, \<open>pthread_rc\<close>
  what the next lock or unlock of a mutex returns beside its effect (both 0 unless it fails), \<open>junk\<close> what fresh memory holds.
\<close>

text \<open>
  \<open>s_fread\<close> answers the bytes read, \<^verbatim>\<open>ferror\<close> and \<^verbatim>\<open>feof\<close>; \<open>s_fwrite\<close> whether
  everything was written. zlib: \<open>z_init\<close> is \<^verbatim>\<open>deflateInit\<close> (\<open>True\<close>) or \<^verbatim>\<open>inflateInit\<close>
  and answers a stream; \<open>z_step\<close> is \<^verbatim>\<open>deflate\<close> or \<^verbatim>\<open>inflate\<close> on the stream with the
  input left and the room in the output buffer, and answers the input then left and the output.
  \<open>s_regcomp\<close> and \<open>s_regexec\<close> say whether a pattern compiles and matches, \<open>s_lines\<close> what the
  successive calls of \<^verbatim>\<open>fgets\<close> on a file answer (\<open>None\<close> if it cannot be opened).
  \<open>loop_fuel\<close> bounds the iterations of a loop that only the answers of the world can end.
\<close>

datatype zret = Z_OK | Z_STREAM_END | Z_NEED_DICT | Z_ERRNO | Z_STREAM_ERROR | Z_DATA_ERROR
  | Z_MEM_ERROR | Z_BUF_ERROR | Z_VERSION_ERROR

datatype zflush = Z_NO_FLUSH | Z_FINISH

record 'w sys_ops =
  malloc_ok :: "'w \<Rightarrow> bool \<times> 'w"
  init_rc :: "'w \<Rightarrow> int \<times> 'w"
  pthread_rc :: "'w \<Rightarrow> int \<times> 'w"
  junk :: "'w \<Rightarrow> pentry"
  s_time :: "'w \<Rightarrow> int \<times> 'w"
  s_sleep :: "u32 \<Rightarrow> 'w \<Rightarrow> unit \<times> 'w"
  s_open :: "string \<Rightarrow> u32 \<Rightarrow> 'w \<Rightarrow> (errno + int) \<times> 'w"
  s_close :: "int \<Rightarrow> 'w \<Rightarrow> (errno + unit) \<times> 'w"
  s_unlink :: "string \<Rightarrow> 'w \<Rightarrow> (errno + unit) \<times> 'w"
  s_access :: "string \<Rightarrow> 'w \<Rightarrow> (errno + unit) \<times> 'w"
  s_mkdir :: "string \<Rightarrow> 'w \<Rightarrow> (errno + unit) \<times> 'w"
  s_stat :: "string \<Rightarrow> 'w \<Rightarrow> (errno + unit) \<times> 'w"
  s_fstat :: "int \<Rightarrow> 'w \<Rightarrow> (errno + stat) \<times> 'w"
  s_fchmod :: "int \<Rightarrow> u32 \<Rightarrow> 'w \<Rightarrow> (errno + unit) \<times> 'w"
  s_read :: "int \<Rightarrow> nat \<Rightarrow> 'w \<Rightarrow> (errno + byte list) \<times> 'w"
  s_write :: "int \<Rightarrow> byte list \<Rightarrow> 'w \<Rightarrow> (errno + nat) \<times> 'w"
  s_pread :: "int \<Rightarrow> nat \<Rightarrow> int \<Rightarrow> 'w \<Rightarrow> (errno + byte list) \<times> 'w"
  s_pwrite :: "int \<Rightarrow> byte list \<Rightarrow> int \<Rightarrow> 'w \<Rightarrow> (errno + nat) \<times> 'w"
  s_rewind :: "int \<Rightarrow> 'w \<Rightarrow> (errno + unit) \<times> 'w"
  s_fsync :: "int \<Rightarrow> 'w \<Rightarrow> (errno + unit) \<times> 'w"
  s_rename :: "string \<Rightarrow> string \<Rightarrow> 'w \<Rightarrow> (errno + unit) \<times> 'w"
  s_umask :: "u32 \<Rightarrow> 'w \<Rightarrow> u32 \<times> 'w"
  s_fopen :: "string \<Rightarrow> string \<Rightarrow> 'w \<Rightarrow> (errno + int) \<times> 'w"
  s_fclose :: "int \<Rightarrow> 'w \<Rightarrow> (errno + unit) \<times> 'w"
  s_fileno :: "int \<Rightarrow> 'w \<Rightarrow> (errno + int) \<times> 'w"
  s_fread :: "int \<Rightarrow> nat \<Rightarrow> 'w \<Rightarrow> (byte list \<times> bool \<times> bool) \<times> 'w"
  s_fwrite :: "int \<Rightarrow> byte list \<Rightarrow> 'w \<Rightarrow> bool \<times> 'w"
  z_init :: "bool \<Rightarrow> u32 \<Rightarrow> 'w \<Rightarrow> (zret \<times> nat) \<times> 'w"
  z_step :: "nat \<Rightarrow> zflush \<Rightarrow> byte list \<Rightarrow> nat \<Rightarrow> 'w \<Rightarrow> (zret \<times> byte list \<times> byte list) \<times> 'w"
  z_end :: "nat \<Rightarrow> 'w \<Rightarrow> unit \<times> 'w"
  s_uid :: u32
  s_gid :: u32
  s_regcomp :: "string \<Rightarrow> bool"
  s_regexec :: "string \<Rightarrow> string \<Rightarrow> bool"
  s_getenv :: "string \<Rightarrow> string option"
  s_lines :: "string \<Rightarrow> string list option"
  loop_fuel :: nat

text \<open>
  libdroplet. A dictionary's contents have the type \<open>'d\<close>: \<open>dict_new\<close> is the empty one,
  \<open>dict_get\<close> is \<^verbatim>\<open>dpl_dict_get_value\<close> (and \<^verbatim>\<open>dpl_dict_get\<close>, which is NULL when it is),
  \<open>dict_update\<close> is \<^verbatim>\<open>dpl_dict_update_value\<close>, \<open>dict_add\<close> is \<^verbatim>\<open>dpl_dict_add\<close> and
  \<open>dict_copy dst src\<close> is \<^verbatim>\<open>dpl_dict_copy\<close>.
\<close>

record ('w, 'd) env = "'w sys_ops" +
  dict_new :: 'd
  dict_get :: "'d \<Rightarrow> string \<Rightarrow> string option"
  dict_update :: "'d \<Rightarrow> string \<Rightarrow> string \<Rightarrow> 'w \<Rightarrow> (dpl_status \<times> 'd) \<times> 'w"
  dict_add :: "'d \<Rightarrow> string \<Rightarrow> string \<Rightarrow> 'w \<Rightarrow> (dpl_status \<times> 'd) \<times> 'w"
  dict_copy :: "'d \<Rightarrow> 'd \<Rightarrow> 'w \<Rightarrow> (dpl_status \<times> 'd) \<times> 'w"
  status_code :: "dpl_status \<Rightarrow> int"
  dpl_cwd :: ino
  junk_ino :: ino
  dpl_namei :: "string \<Rightarrow> ino \<Rightarrow> 'w \<Rightarrow> (dpl_status \<times> dpl_ftype \<times> ino) \<times> 'w"
  dpl_getattr :: "string \<Rightarrow> 'w \<Rightarrow> (dpl_status \<times> 'd option) \<times> 'w"
  dpl_setattr :: "string \<Rightarrow> 'd \<Rightarrow> 'w \<Rightarrow> (dpl_status \<times> unit) \<times> 'w"
  dpl_mknod :: "string \<Rightarrow> 'w \<Rightarrow> (dpl_status \<times> unit) \<times> 'w"
  dpl_mkdir :: "string \<Rightarrow> 'w \<Rightarrow> (dpl_status \<times> unit) \<times> 'w"
  dpl_unlink :: "string \<Rightarrow> 'w \<Rightarrow> (dpl_status \<times> unit) \<times> 'w"
  dpl_rmdir :: "string \<Rightarrow> 'w \<Rightarrow> (dpl_status \<times> unit) \<times> 'w"
  dpl_fcopy :: "string \<Rightarrow> string \<Rightarrow> 'w \<Rightarrow> (dpl_status \<times> unit) \<times> 'w"
  dpl_chdir :: "string \<Rightarrow> 'w \<Rightarrow> (dpl_status \<times> unit) \<times> 'w"
  dpl_opendir :: "string \<Rightarrow> 'w \<Rightarrow> (dpl_status \<times> nat) \<times> 'w"
  dpl_readdir :: "nat \<Rightarrow> 'w \<Rightarrow> string option \<times> 'w"
  dpl_closedir :: "nat \<Rightarrow> 'w \<Rightarrow> unit \<times> 'w"
  dpl_head_all :: "string \<Rightarrow> 'w \<Rightarrow> (dpl_status \<times> 'd option) \<times> 'w"
  dpl_get_metadata_from_headers :: "'d \<Rightarrow> 'd \<Rightarrow> 'w \<Rightarrow> (dpl_status \<times> 'd) \<times> 'w"
  dpl_openread :: "string \<Rightarrow> bool \<Rightarrow> 'w \<Rightarrow> (byte list list \<times> (bool \<Rightarrow> dpl_status \<times> 'd option)) \<times> 'w"
  dpl_openwrite :: "string \<Rightarrow> bool \<Rightarrow> 'd \<Rightarrow> u64 \<Rightarrow> 'w \<Rightarrow> (dpl_status \<times> nat) \<times> 'w"
  dpl_write :: "nat \<Rightarrow> byte list \<Rightarrow> 'w \<Rightarrow> (dpl_status \<times> unit) \<times> 'w"
  dpl_close :: "nat \<Rightarrow> 'w \<Rightarrow> (dpl_status \<times> unit) \<times> 'w"

text \<open>
  \<open>dpl_openread\<close> takes whether the data is to be decrypted, and answers the buffers it hands to the
  callback, in order and until one call fails, and then, from whether none failed, the status and
  the metadata it stores. \<open>dpl_openwrite\<close> takes whether the data is to be encrypted and the size,
  and stores a handle when it succeeds.
\<close>

section \<open>The state of the program\<close>

text \<open>
  The hash table of path entries (glib's \<^verbatim>\<open>GHashTable\<close> with \<^verbatim>\<open>g_str_hash\<close>, which owns its
  values), the heap of path entries, the heap of dictionaries, the next fresh address, the
  configuration and the world.
\<close>

record ('w, 'd) state =
  hash :: "(string \<times> addr) list"
  pes :: "addr \<rightharpoonup> pentry"
  dicts :: "addr \<rightharpoonup> 'd"
  nxt :: addr
  cfg :: conf
  world :: 'w

text \<open>A call of the interface from a state; the rest of the function is the continuation.\<close>

definition call ::
  "('w \<Rightarrow> 'a \<times> 'w) \<Rightarrow> ('w, 'd) state \<Rightarrow> ('a \<Rightarrow> ('w, 'd) state \<Rightarrow> 'b) \<Rightarrow> 'b"
where
  "call f s k = (let (r, w) = f (world s) in k r (s\<lparr>world := w\<rparr>))"

lemma okay_call [okay_rule]:
  "(\<And>r w. f (world s) = (r, w) \<Longrightarrow> okay (k r (s\<lparr>world := w\<rparr>)) Q) \<Longrightarrow> okay (call f s k) Q"
  by (simp add: call_def split: prod.splits)

lemma okay_call_eq: "okay (call f s k) Q \<longleftrightarrow> call f s (\<lambda>r s. okay (k r s) Q)"
  by (simp add: call_def split: prod.splits)

lemma keeps_call: "(\<And>r w. keeps (k r (s\<lparr>world := w\<rparr>)) Q) \<Longrightarrow> keeps (call f s k) Q"
  by (simp add: call_def split: prod.splits)

lemma call_cong [fundef_cong]:
  "f = g \<Longrightarrow> s = t \<Longrightarrow> (\<And>r w. g (world t) = (r, w) \<Longrightarrow> k r (t\<lparr>world := w\<rparr>) = l r (t\<lparr>world := w\<rparr>)) \<Longrightarrow>
    call f s k = call g t l"
  by (simp add: call_def split: prod.splits)

section \<open>Tracing\<close>

text \<open>
  The macro \<^verbatim>\<open>LOG\<close> of \<^verbatim>\<open>src/log.h\<close>: it reads the level of the configuration, and above it nothing is
  evaluated; otherwise the arguments are, which is where it can fail. \<^verbatim>\<open>syslog\<close> keeps the line. The models write
  out the traces whose arguments dereference a pointer or call a function.
\<close>

definition LOG_ERR :: int where "LOG_ERR = 3"

definition LOG_DEBUG :: int where "LOG_DEBUG = 7"

definition LOG :: "int \<Rightarrow> ('w, 'd) state \<Rightarrow> unit outcome \<Rightarrow> unit outcome" where
  "LOG priority s args = (if sint (log_level (cfg s)) < priority then Ret () else args)"

definition log_debug :: "('w, 'd) state \<Rightarrow> bool" where
  "log_debug s \<longleftrightarrow> LOG_DEBUG \<le> sint (log_level (cfg s))"

lemma LOG_debug [simp]: "LOG LOG_DEBUG s args = (if log_debug s then args else Ret ())"
  by (simp add: LOG_def log_debug_def)

end
