(* ===== verification/Pentry.thy ===== *)
theory Pentry
  imports World
begin

text \<open>
  \<^verbatim>\<open>src/hash.c\<close> and the hash table it fills: allocation, release and the accessors of path
  entries, their metadata dictionaries, locks and reference counts. A pointer is an address of the
  state's heap; using one that is not allocated is \<open>UseAfterFree\<close>.
\<close>

section \<open>The heap of entries\<close>

text \<open>Every accessor starts with \<^verbatim>\<open>assert(pe)\<close> and reads or writes one field.\<close>

definition pe_at :: "addr \<Rightarrow> ('w, 'd) state \<Rightarrow> pentry outcome" where
  "pe_at a s =
     (if a = NULL then Stuck AssertFail
      else case pes s a of None \<Rightarrow> Stuck UseAfterFree | Some p \<Rightarrow> Ret p)"

definition pe_upd ::
  "addr \<Rightarrow> (pentry \<Rightarrow> pentry) \<Rightarrow> ('w, 'd) state \<Rightarrow> ('w, 'd) state outcome"
where
  "pe_upd a f s = obind (pe_at a s) (\<lambda>p. Ret (s\<lparr>pes := (pes s)(a \<mapsto> f p)\<rparr>))"

section \<open>The heap of dictionaries\<close>

definition dict_at :: "addr \<Rightarrow> ('w, 'd) state \<Rightarrow> 'd outcome" where
  "dict_at a s =
     (if a = NULL then Stuck NullDeref
      else case dicts s a of None \<Rightarrow> Stuck UseAfterFree | Some d \<Rightarrow> Ret d)"

definition dict_set :: "addr \<Rightarrow> 'd \<Rightarrow> ('w, 'd) state \<Rightarrow> ('w, 'd) state outcome" where
  "dict_set a d s = obind (dict_at a s) (\<lambda>_. Ret (s\<lparr>dicts := (dicts s)(a \<mapsto> d)\<rparr>))"

definition dict_store :: "'d \<Rightarrow> ('w, 'd) state \<Rightarrow> addr \<times> ('w, 'd) state" where
  "dict_store d s = (nxt s, s\<lparr>dicts := (dicts s)(nxt s \<mapsto> d), nxt := Suc (nxt s)\<rparr>)"

text \<open>\<^verbatim>\<open>dpl_dict_new(13)\<close>: NULL when the allocation fails.\<close>

definition dpl_dict_new ::
  "('w, 'd) env \<Rightarrow> ('w, 'd) state \<Rightarrow> (addr \<Rightarrow> ('w, 'd) state \<Rightarrow> 'b) \<Rightarrow> 'b"
where
  "dpl_dict_new E s k =
     call (malloc_ok E) s (\<lambda>ok s.
     if \<not> ok then k NULL s else case dict_store (dict_new E) s of (a, s) \<Rightarrow> k a s)"

definition dpl_dict_free :: "addr \<Rightarrow> ('w, 'd) state \<Rightarrow> ('w, 'd) state outcome" where
  "dpl_dict_free a s =
     (if a = NULL then Stuck NullDeref
      else case dicts s a of None \<Rightarrow> Stuck BadFree
           | Some d \<Rightarrow> Ret (s\<lparr>dicts := (dicts s)(a := None)\<rparr>))"

text \<open>The idiom \<^verbatim>\<open>if (metadata) dpl_dict_free(metadata)\<close>.\<close>

definition dict_free_opt :: "addr \<Rightarrow> ('w, 'd) state \<Rightarrow> ('w, 'd) state outcome" where
  "dict_free_opt a s = (if a \<noteq> NULL then dpl_dict_free a s else Ret s)"

text \<open>A dictionary that libdroplet hands out through a \<^verbatim>\<open>dpl_dict_t **\<close>.\<close>

definition dict_receive :: "'d option \<Rightarrow> ('w, 'd) state \<Rightarrow> addr \<times> ('w, 'd) state" where
  "dict_receive m s = (case m of None \<Rightarrow> (NULL, s) | Some d \<Rightarrow> dict_store d s)"

section \<open>Allocation and release\<close>

text \<open>The five calls that initialise the semaphore and the two mutexes; the first to fail ends them.\<close>

fun pentry_inits :: "nat \<Rightarrow> ('w, 'd) env \<Rightarrow> ('w, 'd) state \<Rightarrow> bool \<times> ('w, 'd) state" where
  "pentry_inits 0 E s = (True, s)"
| "pentry_inits (Suc n) E s =
     call (init_rc E) s (\<lambda>rc s. if rc \<noteq> 0 then (False, s) else pentry_inits n E s)"

text \<open>
  \<^verbatim>\<open>pentry_new\<close>. Fields it does not set keep what the memory held. When an initialisation
  fails it calls \<^verbatim>\<open>pentry_free\<close>, which reads \<^verbatim>\<open>fd\<close>, \<^verbatim>\<open>metadata\<close>, \<^verbatim>\<open>path\<close> and
  \<^verbatim>\<open>dirent\<close> of memory that was never written.
\<close>

definition pentry_new :: "('w, 'd) env \<Rightarrow> ('w, 'd) state \<Rightarrow> (addr \<times> ('w, 'd) state) outcome" where
  "pentry_new E s =
     call (malloc_ok E) s (\<lambda>ok s.
     if \<not> ok then Ret (NULL, s)
     else case pentry_inits 5 E s of (ok, s) \<Rightarrow>
       if \<not> ok then Stuck UninitUse
       else let pe = (junk E (world s))
              \<lparr>refcount := 0, mutex := False, md_mutex := False,
               metadata := NULL, ondisk := FILE_UNSET, fd := -1, dirent := [], path := None,
               exclude := False, flag := FLAG_DIRTY\<rparr>
            in Ret (nxt s, s\<lparr>pes := (pes s)(nxt s \<mapsto> pe), nxt := Suc (nxt s)\<rparr>))"

definition pentry_free ::
  "('w, 'd) env \<Rightarrow> addr \<Rightarrow> ('w, 'd) state \<Rightarrow> ('w, 'd) state outcome"
where
  "pentry_free E a s =
     obind (pe_at a s) (\<lambda>pe.
     obind (if fd pe \<noteq> -1 then call (s_close E (fd pe)) s (\<lambda>_ s. Ret s) else Ret s) (\<lambda>s.
     obind (if metadata pe \<noteq> NULL then dpl_dict_free (metadata pe) s else Ret s) (\<lambda>s.
     Ret (s\<lparr>pes := (pes s)(a := None)\<rparr>))))"

section \<open>Accessors\<close>

definition pentry_set_atime ::
  "('w, 'd) env \<Rightarrow> addr \<Rightarrow> ('w, 'd) state \<Rightarrow> ('w, 'd) state outcome"
where
  "pentry_set_atime E a s =
     obind (pe_at a s) (\<lambda>_.
     call (s_time E) s (\<lambda>t s. pe_upd a (\<lambda>p. p\<lparr>atime := t\<rparr>) s))"

definition pentry_get_atime :: "addr \<Rightarrow> ('w, 'd) state \<Rightarrow> int outcome" where
  "pentry_get_atime a s = obind (pe_at a s) (\<lambda>p. Ret (atime p))"

primrec pentry_placeholder_to_str :: "placeholder \<Rightarrow> string" where
  "pentry_placeholder_to_str FILE_LOCAL = ''local''"
| "pentry_placeholder_to_str FILE_REMOTE = ''remote''"
| "pentry_placeholder_to_str FILE_UNSET = ''unset''"

definition pentry_set_placeholder ::
  "addr \<Rightarrow> placeholder \<Rightarrow> ('w, 'd) state \<Rightarrow> ('w, 'd) state outcome"
where
  "pentry_set_placeholder a v s = pe_upd a (\<lambda>p. p\<lparr>ondisk := v\<rparr>) s"

definition pentry_get_placeholder :: "addr \<Rightarrow> ('w, 'd) state \<Rightarrow> placeholder outcome" where
  "pentry_get_placeholder a s = obind (pe_at a s) (\<lambda>p. Ret (ondisk p))"

text \<open>The list operations of these two are verified against \<open>remove1\<close> and \<open>#\<close> in \<open>Dirents\<close>.\<close>

definition pentry_remove_dirent ::
  "addr \<Rightarrow> string \<Rightarrow> ('w, 'd) state \<Rightarrow> (int \<times> ('w, 'd) state) outcome"
where
  "pentry_remove_dirent a name s =
     obind (pe_at a s) (\<lambda>pe.
     if filetype pe \<noteq> FILE_DIR then Ret (-1, s)
     else obind (pe_upd a (\<lambda>p. p\<lparr>dirent := remove1 name (dirent p)\<rparr>) s) (\<lambda>s. Ret (0, s)))"

definition pentry_add_dirent ::
  "('w, 'd) env \<Rightarrow> addr \<Rightarrow> string \<Rightarrow> ('w, 'd) state \<Rightarrow> ('w, 'd) state outcome"
where
  "pentry_add_dirent E a name s =
     obind (pe_at a s) (\<lambda>_.
     call (malloc_ok E) s (\<lambda>ok1 s.
     if \<not> ok1 then Ret s
     else call (malloc_ok E) s (\<lambda>ok2 s.
       pe_upd a (\<lambda>p. p\<lparr>dirent := (if ok2 then name # dirent p else dirent p)\<rparr>) s)))"

definition pentry_get_dirents :: "addr \<Rightarrow> ('w, 'd) state \<Rightarrow> string list outcome" where
  "pentry_get_dirents a s = obind (pe_at a s) (\<lambda>p. Ret (dirent p))"

definition pentry_unlink_cache_file ::
  "('w, 'd) env \<Rightarrow> addr \<Rightarrow> ('w, 'd) state \<Rightarrow> ('w, 'd) state outcome"
where
  "pentry_unlink_cache_file E a s =
     obind (pe_at a s) (\<lambda>pe.
     case path pe of None \<Rightarrow> Ret s
     | Some p \<Rightarrow>
         let local = tmpstr_fit (cstr_print (cache_dir (cfg s)) @ ''/'' @ p)
         in call (s_unlink E local) s (\<lambda>_ s. Ret s))"

definition pentry_inc_refcount :: "addr \<Rightarrow> ('w, 'd) state \<Rightarrow> ('w, 'd) state outcome" where
  "pentry_inc_refcount a s = pe_upd a (\<lambda>p. p\<lparr>refcount := Suc (refcount p)\<rparr>) s"

text \<open>\<^verbatim>\<open>sem_wait\<close> waits while the count is 0.\<close>

definition pentry_dec_refcount :: "addr \<Rightarrow> ('w, 'd) state \<Rightarrow> ('w, 'd) state outcome" where
  "pentry_dec_refcount a s =
     obind (pe_at a s) (\<lambda>pe.
     if refcount pe = 0 then Stuck Blocked
     else pe_upd a (\<lambda>p. p\<lparr>refcount := refcount p - 1\<rparr>) s)"

definition pentry_get_refcount :: "addr \<Rightarrow> ('w, 'd) state \<Rightarrow> nat outcome" where
  "pentry_get_refcount a s = obind (pe_at a s) (\<lambda>p. Ret (refcount p))"

definition pentry_get_path :: "addr \<Rightarrow> ('w, 'd) state \<Rightarrow> string option outcome" where
  "pentry_get_path a s = obind (pe_at a s) (\<lambda>p. Ret (path p))"

definition pentry_set_path ::
  "('w, 'd) env \<Rightarrow> addr \<Rightarrow> string \<Rightarrow> ('w, 'd) state \<Rightarrow> ('w, 'd) state outcome"
where
  "pentry_set_path E a name s =
     obind (pe_at a s) (\<lambda>_.
     call (malloc_ok E) s (\<lambda>ok s.
     pe_upd a (\<lambda>p. p\<lparr>path := (if ok then Some name else None)\<rparr>) s))"

definition pentry_set_exclude :: "addr \<Rightarrow> bool \<Rightarrow> ('w, 'd) state \<Rightarrow> ('w, 'd) state outcome" where
  "pentry_set_exclude a v s = pe_upd a (\<lambda>p. p\<lparr>exclude := v\<rparr>) s"

definition pentry_get_exclude :: "addr \<Rightarrow> ('w, 'd) state \<Rightarrow> bool outcome" where
  "pentry_get_exclude a s = obind (pe_at a s) (\<lambda>p. Ret (exclude p))"

definition pentry_get_filetype :: "addr \<Rightarrow> ('w, 'd) state \<Rightarrow> filetype outcome" where
  "pentry_get_filetype a s = obind (pe_at a s) (\<lambda>p. Ret (filetype p))"

definition pentry_set_filetype :: "addr \<Rightarrow> filetype \<Rightarrow> ('w, 'd) state \<Rightarrow> ('w, 'd) state outcome" where
  "pentry_set_filetype a v s = pe_upd a (\<lambda>p. p\<lparr>filetype := v\<rparr>) s"

definition pentry_set_fd :: "addr \<Rightarrow> int \<Rightarrow> ('w, 'd) state \<Rightarrow> ('w, 'd) state outcome" where
  "pentry_set_fd a v s = pe_upd a (\<lambda>p. p\<lparr>fd := v\<rparr>) s"

definition pentry_get_fd :: "addr \<Rightarrow> ('w, 'd) state \<Rightarrow> int outcome" where
  "pentry_get_fd a s = obind (pe_at a s) (\<lambda>p. Ret (fd p))"

definition pentry_get_flag :: "addr \<Rightarrow> ('w, 'd) state \<Rightarrow> flag outcome" where
  "pentry_get_flag a s = obind (pe_at a s) (\<lambda>p. Ret (flag p))"

definition pentry_set_flag :: "addr \<Rightarrow> flag \<Rightarrow> ('w, 'd) state \<Rightarrow> ('w, 'd) state outcome" where
  "pentry_set_flag a v s = pe_upd a (\<lambda>p. p\<lparr>flag := v\<rparr>) s"

text \<open>
  \<^verbatim>\<open>pentry_set_metadata\<close>: the old dictionary is freed before the new one is copied from the
  argument, so an argument that is the old dictionary is read after it was freed.
\<close>

definition pentry_set_metadata ::
  "('w, 'd) env \<Rightarrow> addr \<Rightarrow> addr \<Rightarrow> ('w, 'd) state \<Rightarrow> (int \<times> ('w, 'd) state) outcome"
where
  "pentry_set_metadata E a dict s =
     obind (pe_at a s) (\<lambda>pe.
     obind (if metadata pe \<noteq> NULL then dpl_dict_free (metadata pe) s else Ret s) (\<lambda>s.
     dpl_dict_new E s (\<lambda>new s.
     obind (pe_upd a (\<lambda>p. p\<lparr>metadata := new\<rparr>) s) (\<lambda>s.
     if new = NULL then Ret (-1, s)
     else obind (dict_at dict s) (\<lambda>src.
          obind (dict_at new s) (\<lambda>dst.
          call (dict_copy E dst src) s (\<lambda>(rc, d) s.
          obind (dict_set new d s) (\<lambda>s.
          Ret (if rc = DPL_FAILURE then -1 else 0, s)))))))))"

definition pentry_get_metadata :: "addr \<Rightarrow> ('w, 'd) state \<Rightarrow> addr outcome" where
  "pentry_get_metadata a s = obind (pe_at a s) (\<lambda>p. Ret (metadata p))"

definition MD5_DIGEST_LENGTH :: nat where "MD5_DIGEST_LENGTH = 16"

text \<open>\<^verbatim>\<open>memcpy\<close> of 16 bytes: reading past the end of a shorter string is out of bounds (the
  terminating NUL may be read).\<close>

definition pentry_set_digest ::
  "addr \<Rightarrow> string option \<Rightarrow> ('w, 'd) state \<Rightarrow> (int \<times> ('w, 'd) state) outcome"
where
  "pentry_set_digest a d s =
     obind (pe_at a s) (\<lambda>_.
     case d of None \<Rightarrow> Ret (-1, s)
     | Some d \<Rightarrow>
         if Suc (length d) < MD5_DIGEST_LENGTH then Stuck OutOfBounds
         else obind (pe_upd a (\<lambda>p. p\<lparr>digest := take MD5_DIGEST_LENGTH (d @ [CHR 0x00])\<rparr>) s) (\<lambda>s.
              Ret (0, s)))"

definition pentry_get_digest :: "addr \<Rightarrow> ('w, 'd) state \<Rightarrow> string outcome" where
  "pentry_get_digest a s = obind (pe_at a s) (\<lambda>p. Ret (digest p))"

primrec pentry_type_to_str :: "filetype \<Rightarrow> string" where
  "pentry_type_to_str FILE_REG = ''regular file''"
| "pentry_type_to_str FILE_DIR = ''directory''"
| "pentry_type_to_str FILE_SYMLINK = ''symlink''"

section \<open>Locks\<close>

text \<open>The two mutexes of an entry, and the three operations on either.\<close>

datatype lock = MUTEX | MD_MUTEX

primrec held :: "lock \<Rightarrow> pentry \<Rightarrow> bool" where
  "held MUTEX p = mutex p"
| "held MD_MUTEX p = md_mutex p"

primrec set_held :: "lock \<Rightarrow> bool \<Rightarrow> pentry \<Rightarrow> pentry" where
  "set_held MUTEX b p = p\<lparr>mutex := b\<rparr>"
| "set_held MD_MUTEX b p = p\<lparr>md_mutex := b\<rparr>"

definition pentry_gen_trylock ::
  "('w, 'd) env \<Rightarrow> lock \<Rightarrow> addr \<Rightarrow> ('w, 'd) state \<Rightarrow> (int \<times> ('w, 'd) state) outcome"
where
  "pentry_gen_trylock E l a s =
     obind (pe_at a s) (\<lambda>pe.
     call (pthread_rc E) s (\<lambda>rc s.
     if rc \<noteq> 0 then Ret (rc, s)
     else if held l pe then Ret (EBUSY, s)
     else obind (pe_upd a (set_held l True) s) (\<lambda>s. Ret (0, s))))"

definition pentry_gen_lock ::
  "('w, 'd) env \<Rightarrow> lock \<Rightarrow> addr \<Rightarrow> ('w, 'd) state \<Rightarrow> (int \<times> ('w, 'd) state) outcome"
where
  "pentry_gen_lock E l a s =
     obind (pe_at a s) (\<lambda>pe.
     call (pthread_rc E) s (\<lambda>rc s.
     if rc \<noteq> 0 then Ret (rc, s)
     else if held l pe then Stuck Blocked
     else obind (pe_upd a (set_held l True) s) (\<lambda>s. Ret (0, s))))"

definition pentry_gen_unlock ::
  "('w, 'd) env \<Rightarrow> lock \<Rightarrow> addr \<Rightarrow> ('w, 'd) state \<Rightarrow> (int \<times> ('w, 'd) state) outcome"
where
  "pentry_gen_unlock E l a s =
     obind (pe_at a s) (\<lambda>pe.
     call (pthread_rc E) s (\<lambda>rc s.
     if rc \<noteq> 0 then Ret (rc, s)
     else obind (pe_upd a (set_held l False) s) (\<lambda>s. Ret (0, s))))"

definition pentry_trylock ::
  "('w, 'd) env \<Rightarrow> addr \<Rightarrow> ('w, 'd) state \<Rightarrow> (int \<times> ('w, 'd) state) outcome"
where
  "pentry_trylock E a s = pentry_gen_trylock E MUTEX a s"

definition pentry_lock ::
  "('w, 'd) env \<Rightarrow> addr \<Rightarrow> ('w, 'd) state \<Rightarrow> (int \<times> ('w, 'd) state) outcome"
where
  "pentry_lock E a s = pentry_gen_lock E MUTEX a s"

definition pentry_unlock ::
  "('w, 'd) env \<Rightarrow> addr \<Rightarrow> ('w, 'd) state \<Rightarrow> (int \<times> ('w, 'd) state) outcome"
where
  "pentry_unlock E a s = pentry_gen_unlock E MUTEX a s"

definition pentry_md_trylock ::
  "('w, 'd) env \<Rightarrow> addr \<Rightarrow> ('w, 'd) state \<Rightarrow> (int \<times> ('w, 'd) state) outcome"
where
  "pentry_md_trylock E a s = pentry_gen_trylock E MD_MUTEX a s"

definition pentry_md_lock ::
  "('w, 'd) env \<Rightarrow> addr \<Rightarrow> ('w, 'd) state \<Rightarrow> (int \<times> ('w, 'd) state) outcome"
where
  "pentry_md_lock E a s = pentry_gen_lock E MD_MUTEX a s"

definition pentry_md_unlock ::
  "('w, 'd) env \<Rightarrow> addr \<Rightarrow> ('w, 'd) state \<Rightarrow> (int \<times> ('w, 'd) state) outcome"
where
  "pentry_md_unlock E a s = pentry_gen_unlock E MD_MUTEX a s"

section \<open>The hash table\<close>

text \<open>
  The operations of \<^verbatim>\<open>GHashTable\<close> that the program uses, for a table whose keys are compared as
  strings and whose values are released by \<^verbatim>\<open>pentry_free\<close> (the table \<^verbatim>\<open>dfs_fuse_main\<close>
  creates): a finite map that frees the value it replaces or removes.
\<close>

definition g_hash_table_lookup :: "string \<Rightarrow> ('w, 'd) state \<Rightarrow> addr" where
  "g_hash_table_lookup k s = (case map_of (hash s) k of None \<Rightarrow> NULL | Some a \<Rightarrow> a)"

definition g_hash_table_insert ::
  "('w, 'd) env \<Rightarrow> string \<Rightarrow> addr \<Rightarrow> ('w, 'd) state \<Rightarrow> ('w, 'd) state outcome"
where
  "g_hash_table_insert E k a s =
     obind (case map_of (hash s) k of None \<Rightarrow> Ret s | Some b \<Rightarrow> pentry_free E b s) (\<lambda>s.
     Ret (s\<lparr>hash := AList.update k a (hash s)\<rparr>))"

definition g_hash_table_remove ::
  "('w, 'd) env \<Rightarrow> string \<Rightarrow> ('w, 'd) state \<Rightarrow> (bool \<times> ('w, 'd) state) outcome"
where
  "g_hash_table_remove E k s =
     (case map_of (hash s) k of
        None \<Rightarrow> Ret (False, s)
      | Some a \<Rightarrow>
          obind (pentry_free E a (s\<lparr>hash := AList.delete k (hash s)\<rparr>)) (\<lambda>s. Ret (True, s)))"

text \<open>\<^verbatim>\<open>g_hash_table_foreach\<close> over the keys and values present when it starts.\<close>

fun g_hash_table_foreach ::
  "(string \<Rightarrow> addr \<Rightarrow> ('w, 'd) state \<Rightarrow> ('w, 'd) state outcome) \<Rightarrow> (string \<times> addr) list
    \<Rightarrow> ('w, 'd) state \<Rightarrow> ('w, 'd) state outcome"
where
  "g_hash_table_foreach f [] s = Ret s"
| "g_hash_table_foreach f ((k, a) # xs) s = obind (f k a s) (g_hash_table_foreach f xs)"

text \<open>\<^verbatim>\<open>g_hash_table_remove_all\<close>\<close>

fun free_values :: "('w, 'd) env \<Rightarrow> (string \<times> addr) list \<Rightarrow> ('w, 'd) state \<Rightarrow> ('w, 'd) state outcome" where
  "free_values E [] s = Ret s"
| "free_values E ((k, a) # xs) s = obind (pentry_free E a s) (free_values E xs)"

definition g_hash_table_remove_all ::
  "('w, 'd) env \<Rightarrow> ('w, 'd) state \<Rightarrow> ('w, 'd) state outcome"
where
  "g_hash_table_remove_all E s = free_values E (hash s) (s\<lparr>hash := []\<rparr>)"

end
