(* ===== verification/Abstraction.thy ===== *)
theory Abstraction
  imports Pentry
begin

text \<open>
  The invariant of the program's heap and its abstraction. \<open>heap_inv\<close> says that the hash table, the
  entries and their dictionaries are what the code takes them to be: no dangling pointer, no entry
  under two keys, no dictionary with two owners. \<open>view\<close> forgets everything but the table, which
  entries exist, which dictionaries nobody owns, the paths, the reference counts, the locks and the
  configuration; each operation
  of \<^verbatim>\<open>hash.c\<close> is proved to keep \<open>heap_inv\<close> and to act on the view as a simple function.
\<close>

section \<open>The invariant\<close>

text \<open>The metadata pointer and the path of an entry, as functions of its address.\<close>

definition md_of :: "('w, 'd) state \<Rightarrow> addr \<Rightarrow> addr" where
  "md_of s a = (case pes s a of None \<Rightarrow> NULL | Some p \<Rightarrow> metadata p)"

definition path_of :: "('w, 'd) state \<Rightarrow> addr \<Rightarrow> string option" where
  "path_of s a = (case pes s a of None \<Rightarrow> None | Some p \<Rightarrow> path p)"

definition owned :: "('w, 'd) state \<Rightarrow> addr \<Rightarrow> bool" where
  "owned s d \<longleftrightarrow> d \<noteq> NULL \<and> (\<exists>a. md_of s a = d)"

definition table_ok :: "('w, 'd) state \<Rightarrow> bool" where
  "table_ok s \<longleftrightarrow> distinct (map fst (hash s)) \<and> distinct (map snd (hash s)) \<and>
     (\<forall>(k, a) \<in> set (hash s). a \<in> dom (pes s) \<and> path_of s a \<in> {None, Some k})"

definition heap_ok :: "('w, 'd) state \<Rightarrow> bool" where
  "heap_ok s \<longleftrightarrow> NULL < nxt s \<and> dom (pes s) \<subseteq> {NULL<..<nxt s} \<and> dom (dicts s) \<subseteq> {NULL<..<nxt s}"

definition metadata_ok :: "('w, 'd) state \<Rightarrow> bool" where
  "metadata_ok s \<longleftrightarrow> (\<forall>a. md_of s a \<noteq> NULL \<longrightarrow> md_of s a \<in> dom (dicts s)) \<and>
     (\<forall>a b. md_of s a = md_of s b \<longrightarrow> md_of s a \<noteq> NULL \<longrightarrow> a = b)"

definition heap_inv :: "('w, 'd) state \<Rightarrow> bool" where
  "heap_inv s \<longleftrightarrow> table_ok s \<and> heap_ok s \<and> metadata_ok s"

section \<open>The view\<close>

record view =
  v_tbl :: "string \<rightharpoonup> addr"
  v_ent :: "addr set"
  v_path :: "addr \<Rightarrow> string option"
  v_loose :: "addr set"
  v_ref :: "addr \<Rightarrow> nat"
  v_lock :: "addr \<Rightarrow> bool"
  v_cfg :: conf

definition view :: "('w, 'd) state \<Rightarrow> view" where
  "view s =
     \<lparr>v_tbl = map_of (hash s),
      v_ent = dom (pes s),
      v_path = path_of s,
      v_loose = dom (dicts s) - Collect (owned s),
      v_ref = (\<lambda>a. case pes s a of None \<Rightarrow> 0 | Some p \<Rightarrow> refcount p),
      v_lock = (\<lambda>a. case pes s a of None \<Rightarrow> False | Some p \<Rightarrow> mutex p),
      v_cfg = cfg s\<rparr>"

lemma view_simps:
  "v_tbl (view s) = map_of (hash s)"
  "v_ent (view s) = dom (pes s)"
  "v_path (view s) = path_of s"
  "v_loose (view s) = dom (dicts s) - Collect (owned s)"
  "v_ref (view s) = (\<lambda>a. case pes s a of None \<Rightarrow> 0 | Some p \<Rightarrow> refcount p)"
  "v_cfg (view s) = cfg s"
  "v_lock (view s) = (\<lambda>a. case pes s a of None \<Rightarrow> False | Some p \<Rightarrow> mutex p)"
  by (simp_all add: view_def)

text \<open>What the invariant and the view depend on.\<close>

lemma heap_inv_cong:
  assumes "hash t = hash s" "dom (pes t) = dom (pes s)" "md_of t = md_of s" "path_of t = path_of s"
    "dom (dicts t) = dom (dicts s)" "nxt t = nxt s"
  shows "heap_inv t = heap_inv s"
  using assms by (simp add: heap_inv_def table_ok_def heap_ok_def metadata_ok_def)

lemma owned_cong: "md_of t = md_of s \<Longrightarrow> owned t = owned s"
  by (simp add: owned_def fun_eq_iff)

lemma fields_world [simp]:
  "md_of (s\<lparr>world := w\<rparr>) = md_of s" "path_of (s\<lparr>world := w\<rparr>) = path_of s"
  "owned (s\<lparr>world := w\<rparr>) = owned s"
  by (simp_all add: fun_eq_iff md_of_def path_of_def owned_def)

lemma heap_inv_world [simp]: "heap_inv (s\<lparr>world := w\<rparr>) = heap_inv s"
  by (rule heap_inv_cong) simp_all

lemma view_world [simp]: "view (s\<lparr>world := w\<rparr>) = view s"
  by (simp add: view_def)

lemma pe_at_world [simp]: "pe_at a (s\<lparr>world := w\<rparr>) = pe_at a s"
  by (simp add: pe_at_def)

lemma heap_inv_not_null: "heap_inv s \<Longrightarrow> a \<in> v_ent (view s) \<Longrightarrow> a \<noteq> NULL"
  by (auto simp: heap_inv_def heap_ok_def view_simps)

lemma heap_inv_tbl_ent: "heap_inv s \<Longrightarrow> v_tbl (view s) k = Some a \<Longrightarrow> a \<in> v_ent (view s)"
  unfolding heap_inv_def table_ok_def view_simps by (blast dest: map_of_SomeD)

lemma heap_inv_tbl_inj:
  assumes "heap_inv s" "v_tbl (view s) k = Some a" "v_tbl (view s) l = Some a" shows "k = l"
proof -
  from assms(2,3) have "(k, a) \<in> set (hash s)" "(l, a) \<in> set (hash s)"
    by (simp_all add: view_simps map_of_SomeD)
  moreover have "inj_on snd (set (hash s))"
    using assms(1) by (simp add: heap_inv_def table_ok_def distinct_map)
  ultimately show ?thesis by (metis inj_onD prod.inject snd_conv)
qed

lemma loose_dict: "d \<in> v_loose (view s) \<Longrightarrow> \<exists>c. dicts s d = Some c"
  by (auto simp: view_simps)

lemma loose_not_null: "heap_inv s \<Longrightarrow> d \<in> v_loose (view s) \<Longrightarrow> d \<noteq> NULL"
  by (auto simp: view_simps heap_inv_def heap_ok_def)

section \<open>Rules for the accessors\<close>

lemma pe_at_Ret:
  "heap_inv s \<Longrightarrow> a \<in> v_ent (view s) \<Longrightarrow> \<exists>p. pe_at a s = Ret p \<and> pes s a = Some p"
  using heap_inv_not_null [of s a] by (auto simp: pe_at_def view_simps)

lemma okay_pe_at [okay_rule]:
  "heap_inv s \<Longrightarrow> a \<in> v_ent (view s) \<Longrightarrow> (\<And>p. pes s a = Some p \<Longrightarrow> Q p) \<Longrightarrow> okay (pe_at a s) Q"
  using pe_at_Ret by fastforce

text \<open>An update that leaves the path and the metadata pointer alone.\<close>

lemma fields_pe_upd:
  assumes "pes s a = Some p"
  shows "metadata q = metadata p \<Longrightarrow> md_of (s\<lparr>pes := (pes s)(a \<mapsto> q)\<rparr>) = md_of s"
    and "path q = path p \<Longrightarrow> path_of (s\<lparr>pes := (pes s)(a \<mapsto> q)\<rparr>) = path_of s"
  using assms by (auto simp: md_of_def path_of_def fun_eq_iff)

lemma pe_upd_heap_inv:
  assumes "heap_inv s" "pes s a = Some p" "path q = path p" "metadata q = metadata p"
  shows "heap_inv (s\<lparr>pes := (pes s)(a \<mapsto> q)\<rparr>)"
  using assms by (subst heap_inv_cong [of _ s]) (auto simp: fields_pe_upd)

lemma pe_upd_view:
  assumes "pes s a = Some p" "path q = path p" "metadata q = metadata p"
  shows "view (s\<lparr>pes := (pes s)(a \<mapsto> q)\<rparr>) =
    (view s)\<lparr>v_ref := (v_ref (view s))(a := refcount q), v_lock := (v_lock (view s))(a := mutex q)\<rparr>"
proof -
  have "owned (s\<lparr>pes := (pes s)(a \<mapsto> q)\<rparr>) = owned s"
    using assms(1,3) by (intro owned_cong fields_pe_upd)
  moreover have "path_of (s\<lparr>pes := (pes s)(a \<mapsto> q)\<rparr>) = path_of s"
    using assms(1,2) by (rule fields_pe_upd)
  ultimately show ?thesis using assms(1) by (auto simp: view_def fun_eq_iff)
qed

lemma view_update_id:
  "pes s a = Some p \<Longrightarrow> (view s)\<lparr>v_ref := (v_ref (view s))(a := refcount p),
    v_lock := (v_lock (view s))(a := mutex p)\<rparr> = view s"
  by (simp add: view_def fun_upd_idem)

lemma okay_pe_upd:
  assumes "heap_inv s" "a \<in> v_ent (view s)" "\<And>p. path (f p) = path p \<and> metadata (f p) = metadata p"
    and "\<And>p s'. pes s a = Some p \<Longrightarrow> heap_inv s' \<Longrightarrow> pes s' = (pes s)(a \<mapsto> f p) \<Longrightarrow>
      view s' = (view s)\<lparr>v_ref := (v_ref (view s))(a := refcount (f p)),
                         v_lock := (v_lock (view s))(a := mutex (f p))\<rparr> \<Longrightarrow> Q s'"
  shows "okay (pe_upd a f s) Q"
proof -
  obtain p where p: "pe_at a s = Ret p" "pes s a = Some p"
    using pe_at_Ret [OF assms(1,2)] by blast
  have f: "path (f p) = path p" "metadata (f p) = metadata p"
    using assms(3) by simp_all
  have "Q (s\<lparr>pes := (pes s)(a \<mapsto> f p)\<rparr>)"
    by (rule assms(4) [OF p(2) pe_upd_heap_inv [OF assms(1) p(2) f] _ pe_upd_view [OF p(2) f]]) simp
  then show ?thesis by (simp add: pe_upd_def p(1))
qed

lemma okay_pe_upd_quiet:
  assumes "heap_inv s" "a \<in> v_ent (view s)"
    and "\<And>p. path (f p) = path p \<and> metadata (f p) = metadata p \<and> refcount (f p) = refcount p \<and>
      mutex (f p) = mutex p"
    and "\<And>s'. heap_inv s' \<Longrightarrow> view s' = view s \<Longrightarrow> Q s'"
  shows "okay (pe_upd a f s) Q"
  using assms by (intro okay_pe_upd) (auto simp: view_update_id)

end
