(* ===== verification/Heap_Rules.thy ===== *)
theory Heap_Rules
  imports Abstraction
begin

text \<open>
  One rule for each operation of \<^verbatim>\<open>hash.c\<close>: from a state that satisfies \<open>heap_inv\<close> it has no
  undefined behaviour, keeps \<open>heap_inv\<close> and acts on the view as a function of the view. The handlers
  are verified against these rules only.
\<close>

section \<open>The operations on views\<close>

definition v_new :: "addr \<Rightarrow> view \<Rightarrow> view" where
  "v_new a v = v\<lparr>v_ent := insert a (v_ent v)\<rparr>"

definition v_free :: "addr \<Rightarrow> view \<Rightarrow> view" where
  "v_free a v = v\<lparr>v_ent := v_ent v - {a}, v_path := (v_path v)(a := None),
                 v_ref := (v_ref v)(a := 0), v_lock := (v_lock v)(a := False)\<rparr>"

definition v_put :: "string \<Rightarrow> addr \<Rightarrow> view \<Rightarrow> view" where
  "v_put k a v = v\<lparr>v_tbl := (v_tbl v)(k \<mapsto> a)\<rparr>"

definition v_drop :: "string \<Rightarrow> view \<Rightarrow> view" where
  "v_drop k v = (case v_tbl v k of None \<Rightarrow> v | Some a \<Rightarrow> v_free a (v\<lparr>v_tbl := (v_tbl v)(k := None)\<rparr>))"

definition v_setref :: "addr \<Rightarrow> nat \<Rightarrow> view \<Rightarrow> view" where
  "v_setref a n v = v\<lparr>v_ref := (v_ref v)(a := n)\<rparr>"

definition v_setlock :: "addr \<Rightarrow> bool \<Rightarrow> view \<Rightarrow> view" where
  "v_setlock a b v = v\<lparr>v_lock := (v_lock v)(a := b)\<rparr>"

definition v_setpath :: "addr \<Rightarrow> string option \<Rightarrow> view \<Rightarrow> view" where
  "v_setpath a p v = v\<lparr>v_path := (v_path v)(a := p)\<rparr>"

definition v_own :: "addr \<Rightarrow> view \<Rightarrow> view" where
  "v_own d v = v\<lparr>v_loose := insert d (v_loose v)\<rparr>"

definition v_disown :: "addr \<Rightarrow> view \<Rightarrow> view" where
  "v_disown d v = v\<lparr>v_loose := v_loose v - {d}\<rparr>"

lemmas v_op_defs = v_new_def v_free_def v_put_def v_setref_def v_setlock_def v_setpath_def
  v_own_def v_disown_def

lemma v_sel [simp]:
  "v_tbl (v_new a v) = v_tbl v" "v_ent (v_new a v) = insert a (v_ent v)"
  "v_path (v_new a v) = v_path v" "v_loose (v_new a v) = v_loose v"
  "v_ref (v_new a v) = v_ref v" "v_lock (v_new a v) = v_lock v"
  "v_tbl (v_free a v) = v_tbl v" "v_ent (v_free a v) = v_ent v - {a}"
  "v_path (v_free a v) = (v_path v)(a := None)" "v_loose (v_free a v) = v_loose v"
  "v_ref (v_free a v) = (v_ref v)(a := 0)" "v_lock (v_free a v) = (v_lock v)(a := False)"
  "v_tbl (v_put k a v) = (v_tbl v)(k \<mapsto> a)" "v_ent (v_put k a v) = v_ent v"
  "v_path (v_put k a v) = v_path v" "v_loose (v_put k a v) = v_loose v"
  "v_ref (v_put k a v) = v_ref v" "v_lock (v_put k a v) = v_lock v"
  "v_tbl (v_setref a n v) = v_tbl v" "v_ent (v_setref a n v) = v_ent v"
  "v_path (v_setref a n v) = v_path v" "v_loose (v_setref a n v) = v_loose v"
  "v_ref (v_setref a n v) = (v_ref v)(a := n)" "v_lock (v_setref a n v) = v_lock v"
  "v_tbl (v_setlock a b v) = v_tbl v" "v_ent (v_setlock a b v) = v_ent v"
  "v_path (v_setlock a b v) = v_path v" "v_loose (v_setlock a b v) = v_loose v"
  "v_ref (v_setlock a b v) = v_ref v" "v_lock (v_setlock a b v) = (v_lock v)(a := b)"
  "v_tbl (v_setpath a p v) = v_tbl v" "v_ent (v_setpath a p v) = v_ent v"
  "v_path (v_setpath a p v) = (v_path v)(a := p)" "v_loose (v_setpath a p v) = v_loose v"
  "v_ref (v_setpath a p v) = v_ref v" "v_lock (v_setpath a p v) = v_lock v"
  "v_tbl (v_own d v) = v_tbl v" "v_ent (v_own d v) = v_ent v"
  "v_path (v_own d v) = v_path v" "v_loose (v_own d v) = insert d (v_loose v)"
  "v_ref (v_own d v) = v_ref v" "v_lock (v_own d v) = v_lock v"
  "v_tbl (v_disown d v) = v_tbl v" "v_ent (v_disown d v) = v_ent v"
  "v_path (v_disown d v) = v_path v" "v_loose (v_disown d v) = v_loose v - {d}"
  "v_ref (v_disown d v) = v_ref v" "v_lock (v_disown d v) = v_lock v"
  "v_cfg (v_new a v) = v_cfg v"
  "v_cfg (v_free a v) = v_cfg v"
  "v_cfg (v_put k a v) = v_cfg v"
  "v_cfg (v_setref a n v) = v_cfg v"
  "v_cfg (v_setlock a b v) = v_cfg v"
  "v_cfg (v_setpath a p v) = v_cfg v"
  "v_cfg (v_own d v) = v_cfg v"
  "v_cfg (v_disown d v) = v_cfg v"
  by (simp_all add: v_op_defs)

lemma v_drop_simps:
  "v_tbl (v_drop k v) = (v_tbl v)(k := None)"
  "v_loose (v_drop k v) = v_loose v"
  "v_ent (v_drop k v) = v_ent v - set_option (v_tbl v k)"
  "v_cfg (v_drop k v) = v_cfg v"
  by (auto simp: v_drop_def fun_upd_idem split: option.splits)

lemma v_disown_own [simp]: "d \<notin> v_loose v \<Longrightarrow> v_disown d (v_own d v) = v"
  by (simp add: v_op_defs)

lemma v_drop_None [simp]: "v_tbl v k = None \<Longrightarrow> v_drop k v = v"
  by (simp add: v_drop_def)

lemma v_setref_same [simp]: "v_setref a m (v_setref a n v) = v_setref a m v"
  by (simp add: v_op_defs)

lemma v_setref_id [simp]: "v_ref v a = n \<Longrightarrow> v_setref a n v = v"
  by (simp add: v_op_defs fun_upd_idem)

lemma v_setlock_same [simp]: "v_setlock a m (v_setlock a n v) = v_setlock a m v"
  by (simp add: v_op_defs)

lemma v_setlock_id [simp]: "v_lock v a = b \<Longrightarrow> v_setlock a b v = v"
  by (simp add: v_op_defs fun_upd_idem)

lemma v_free_new:
  "a \<notin> v_ent v \<Longrightarrow> v_path v a = None \<Longrightarrow> v_ref v a = 0 \<Longrightarrow> \<not> v_lock v a \<Longrightarrow>
    v_free a (v_setpath a p (v_new a v)) = v"
  by (simp add: v_op_defs fun_upd_idem)

text \<open>Addresses with no entry have no path, no references and no lock.\<close>

lemma view_no_entry:
  "a \<notin> v_ent (view s) \<Longrightarrow> v_path (view s) a = None"
  "a \<notin> v_ent (view s) \<Longrightarrow> v_ref (view s) a = 0"
  "a \<notin> v_ent (view s) \<Longrightarrow> \<not> v_lock (view s) a"
  by (auto simp: view_simps path_of_def domIff)

lemma v_tbl_range: "heap_inv s \<Longrightarrow> ran (v_tbl (view s)) \<subseteq> v_ent (view s)"
  using heap_inv_tbl_ent by (auto simp: ran_def)

lemma v_not_in_tbl: "heap_inv s \<Longrightarrow> a \<notin> v_ent (view s) \<Longrightarrow> a \<notin> ran (v_tbl (view s))"
  using v_tbl_range by blast

section \<open>Dictionaries\<close>

lemma owned_dom: "heap_inv s \<Longrightarrow> owned s d \<Longrightarrow> d \<in> dom (dicts s)"
  by (auto simp: heap_inv_def metadata_ok_def owned_def)

lemma nxt_fresh:
  assumes s: "heap_inv s"
  shows "nxt s \<notin> dom (dicts s)" "nxt s \<notin> dom (pes s)" "nxt s \<noteq> NULL" "\<not> owned s (nxt s)"
proof -
  show d: "nxt s \<notin> dom (dicts s)" and "nxt s \<notin> dom (pes s)" and "nxt s \<noteq> NULL"
    using s unfolding heap_inv_def heap_ok_def by auto
  show "\<not> owned s (nxt s)" using owned_dom [OF s] d by blast
qed

lemma fields_dicts [simp]:
  "md_of (s\<lparr>dicts := x\<rparr>) = md_of s" "path_of (s\<lparr>dicts := x\<rparr>) = path_of s"
  "owned (s\<lparr>dicts := x\<rparr>) = owned s"
  "md_of (s\<lparr>nxt := n\<rparr>) = md_of s" "path_of (s\<lparr>nxt := n\<rparr>) = path_of s"
  "owned (s\<lparr>nxt := n\<rparr>) = owned s"
  by (simp_all add: fun_eq_iff md_of_def path_of_def owned_def)

lemma dict_store_rule:
  assumes "heap_inv s" "dict_store d s = (a, t)"
  shows "a \<noteq> NULL" and "a \<notin> v_loose (view s)" and "heap_inv t" and "view t = v_own a (view s)"
proof -
  have t: "a = nxt s" "t = s\<lparr>dicts := (dicts s)(nxt s \<mapsto> d), nxt := Suc (nxt s)\<rparr>"
    using assms(2) by (auto simp: dict_store_def)
  note f = nxt_fresh [OF assms(1)]
  show "a \<noteq> NULL" using f(3) t(1) by simp
  show "a \<notin> v_loose (view s)" using f(1) t(1) by (simp add: view_simps)
  show "heap_inv t"
    using assms(1) unfolding t(2)
    by (auto simp: heap_inv_def table_ok_def heap_ok_def metadata_ok_def less_Suc_eq)
  show "view t = v_own a (view s)"
    using f(4) unfolding t by (auto simp: view_def v_own_def)
qed

lemma okay_dict_new [okay_rule]:
  assumes "heap_inv s"
    and "\<And>s'. heap_inv s' \<Longrightarrow> view s' = view s \<Longrightarrow> okay (k NULL s') Q"
    and "\<And>d s'. heap_inv s' \<Longrightarrow> d \<noteq> NULL \<Longrightarrow> d \<notin> v_loose (view s) \<Longrightarrow> view s' = v_own d (view s) \<Longrightarrow>
      okay (k d s') Q"
  shows "okay (dpl_dict_new E s k) Q"
proof -
  have "okay (k d t) Q" if "dict_store (dict_new E) (s\<lparr>world := w\<rparr>) = (d, t)" for d t w
    using that dict_store_rule [of "s\<lparr>world := w\<rparr>" "dict_new E" d t] assms(1)
    by (auto intro!: assms(3))
  then show ?thesis
    unfolding dpl_dict_new_def
    by (intro okay_call) (auto simp: assms split: prod.splits)
qed

lemma okay_dict_receive:
  assumes "heap_inv s" "dict_receive m s = (d, s')"
  shows "heap_inv s'" and "d = NULL \<and> view s' = view s \<or>
    d \<noteq> NULL \<and> d \<notin> v_loose (view s) \<and> view s' = v_own d (view s)"
  using assms dict_store_rule [OF assms(1)]
  by (auto simp: dict_receive_def split: option.splits)

lemma okay_dict_at [okay_rule]:
  "heap_inv s \<Longrightarrow> d \<in> v_loose (view s) \<Longrightarrow> (\<And>c. dicts s d = Some c \<Longrightarrow> Q c) \<Longrightarrow> okay (dict_at d s) Q"
  using loose_not_null [of s d] loose_dict [of d s] by (auto simp: dict_at_def)

lemma dicts_upd_rule:
  assumes "heap_inv s" "d \<in> dom (dicts s)"
  shows "heap_inv (s\<lparr>dicts := (dicts s)(d \<mapsto> c)\<rparr>)" "view (s\<lparr>dicts := (dicts s)(d \<mapsto> c)\<rparr>) = view s"
proof -
  have d: "dom ((dicts s)(d \<mapsto> c)) = dom (dicts s)" using assms(2) by auto
  show "heap_inv (s\<lparr>dicts := (dicts s)(d \<mapsto> c)\<rparr>)"
    using assms(1) d by (subst heap_inv_cong [of _ s]) (simp_all del: dom_fun_upd)
  show "view (s\<lparr>dicts := (dicts s)(d \<mapsto> c)\<rparr>) = view s"
    using d by (simp add: view_def del: dom_fun_upd)
qed

lemma okay_dict_set [okay_rule]:
  "heap_inv s \<Longrightarrow> d \<in> v_loose (view s) \<Longrightarrow>
    (\<And>s'. heap_inv s' \<Longrightarrow> view s' = view s \<Longrightarrow> Q s') \<Longrightarrow> okay (dict_set d c s) Q"
  using loose_not_null [of s d] loose_dict [of d s] dicts_upd_rule [of s d c]
  by (auto simp: dict_set_def dict_at_def dom_def)

lemma okay_dict_free [okay_rule]:
  assumes "heap_inv s" "d \<in> v_loose (view s)"
    and "\<And>s'. heap_inv s' \<Longrightarrow> view s' = v_disown d (view s) \<Longrightarrow> Q s'"
  shows "okay (dpl_dict_free d s) Q"
proof -
  let ?t = "s\<lparr>dicts := (dicts s)(d := None)\<rparr>"
  have d: "\<not> owned s d" "d \<noteq> NULL" "d \<in> dom (dicts s)"
    using assms(2) loose_not_null [OF assms(1,2)] by (auto simp: view_simps)
  then have "\<And>a. md_of s a \<noteq> d" by (auto simp: owned_def)
  then have "heap_inv ?t"
    using assms(1) by (auto simp: heap_inv_def table_ok_def heap_ok_def metadata_ok_def)
  moreover have "view ?t = v_disown d (view s)" by (auto simp: view_def v_disown_def)
  ultimately show ?thesis using assms(3) d by (auto simp: dpl_dict_free_def)
qed

lemma okay_dict_free_opt [okay_rule]:
  assumes "heap_inv s" "d \<noteq> NULL \<Longrightarrow> d \<in> v_loose (view s)"
    and "d = NULL \<Longrightarrow> Q s"
    and "\<And>s'. d \<noteq> NULL \<Longrightarrow> heap_inv s' \<Longrightarrow> view s' = v_disown d (view s) \<Longrightarrow> Q s'"
  shows "okay (dict_free_opt d s) Q"
  using assms unfolding dict_free_opt_def by (auto intro: okay_dict_free)

section \<open>Changing what an entry owns\<close>

lemma view_eqI:
  assumes "hash t = hash s" "path_of t = path_of s" "dom (pes t) = dom (pes s)"
    "\<And>a. a \<in> dom (pes s) \<Longrightarrow> refcount (the (pes t a)) = refcount (the (pes s a)) \<and>
      mutex (the (pes t a)) = mutex (the (pes s a))"
    "dom (dicts t) - Collect (owned t) = dom (dicts s) - Collect (owned s)" "cfg t = cfg s"
  shows "view t = view s"
proof -
  have c: "(case pes t a of None \<Rightarrow> z | Some p \<Rightarrow> f p) = (if a \<in> dom (pes s) then f (the (pes t a)) else z)"
    "(case pes s a of None \<Rightarrow> z | Some p \<Rightarrow> f p) = (if a \<in> dom (pes s) then f (the (pes s a)) else z)"
    for a and f :: "pentry \<Rightarrow> 'x" and z
    using assms(3) by (simp_all add: option.case_eq_if set_eq_iff domIff del: not_None_eq)
  show ?thesis
    unfolding view_def c using assms(1,2,3,5,6) by (simp add: fun_eq_iff assms(4))
qed

text \<open>An entry's dictionary is released and another, fresh one (or none) takes its place.\<close>

lemma metadata_change:
  assumes "heap_inv s" "pes s a = Some p"
    and "hash t = hash s" "pes t = (pes s)(a \<mapsto> p\<lparr>metadata := n\<rparr>)" "nxt s \<le> nxt t"
    and "dom (dicts t) = (dom (dicts s) - {metadata p}) \<union> ({n} - {NULL})"
    and "n = NULL \<or> nxt s \<le> n \<and> n < nxt t" "cfg t = cfg s"
  shows "heap_inv t" "view t = view s"
proof -
  have md: "md_of t = (md_of s)(a := n)" and pa: "path_of t = path_of s"
    and old: "md_of s a = metadata p"
    using assms(2,4) by (auto simp: md_of_def path_of_def fun_eq_iff)
  have inj: "\<And>b c. md_of s b = md_of s c \<Longrightarrow> md_of s b \<noteq> NULL \<Longrightarrow> b = c"
    and dm: "\<And>b. md_of s b \<noteq> NULL \<Longrightarrow> md_of s b \<in> dom (dicts s)"
    using assms(1) unfolding heap_inv_def metadata_ok_def by blast+
  have lt: "\<And>d. d \<in> dom (dicts s) \<Longrightarrow> NULL < d \<and> d < nxt s"
    and lp: "\<And>d. d \<in> dom (pes s) \<Longrightarrow> NULL < d \<and> d < nxt s" and nz: "NULL < nxt s"
    using assms(1) unfolding heap_inv_def heap_ok_def by auto
  have nn: "md_of s b \<noteq> n" if "n \<noteq> NULL" for b
    using assms(7) lt [OF dm] that by (metis leD)
  have ent: "dom (pes t) = dom (pes s)" using assms(2,4) by auto
  have "md_of t b \<in> dom (dicts t)" if "md_of t b \<noteq> NULL" for b
  proof (cases "b = a")
    case False
    then have "md_of s b \<noteq> NULL" "md_of s b \<noteq> metadata p" using that inj old md by auto
    then show ?thesis using False dm md assms(6) by simp
  qed (use that md assms(6) in simp)
  moreover have "b = c" if "md_of t b = md_of t c" "md_of t b \<noteq> NULL" for b c
    using that nn inj unfolding md by (metis fun_upd_apply)
  ultimately have "metadata_ok t" unfolding metadata_ok_def by blast
  moreover have "dom (dicts t) \<subseteq> {NULL<..<nxt t}"
    unfolding assms(6) using lt assms(5,7) nz by fastforce
  then have "heap_ok t"
    unfolding heap_ok_def ent using lp nz assms(5) by fastforce
  moreover have "table_ok t"
    using assms(1) unfolding heap_inv_def table_ok_def assms(3) ent pa by blast
  ultimately show "heap_inv t" by (simp add: heap_inv_def)
  have ow: "owned t d \<longleftrightarrow> d \<noteq> NULL \<and> (d = n \<or> owned s d \<and> d \<noteq> metadata p)" for d
  proof
    assume "owned t d"
    then obtain b where b: "d \<noteq> NULL" "((md_of s)(a := n)) b = d" unfolding owned_def md by auto
    then show "d \<noteq> NULL \<and> (d = n \<or> owned s d \<and> d \<noteq> metadata p)"
      using inj [of b a] old by (cases "b = a") (auto simp: owned_def)
  next
    assume r: "d \<noteq> NULL \<and> (d = n \<or> owned s d \<and> d \<noteq> metadata p)"
    show "owned t d"
    proof (cases "d = n")
      case True
      then show ?thesis using r unfolding owned_def md by (auto intro!: exI [of _ a])
    next
      case False
      then obtain b where "md_of s b = d" "b \<noteq> a" using r old unfolding owned_def by auto
      then show ?thesis using r unfolding owned_def md by (auto intro!: exI [of _ b])
    qed
  qed
  have om: "metadata p \<noteq> NULL \<Longrightarrow> owned s (metadata p)" using old by (auto simp: owned_def)
  have oz: "NULL \<notin> dom (dicts s)" using lt by blast
  have on: "n \<notin> dom (dicts s)" using assms(7) lt oz by (metis leD)
  have "d \<in> dom (dicts t) \<and> \<not> owned t d \<longleftrightarrow> d \<in> dom (dicts s) \<and> \<not> owned s d" for d
    unfolding assms(6) ow using om oz on by (cases "metadata p = NULL") auto
  then have "dom (dicts t) - Collect (owned t) = dom (dicts s) - Collect (owned s)" by blast
  then show "view t = view s"
    by (intro view_eqI assms(3) pa ent) (simp_all add: assms(2,4,8))
qed


section \<open>Entries\<close>

lemma okay_set_metadata [okay_rule]:
  assumes "heap_inv s" "a \<in> v_ent (view s)" "d \<in> v_loose (view s)"
    and "\<And>r s'. heap_inv s' \<Longrightarrow> view s' = view s \<Longrightarrow> Q (r, s')"
  shows "okay (pentry_set_metadata E a d s) Q"
proof -
  obtain p where p: "pe_at a s = Ret p" "pes s a = Some p" "a \<noteq> NULL"
    using pe_at_Ret [OF assms(1,2)] heap_inv_not_null [OF assms(1,2)] by blast
  obtain c where c: "dicts s d = Some c" "d \<noteq> NULL"
    using loose_dict [OF assms(3)] loose_not_null [OF assms(1,3)] by blast
  have md: "md_of s a = metadata p" using p(2) by (simp add: md_of_def)
  have dm: "metadata p \<noteq> d" "metadata p \<noteq> NULL \<Longrightarrow> metadata p \<in> dom (dicts s)"
    using assms(1,3) c(2) unfolding md [symmetric] heap_inv_def metadata_ok_def
    by (auto simp: view_simps owned_def)
  note f = nxt_fresh [OF assms(1)]
  let ?D = "(dicts s)(metadata p := None)"
  let ?s1 = "s\<lparr>dicts := ?D\<rparr>"
  have n0: "NULL \<notin> dom (dicts s)" using assms(1) by (auto simp: heap_inv_def heap_ok_def)
  have run: "(if metadata p \<noteq> NULL then dpl_dict_free (metadata p) s else Ret s) = Ret ?s1"
  proof (cases "metadata p = NULL")
    case True
    have "?D = dicts s" using True n0 by (simp add: domIff fun_upd_idem)
    then show ?thesis using True by simp
  next
    case False
    then show ?thesis using dm(2) by (auto simp: dpl_dict_free_def)
  qed
  have fin: "Q (r, t)"
    if "hash t = hash s" "pes t = (pes s)(a \<mapsto> p\<lparr>metadata := n\<rparr>)" "nxt s \<le> nxt t"
      "dom (dicts t) = (dom (dicts s) - {metadata p}) \<union> ({n} - {NULL})"
      "n = NULL \<or> nxt s \<le> n \<and> n < nxt t" "cfg t = cfg s" for t n r
    using metadata_change [OF assms(1) p(2) that] by (rule assms(4))
  have fin0: "Q (r, t)" if "hash t = hash s" "pes t = (pes s)(a \<mapsto> p\<lparr>metadata := NULL\<rparr>)"
    "nxt t = nxt s" "dicts t = ?D" "cfg t = cfg s" for t r
    using that by (intro fin [of t NULL]) auto
  have fin1: "Q (r, t)" if "hash t = hash s" "pes t = (pes s)(a \<mapsto> p\<lparr>metadata := nxt s\<rparr>)"
    "nxt t = Suc (nxt s)" "dicts t = ?D(nxt s \<mapsto> e)" "cfg t = cfg s" for t r e
    using that f(3) by (intro fin [of t "nxt s"]) auto
  have "d \<noteq> nxt s" using c f(1) by auto
  then show ?thesis
    unfolding pentry_set_metadata_def p(1) obind.simps run dpl_dict_new_def
  proof (intro okay_call, goal_cases)
    case (1 ok w)
    show ?case
    proof (cases ok)
      case False
      then show ?thesis
        using p(2,3) by (auto intro!: fin0 simp: pe_upd_def pe_at_def)
    next
      case True
      then show ?thesis
        using p(2,3) c dm(1) f(3) 1
        by (auto intro!: okay_call fin1
          simp: pe_upd_def pe_at_def dict_store_def dict_at_def dict_set_def)
    qed
  qed
qed

text \<open>Removing an entry that is not in the table, with the dictionary it owns.\<close>

lemma entry_removed:
  assumes "heap_inv s" "pes s a = Some p" "a \<notin> ran (v_tbl (view s))"
    and "hash t = hash s" "pes t = (pes s)(a := None)" "nxt t = nxt s"
    and "dicts t = (dicts s)(metadata p := None)" "cfg t = cfg s"
  shows "heap_inv t" "view t = v_free a (view s)"
proof -
  have md: "md_of t = (md_of s)(a := NULL)" and pa: "path_of t = (path_of s)(a := None)"
    and old: "md_of s a = metadata p"
    using assms(2,5) by (auto simp: md_of_def path_of_def fun_eq_iff)
  have inj: "\<And>b c. md_of s b = md_of s c \<Longrightarrow> md_of s b \<noteq> NULL \<Longrightarrow> b = c"
    and dm: "\<And>b. md_of s b \<noteq> NULL \<Longrightarrow> md_of s b \<in> dom (dicts s)"
    using assms(1) unfolding heap_inv_def metadata_ok_def by blast+
  have dd: "dom (dicts t) = dom (dicts s) - {metadata p}" using assms(7) by simp
  have dist: "distinct (map fst (hash s))" using assms(1) by (simp add: heap_inv_def table_ok_def)
  have na: "\<And>k b. (k, b) \<in> set (hash s) \<Longrightarrow> b \<noteq> a"
    using assms(3) dist by (force simp: view_simps ran_def)
  have "md_of t b \<in> dom (dicts t)" if "md_of t b \<noteq> NULL" for b
    using that inj [of b a] dm [of b] old unfolding dd md by (auto simp del: domIff split: if_splits)
  moreover have "b = c" if "md_of t b = md_of t c" "md_of t b \<noteq> NULL" for b c
    using that inj [of b c] unfolding md by (auto split: if_splits)
  ultimately have "metadata_ok t" unfolding metadata_ok_def by blast
  moreover have "heap_ok t"
    using assms(1) unfolding heap_inv_def heap_ok_def dd assms(5,6) by auto
  moreover have "table_ok t"
    using assms(1) na unfolding heap_inv_def table_ok_def assms(4) pa assms(5) by auto
  ultimately show "heap_inv t" by (simp add: heap_inv_def)
  have ow: "owned t d \<longleftrightarrow> owned s d \<and> d \<noteq> metadata p" for d
    using inj old unfolding owned_def md by (auto simp: fun_upd_def) metis+
  have "metadata p \<noteq> NULL \<Longrightarrow> owned s (metadata p)" using old by (auto simp: owned_def)
  moreover have "NULL \<notin> dom (dicts s)" using assms(1) by (auto simp: heap_inv_def heap_ok_def)
  ultimately have "d \<in> dom (dicts t) \<and> \<not> owned t d \<longleftrightarrow> d \<in> dom (dicts s) \<and> \<not> owned s d" for d
    unfolding dd ow by (cases "metadata p = NULL") auto
  then have "dom (dicts t) - Collect (owned t) = dom (dicts s) - Collect (owned s)" by blast
  then show "view t = v_free a (view s)"
    by (simp add: view_def v_free_def assms(4,5,8) pa fun_eq_iff)
qed

lemma okay_pentry_free [okay_rule]:
  assumes "heap_inv s" "a \<in> v_ent (view s)" "a \<notin> ran (v_tbl (view s))"
    and "\<And>s'. heap_inv s' \<Longrightarrow> view s' = v_free a (view s) \<Longrightarrow> Q s'"
  shows "okay (pentry_free E a s) Q"
proof -
  obtain p where p: "pe_at a s = Ret p" "pes s a = Some p"
    using pe_at_Ret [OF assms(1,2)] by blast
  have fin: "Q t" if "hash t = hash s" "pes t = (pes s)(a := None)" "nxt t = nxt s"
    "dicts t = (dicts s)(metadata p := None)" "cfg t = cfg s" for t
    using entry_removed [OF assms(1) p(2) assms(3) that] by (rule assms(4))
  have "md_of s a = metadata p" using p(2) by (simp add: md_of_def)
  then have "metadata p \<noteq> NULL \<Longrightarrow> metadata p \<in> dom (dicts s)"
    using assms(1) unfolding heap_inv_def metadata_ok_def by metis
  moreover have "dicts s NULL = None" using assms(1) by (auto simp: heap_inv_def heap_ok_def domIff)
  ultimately show ?thesis
    unfolding pentry_free_def p(1) obind.simps
    by (auto intro!: okay_call fin simp: dpl_dict_free_def fun_upd_idem)
qed

text \<open>
  What the code relies on when it allocates an entry: the initialisation of a mutex and of an
  unnamed semaphore does not fail.
\<close>

definition inits_ok :: "('w, 'd) env \<Rightarrow> bool" where
  "inits_ok E \<longleftrightarrow> (\<forall>w. fst (init_rc E w) = 0)"

lemma pentry_inits_ok: "inits_ok E \<Longrightarrow> \<exists>w. pentry_inits n E s = (True, s\<lparr>world := w\<rparr>)"
proof (induction n arbitrary: s)
  case 0
  have "s = s\<lparr>world := world s\<rparr>" by simp
  then show ?case by (metis pentry_inits.simps(1))
next
  case (Suc n)
  obtain w where w: "init_rc E (world s) = (0, w)"
    using Suc.prems unfolding inits_ok_def by (metis prod.collapse)
  show ?case using Suc.IH [OF Suc.prems, of "s\<lparr>world := w\<rparr>"] by (simp add: call_def w)
qed

lemma entry_added:
  assumes "heap_inv s" "hash t = hash s" "pes t = (pes s)(nxt s \<mapsto> p)" "dicts t = dicts s"
    "nxt t = Suc (nxt s)" "path p = None" "metadata p = NULL" "refcount p = 0" "\<not> mutex p" "cfg t = cfg s"
  shows "heap_inv t" "view t = v_new (nxt s) (view s)"
proof -
  have none: "pes s (nxt s) = None" using nxt_fresh(2) [OF assms(1)] by (simp add: domIff)
  have md: "md_of t = md_of s" and pa: "path_of t = path_of s"
    using none assms(3,6,7) by (auto simp: md_of_def path_of_def fun_eq_iff)
  have ow: "owned t = owned s" using md by (rule owned_cong)
  show "heap_inv t"
    using assms(1) unfolding heap_inv_def table_ok_def heap_ok_def metadata_ok_def md pa
      assms(2-5) by auto
  show "view t = v_new (nxt s) (view s)"
    using none assms(2-10) pa ow by (auto simp: view_def v_new_def fun_eq_iff)
qed

lemma okay_pentry_new [okay_rule]:
  assumes "heap_inv s" "inits_ok E"
    and "\<And>s'. heap_inv s' \<Longrightarrow> view s' = view s \<Longrightarrow> Q (NULL, s')"
    and "\<And>a s'. heap_inv s' \<Longrightarrow> a \<noteq> NULL \<Longrightarrow> a \<notin> v_ent (view s) \<Longrightarrow> view s' = v_new a (view s) \<Longrightarrow>
      Q (a, s')"
  shows "okay (pentry_new E s) Q"
proof -
  have fin: "Q (nxt s, t)"
    if "hash t = hash s" "pes t = (pes s)(nxt s \<mapsto> p)" "dicts t = dicts s"
    "nxt t = Suc (nxt s)" "path p = None" "metadata p = NULL" "refcount p = 0" "\<not> mutex p" "cfg t = cfg s" for t p
    using entry_added [OF assms(1) that] nxt_fresh [OF assms(1)]
    by (intro assms(4)) (auto simp: view_simps)
  show ?thesis
    unfolding pentry_new_def
  proof (intro okay_call, goal_cases)
    case (1 ok w)
    obtain w' where "pentry_inits 5 E (s\<lparr>world := w\<rparr>) = (True, s\<lparr>world := w'\<rparr>)"
      using pentry_inits_ok [OF assms(2), of 5 "s\<lparr>world := w\<rparr>"] by auto
    then show ?case using assms(1,3) by (auto simp: Let_def intro!: fin)
  qed
qed

text \<open>\<^verbatim>\<open>pentry_set_path\<close> is only ever applied to an entry that is not in the table yet.\<close>

lemma path_changed:
  assumes "heap_inv s" "pes s a = Some p" "a \<notin> ran (v_tbl (view s))"
  shows "heap_inv (s\<lparr>pes := (pes s)(a \<mapsto> p\<lparr>path := x\<rparr>)\<rparr>)" (is "heap_inv ?t")
    and "view (s\<lparr>pes := (pes s)(a \<mapsto> p\<lparr>path := x\<rparr>)\<rparr>) = v_setpath a x (view s)"
proof -
  have md: "md_of ?t = md_of s" and pa: "path_of ?t = (path_of s)(a := x)"
    using assms(2) by (auto simp: md_of_def path_of_def fun_eq_iff)
  have ow: "owned ?t = owned s" using md by (rule owned_cong)
  have na: "\<And>k b. (k, b) \<in> set (hash s) \<Longrightarrow> b \<noteq> a"
    using assms(1,3) by (force simp: heap_inv_def table_ok_def view_simps ran_def)
  have ent: "dom (pes ?t) = dom (pes s)" using assms(2) by auto
  have "table_ok ?t"
    using assms(1) na unfolding heap_inv_def table_ok_def pa ent by auto
  moreover have "heap_ok ?t"
    using assms(1) unfolding heap_inv_def heap_ok_def ent by simp
  moreover have "metadata_ok ?t"
    using assms(1) unfolding heap_inv_def metadata_ok_def md by simp
  ultimately show "heap_inv ?t" by (simp add: heap_inv_def)
  show "view ?t = v_setpath a x (view s)"
    using assms(2) ow pa ent by (auto simp: view_def v_setpath_def fun_eq_iff)
qed

lemma okay_set_path [okay_rule]:
  assumes "heap_inv s" "a \<in> v_ent (view s)" "a \<notin> ran (v_tbl (view s))"
    and "\<And>x s'. heap_inv s' \<Longrightarrow> view s' = v_setpath a x (view s) \<Longrightarrow> x \<in> {None, Some n} \<Longrightarrow> Q s'"
  shows "okay (pentry_set_path E a n s) Q"
proof -
  obtain p where p: "pe_at a s = Ret p" "pes s a = Some p"
    using pe_at_Ret [OF assms(1,2)] by blast
  have "Q (s\<lparr>world := w, pes := (pes s)(a \<mapsto> p\<lparr>path := x\<rparr>)\<rparr>)" if "x \<in> {None, Some n}" for x w
    using path_changed [of "s\<lparr>world := w\<rparr>" a p x] assms(1,3) p that by (auto intro: assms(4))
  then show ?thesis
    by (auto simp: pentry_set_path_def p pe_upd_def intro!: okay_call)
qed

section \<open>The table\<close>

lemma lookup_cases:
  assumes "heap_inv s"
  obtains "g_hash_table_lookup k s = NULL" "v_tbl (view s) k = None"
    | a where "g_hash_table_lookup k s = a" "a \<noteq> NULL" "v_tbl (view s) k = Some a"
        "a \<in> v_ent (view s)"
proof (cases "v_tbl (view s) k")
  case None
  then show ?thesis using that(1) by (simp add: g_hash_table_lookup_def view_simps)
next
  case (Some a)
  then have "a \<in> v_ent (view s)" "g_hash_table_lookup k s = a"
    using heap_inv_tbl_ent [OF assms] by (simp_all add: g_hash_table_lookup_def view_simps)
  then show ?thesis using that(2) heap_inv_not_null [OF assms] Some by blast
qed

lemma update_new: "map_of xs k = None \<Longrightarrow> AList.update k v xs = xs @ [(k, v)]"
  by (induction xs) (auto split: if_splits)

lemma okay_hash_insert [okay_rule]:
  assumes "heap_inv s" "a \<in> v_ent (view s)" "a \<notin> ran (v_tbl (view s))" "v_tbl (view s) k = None"
    and "v_path (view s) a \<in> {None, Some k}"
    and "\<And>s'. heap_inv s' \<Longrightarrow> view s' = v_put k a (view s) \<Longrightarrow> Q s'"
  shows "okay (g_hash_table_insert E k a s) Q"
proof -
  let ?t = "s\<lparr>hash := AList.update k a (hash s)\<rparr>"
  have none: "map_of (hash s) k = None" using assms(4) by (simp add: view_simps)
  have f: "md_of ?t = md_of s" "path_of ?t = path_of s"
    by (simp_all add: fun_eq_iff md_of_def path_of_def)
  then have ow: "owned ?t = owned s" by (intro owned_cong)
  have "k \<notin> fst ` set (hash s)" using none by (simp add: map_of_eq_None_iff)
  moreover have "a \<notin> snd ` set (hash s)"
    using assms(1,3) by (force simp: heap_inv_def table_ok_def view_simps ran_def)
  ultimately have "heap_inv ?t"
    using assms(1,2,5) unfolding heap_inv_def table_ok_def heap_ok_def metadata_ok_def f
    by (auto simp: update_new [OF none] view_simps)
  moreover have "view ?t = v_put k a (view s)" using f ow by (simp add: view_def v_put_def)
  ultimately show ?thesis using none assms(6) by (simp add: g_hash_table_insert_def)
qed

lemma table_smaller:
  assumes "heap_inv s"
  shows "heap_inv (s\<lparr>hash := AList.delete k (hash s)\<rparr>)" (is "heap_inv ?t")
    and "view (s\<lparr>hash := AList.delete k (hash s)\<rparr>) = (view s)\<lparr>v_tbl := (v_tbl (view s))(k := None)\<rparr>"
proof -
  have f: "md_of ?t = md_of s" "path_of ?t = path_of s"
    by (simp_all add: fun_eq_iff md_of_def path_of_def)
  then have ow: "owned ?t = owned s" by (intro owned_cong)
  have "distinct (map fst (hash ?t))" "distinct (map snd (hash ?t))" "set (hash ?t) \<subseteq> set (hash s)"
    using assms by (auto simp: heap_inv_def table_ok_def AList.delete_eq intro: distinct_map_filter)
  then show "heap_inv ?t"
    using assms unfolding heap_inv_def table_ok_def heap_ok_def metadata_ok_def f by auto
  show "view ?t = (view s)\<lparr>v_tbl := (v_tbl (view s))(k := None)\<rparr>"
    using f ow by (simp add: view_def)
qed

lemma okay_hash_remove [okay_rule]:
  assumes "heap_inv s"
    and "\<And>s'. heap_inv s' \<Longrightarrow> view s' = v_drop k (view s) \<Longrightarrow> Q (v_tbl (view s) k \<noteq> None, s')"
  shows "okay (g_hash_table_remove E k s) Q"
proof (cases "v_tbl (view s) k")
  case None
  have "Q (v_tbl (view s) k \<noteq> None, s)" using None assms by (intro assms(2)) auto
  with None show ?thesis by (simp add: g_hash_table_remove_def view_simps)
next
  case (Some a)
  let ?t = "s\<lparr>hash := AList.delete k (hash s)\<rparr>"
  note t = table_smaller [OF assms(1), of k]
  have "a \<in> v_ent (view ?t)" using heap_inv_tbl_ent [OF assms(1) Some] t(2) by simp
  moreover have "a \<notin> ran (v_tbl (view ?t))"
    using heap_inv_tbl_inj [OF assms(1) Some] t(2) by (auto simp: ran_def split: if_splits)
  ultimately have "okay (pentry_free E a ?t) (\<lambda>s'. Q (v_tbl (view s) k \<noteq> None, s'))"
    using t Some by (intro okay_pentry_free assms(2)) (simp_all add: v_drop_def)
  with Some show ?thesis by (simp add: g_hash_table_remove_def view_simps)
qed

section \<open>References and locks\<close>

lemma okay_inc_refcount [okay_rule]:
  assumes "heap_inv s" "a \<in> v_ent (view s)"
    and "\<And>s'. heap_inv s' \<Longrightarrow> view s' = v_setref a (Suc (v_ref (view s) a)) (view s) \<Longrightarrow> Q s'"
  shows "okay (pentry_inc_refcount a s) Q"
  unfolding pentry_inc_refcount_def
  by (rule okay_pe_upd [OF assms(1,2)]; (rule assms(3))?)
    (auto simp: v_setref_def view_simps view_def fun_upd_idem fun_eq_iff)

lemma okay_dec_refcount [okay_rule]:
  assumes "heap_inv s" "a \<in> v_ent (view s)"
    and "\<And>s'. v_ref (view s) a \<noteq> 0 \<Longrightarrow> heap_inv s' \<Longrightarrow>
      view s' = v_setref a (v_ref (view s) a - 1) (view s) \<Longrightarrow> Q s'"
  shows "okay (pentry_dec_refcount a s) Q"
proof -
  obtain p where p: "pe_at a s = Ret p" "pes s a = Some p"
    using pe_at_Ret [OF assms(1,2)] by blast
  have "okay (pe_upd a (\<lambda>p. p\<lparr>refcount := refcount p - 1\<rparr>) s) Q" if "refcount p \<noteq> 0"
    using that p(2) by (intro okay_pe_upd [OF assms(1,2)] assms(3))
      (auto simp: v_setref_def view_simps view_def fun_upd_idem fun_eq_iff)
  then show ?thesis by (simp add: pentry_dec_refcount_def p(1))
qed

text \<open>The lock \<open>MUTEX\<close> is in the view, \<open>MD_MUTEX\<close> is not.\<close>

definition v_hold :: "lock \<Rightarrow> addr \<Rightarrow> bool \<Rightarrow> view \<Rightarrow> view" where
  "v_hold l a b v = (case l of MUTEX \<Rightarrow> v_setlock a b v | MD_MUTEX \<Rightarrow> v)"

lemma v_hold_simps [simp]:
  "v_hold MUTEX a b v = v_setlock a b v" "v_hold MD_MUTEX a b v = v"
  by (simp_all add: v_hold_def)

lemma okay_set_held:
  assumes "heap_inv s" "a \<in> v_ent (view s)"
    and "\<And>s'. heap_inv s' \<Longrightarrow> view s' = v_hold l a b (view s) \<Longrightarrow> Q s'"
  shows "okay (pe_upd a (set_held l b) s) Q"
  by (rule okay_pe_upd [OF assms(1,2)]; cases l)
    (auto intro!: assms(3) simp: v_setlock_def view_simps view_def fun_upd_idem fun_eq_iff)

lemma okay_gen_trylock:
  assumes "heap_inv s" "a \<in> v_ent (view s)"
    and "\<And>r s'. heap_inv s' \<Longrightarrow> r \<noteq> 0 \<Longrightarrow> view s' = view s \<Longrightarrow> Q (r, s')"
    and "\<And>p s'. heap_inv s' \<Longrightarrow> pes s a = Some p \<Longrightarrow> \<not> held l p \<Longrightarrow> view s' = v_hold l a True (view s) \<Longrightarrow>
      Q (0, s')"
  shows "okay (pentry_gen_trylock E l a s) Q"
  unfolding pentry_gen_trylock_def
  using assms by (auto intro!: okay_pe_at okay_call okay_set_held)

lemma okay_gen_lock:
  assumes "heap_inv s" "a \<in> v_ent (view s)"
    and "\<And>r s'. heap_inv s' \<Longrightarrow> r \<noteq> 0 \<Longrightarrow> view s' = view s \<Longrightarrow> Q (r, s')"
    and "\<And>p s'. heap_inv s' \<Longrightarrow> pes s a = Some p \<Longrightarrow> \<not> held l p \<Longrightarrow> view s' = v_hold l a True (view s) \<Longrightarrow>
      Q (0, s')"
  shows "okay (pentry_gen_lock E l a s) Q"
  unfolding pentry_gen_lock_def
  using assms by (auto intro!: okay_pe_at okay_call okay_set_held)

lemma okay_gen_unlock:
  assumes "heap_inv s" "a \<in> v_ent (view s)"
    and "\<And>r s'. heap_inv s' \<Longrightarrow> r \<noteq> 0 \<Longrightarrow> view s' = view s \<Longrightarrow> Q (r, s')"
    and "\<And>s'. heap_inv s' \<Longrightarrow> view s' = v_hold l a False (view s) \<Longrightarrow> Q (0, s')"
  shows "okay (pentry_gen_unlock E l a s) Q"
  unfolding pentry_gen_unlock_def
  using assms by (auto intro!: okay_pe_at okay_call okay_set_held)

lemma v_lock_of: "pes s a = Some p \<Longrightarrow> v_lock (view s) a = mutex p"
  by (simp add: view_simps)

lemma okay_mutex [okay_rule]:
  assumes "heap_inv s" "a \<in> v_ent (view s)"
    and "\<And>r s'. heap_inv s' \<Longrightarrow> r \<noteq> 0 \<Longrightarrow> view s' = view s \<Longrightarrow> Q (r, s')"
  shows "(\<And>s'. heap_inv s' \<Longrightarrow> \<not> v_lock (view s) a \<Longrightarrow> view s' = v_setlock a True (view s) \<Longrightarrow> Q (0, s')) \<Longrightarrow>
      okay (pentry_trylock E a s) Q"
    and "(\<And>s'. heap_inv s' \<Longrightarrow> \<not> v_lock (view s) a \<Longrightarrow> view s' = v_setlock a True (view s) \<Longrightarrow> Q (0, s')) \<Longrightarrow>
      okay (pentry_lock E a s) Q"
    and "(\<And>s'. heap_inv s' \<Longrightarrow> view s' = v_setlock a False (view s) \<Longrightarrow> Q (0, s')) \<Longrightarrow>
      okay (pentry_unlock E a s) Q"
  unfolding pentry_trylock_def pentry_lock_def pentry_unlock_def
  using assms by (auto intro!: okay_gen_trylock okay_gen_lock okay_gen_unlock simp: v_lock_of)

lemma okay_md_mutex [okay_rule]:
  assumes "heap_inv s" "a \<in> v_ent (view s)"
    and "\<And>r s'. heap_inv s' \<Longrightarrow> view s' = view s \<Longrightarrow> Q (r, s')"
  shows "okay (pentry_md_trylock E a s) Q" "okay (pentry_md_lock E a s) Q"
    "okay (pentry_md_unlock E a s) Q"
  unfolding pentry_md_trylock_def pentry_md_lock_def pentry_md_unlock_def
  using assms by (auto intro!: okay_gen_trylock okay_gen_lock okay_gen_unlock)

section \<open>Accessors\<close>

lemma okay_getters [okay_rule]:
  assumes "heap_inv s" "a \<in> v_ent (view s)"
  shows "(\<And>p. pes s a = Some p \<Longrightarrow> Q (atime p)) \<Longrightarrow> okay (pentry_get_atime a s) Q"
    and "(\<And>p. pes s a = Some p \<Longrightarrow> R (ondisk p)) \<Longrightarrow> okay (pentry_get_placeholder a s) R"
    and "(\<And>p. pes s a = Some p \<Longrightarrow> Q (fd p)) \<Longrightarrow> okay (pentry_get_fd a s) Q"
    and "(\<And>p. pes s a = Some p \<Longrightarrow> C (flag p)) \<Longrightarrow> okay (pentry_get_flag a s) C"
    and "(\<And>p. pes s a = Some p \<Longrightarrow> B (exclude p)) \<Longrightarrow> okay (pentry_get_exclude a s) B"
    and "(\<And>p. pes s a = Some p \<Longrightarrow> T (filetype p)) \<Longrightarrow> okay (pentry_get_filetype a s) T"
    and "(\<And>p. pes s a = Some p \<Longrightarrow> P (path p)) \<Longrightarrow> okay (pentry_get_path a s) P"
    and "(\<And>p. pes s a = Some p \<Longrightarrow> S (digest p)) \<Longrightarrow> okay (pentry_get_digest a s) S"
    and "(\<And>p. pes s a = Some p \<Longrightarrow> L (dirent p)) \<Longrightarrow> okay (pentry_get_dirents a s) L"
    and "(\<And>p. pes s a = Some p \<Longrightarrow> N (refcount p)) \<Longrightarrow> okay (pentry_get_refcount a s) N"
    and "(\<And>p. pes s a = Some p \<Longrightarrow> M (metadata p)) \<Longrightarrow> okay (pentry_get_metadata a s) M"
  unfolding pentry_get_atime_def pentry_get_placeholder_def pentry_get_fd_def pentry_get_flag_def
    pentry_get_exclude_def pentry_get_filetype_def pentry_get_path_def pentry_get_digest_def
    pentry_get_dirents_def pentry_get_refcount_def pentry_get_metadata_def
  by (simp_all add: okay_pe_at [OF assms])

lemma okay_setters [okay_rule]:
  assumes "heap_inv s" "a \<in> v_ent (view s)"
    and "\<And>s'. heap_inv s' \<Longrightarrow> view s' = view s \<Longrightarrow> Q s'"
  shows "okay (pentry_set_atime E a s) Q" "okay (pentry_set_placeholder a ph s) Q"
    "okay (pentry_set_exclude a b s) Q" "okay (pentry_set_filetype a ft s) Q"
    "okay (pentry_set_fd a i s) Q" "okay (pentry_set_flag a fl s) Q"
    "okay (pentry_add_dirent E a n s) Q" "okay (pentry_unlink_cache_file E a s) Q"
  unfolding pentry_set_atime_def pentry_set_placeholder_def pentry_set_exclude_def
    pentry_set_filetype_def pentry_set_fd_def pentry_set_flag_def pentry_add_dirent_def
    pentry_unlink_cache_file_def
  using assms
  by (auto intro!: okay_call okay_pe_at okay_pe_upd_quiet simp: Let_def split: option.splits)

lemma okay_remove_dirent [okay_rule]:
  assumes "heap_inv s" "a \<in> v_ent (view s)"
    and "\<And>r s'. heap_inv s' \<Longrightarrow> view s' = view s \<Longrightarrow> Q (r, s')"
  shows "okay (pentry_remove_dirent a n s) Q"
  unfolding pentry_remove_dirent_def
  using assms by (auto intro!: okay_pe_at okay_pe_upd_quiet)

lemma okay_set_digest [okay_rule]:
  assumes "heap_inv s" "a \<in> v_ent (view s)"
    and "\<And>x. d = Some x \<Longrightarrow> MD5_DIGEST_LENGTH \<le> Suc (length x)"
    and "\<And>r s'. heap_inv s' \<Longrightarrow> view s' = view s \<Longrightarrow> Q (r, s')"
  shows "okay (pentry_set_digest a d s) Q"
  unfolding pentry_set_digest_def
  using assms by (auto intro!: okay_pe_at okay_pe_upd_quiet split: option.splits simp: not_less)

end
