(* ===== verification/Sample.thy ===== *)
theory Sample
  imports Heap_Rules
begin

text \<open>
  A concrete interface, on which the theorems with hypotheses about the interface are applied: an
  operating system and a libdroplet that always answer the same. The world is one number, which
  counts the seconds slept; \<open>still\<close> leaves the kind of world open. \<open>sample rc\<close> has remote calls that answer \<open>rc\<close>; dictionaries are
  association lists.
\<close>

type_synonym sample_dict = "(string \<times> string) list"

definition sample_pentry :: pentry where
  "sample_pentry =
     \<lparr>fd = -1, path = None, digest = [], metadata = NULL, md_mutex = False, mutex = False,
      refcount = 0, flag = FLAG_DIRTY, exclude = False, filetype = FILE_REG, dirent = [],
      ondisk = FILE_UNSET, atime = 0\<rparr>"

definition sample_stat :: stat where
  "sample_stat = \<lparr>st_mode = 0x81A4, st_nlink = 1, st_size = 5, st_uid = 7, st_gid = 8,
                 st_atime = 100, st_mtime = 200, st_ctime = 300\<rparr>"

definition still :: "(u32 \<Rightarrow> 'w \<Rightarrow> unit \<times> 'w) \<Rightarrow> dpl_status \<Rightarrow> ('w, sample_dict) env" where
  "still sleep rc =
     \<lparr>malloc_ok = (\<lambda>w. (True, w)),
      init_rc = (\<lambda>w. (0, w)),
      pthread_rc = (\<lambda>w. (0, w)),
      junk = (\<lambda>w. sample_pentry),
      s_time = (\<lambda>w. (1000, w)),
      s_sleep = sleep,
      s_open = (\<lambda>p fl w. (Inr 3, w)),
      s_close = (\<lambda>f w. (Inr (), w)),
      s_unlink = (\<lambda>p w. (Inr (), w)),
      s_access = (\<lambda>p w. (Inl ENOENT, w)),
      s_mkdir = (\<lambda>p w. (Inr (), w)),
      s_stat = (\<lambda>p w. (Inr (), w)),
      s_fstat = (\<lambda>f w. (Inr sample_stat, w)),
      s_fchmod = (\<lambda>f m w. (Inr (), w)),
      s_read = (\<lambda>f n w. (Inr [], w)),
      s_write = (\<lambda>f bs w. (Inr (length bs), w)),
      s_pread = (\<lambda>f n off w. (Inr (replicate (min n 3) 0), w)),
      s_pwrite = (\<lambda>f bs off w. (Inr (length bs), w)),
      s_rewind = (\<lambda>f w. (Inr (), w)),
      s_fsync = (\<lambda>f w. (Inr (), w)),
      s_rename = (\<lambda>p q w. (Inr (), w)),
      s_umask = (\<lambda>m w. (18, w)),
      s_fopen = (\<lambda>p m w. (Inr 4, w)),
      s_fclose = (\<lambda>f w. (Inr (), w)),
      s_fileno = (\<lambda>f w. (Inr f, w)),
      s_fread = (\<lambda>f n w. (([], False, True), w)),
      s_fwrite = (\<lambda>f bs w. (True, w)),
      z_init = (\<lambda>c l w. ((Z_OK, 0), w)),
      z_step = (\<lambda>z fl bs n w. ((Z_STREAM_END, [], take n bs), w)),
      z_end = (\<lambda>z w. ((), w)),
      s_uid = 1000,
      s_gid = 1000,
      s_regcomp = (\<lambda>p. True),
      s_regexec = (\<lambda>rx s. rx = s),
      s_getenv = (\<lambda>k. None),
      s_lines = (\<lambda>p. None),
      loop_fuel = Suc (Suc (Suc 0)),
      dict_new = [],
      dict_get = (\<lambda>d k. map_of d k),
      dict_update = (\<lambda>d k v w. ((DPL_SUCCESS, AList.update k v d), w)),
      dict_add = (\<lambda>d k v w. ((DPL_SUCCESS, AList.update k v d), w)),
      dict_copy = (\<lambda>d e w. ((DPL_SUCCESS, AList.merge d e), w)),
      status_code = (\<lambda>st. case st of DPL_SUCCESS \<Rightarrow> 0 | DPL_FAILURE \<Rightarrow> -1 | DPL_ENOENT \<Rightarrow> -2
                          | DPL_EINVAL \<Rightarrow> -3 | DPL_EISDIR \<Rightarrow> -4 | DPL_OTHER n \<Rightarrow> - int n - 5),
      dpl_cwd = ''cwd'',
      junk_ino = [],
      dpl_namei = (\<lambda>p i w. ((rc, DPL_FTYPE_REG, ''obj''), w)),
      dpl_getattr = (\<lambda>p w. ((rc, if rc = DPL_SUCCESS then Some [(''size'', ''5'')] else None), w)),
      dpl_setattr = (\<lambda>p d w. ((rc, ()), w)),
      dpl_mknod = (\<lambda>p w. ((rc, ()), w)),
      dpl_mkdir = (\<lambda>p w. ((rc, ()), w)),
      dpl_unlink = (\<lambda>p w. ((rc, ()), w)),
      dpl_rmdir = (\<lambda>p w. ((rc, ()), w)),
      dpl_fcopy = (\<lambda>p q w. ((rc, ()), w)),
      dpl_chdir = (\<lambda>p w. ((rc, ()), w)),
      dpl_opendir = (\<lambda>p w. ((rc, 1), w)),
      dpl_readdir = (\<lambda>h w. (None, w)),
      dpl_closedir = (\<lambda>h w. ((), w)),
      dpl_head_all = (\<lambda>r w. ((rc, if rc = DPL_SUCCESS then Some [] else None), w)),
      dpl_get_metadata_from_headers = (\<lambda>h m w. ((DPL_SUCCESS, m), w)),
      dpl_openread = (\<lambda>p enc w. (([], \<lambda>ok. (rc, None)), w)),
      dpl_openwrite = (\<lambda>p enc d n w. ((rc, 1), w)),
      dpl_write = (\<lambda>v bs w. ((rc, ()), w)),
      dpl_close = (\<lambda>v w. ((rc, ()), w))\<rparr>"

definition sample :: "dpl_status \<Rightarrow> (nat, sample_dict) env" where
  "sample = still (\<lambda>d w. ((), w + unat d))"

lemma sample_simps [simp]:
  "malloc_ok (sample rc) = (\<lambda>w. (True, w))"
  "init_rc (sample rc) = (\<lambda>w. (0, w))"
  "pthread_rc (sample rc) = (\<lambda>w. (0, w))"
  "junk (sample rc) = (\<lambda>w. sample_pentry)"
  "s_time (sample rc) = (\<lambda>w. (1000, w))"
  "s_sleep (sample rc) = (\<lambda>d w. ((), w + unat d))"
  "s_open (sample rc) = (\<lambda>p fl w. (Inr 3, w))"
  "s_close (sample rc) = (\<lambda>f w. (Inr (), w))"
  "s_unlink (sample rc) = (\<lambda>p w. (Inr (), w))"
  "s_access (sample rc) = (\<lambda>p w. (Inl ENOENT, w))"
  "s_mkdir (sample rc) = (\<lambda>p w. (Inr (), w))"
  "s_stat (sample rc) = (\<lambda>p w. (Inr (), w))"
  "s_fstat (sample rc) = (\<lambda>f w. (Inr sample_stat, w))"
  "s_fchmod (sample rc) = (\<lambda>f m w. (Inr (), w))"
  "s_read (sample rc) = (\<lambda>f n w. (Inr [], w))"
  "s_write (sample rc) = (\<lambda>f bs w. (Inr (length bs), w))"
  "s_pread (sample rc) = (\<lambda>f n off w. (Inr (replicate (min n 3) 0), w))"
  "s_pwrite (sample rc) = (\<lambda>f bs off w. (Inr (length bs), w))"
  "s_rewind (sample rc) = (\<lambda>f w. (Inr (), w))"
  "s_fsync (sample rc) = (\<lambda>f w. (Inr (), w))"
  "s_rename (sample rc) = (\<lambda>p q w. (Inr (), w))"
  "s_umask (sample rc) = (\<lambda>m w. (18, w))"
  "s_fopen (sample rc) = (\<lambda>p m w. (Inr 4, w))"
  "s_fclose (sample rc) = (\<lambda>f w. (Inr (), w))"
  "s_fileno (sample rc) = (\<lambda>f w. (Inr f, w))"
  "s_fread (sample rc) = (\<lambda>f n w. (([], False, True), w))"
  "s_fwrite (sample rc) = (\<lambda>f bs w. (True, w))"
  "z_init (sample rc) = (\<lambda>c l w. ((Z_OK, 0), w))"
  "z_step (sample rc) = (\<lambda>z fl bs n w. ((Z_STREAM_END, [], take n bs), w))"
  "z_end (sample rc) = (\<lambda>z w. ((), w))"
  "s_uid (sample rc) = 1000"
  "s_gid (sample rc) = 1000"
  "s_regcomp (sample rc) = (\<lambda>p. True)"
  "s_getenv (sample rc) = (\<lambda>k. None)"
  "s_lines (sample rc) = (\<lambda>p. None)"
  "s_regexec (sample rc) = (\<lambda>rx s. rx = s)"
  "loop_fuel (sample rc) = Suc (Suc (Suc 0))"
  "dict_new (sample rc) = []"
  "dict_get (sample rc) = (\<lambda>d k. map_of d k)"
  "dict_update (sample rc) = (\<lambda>d k v w. ((DPL_SUCCESS, AList.update k v d), w))"
  "dict_add (sample rc) = (\<lambda>d k v w. ((DPL_SUCCESS, AList.update k v d), w))"
  "dict_copy (sample rc) = (\<lambda>d e w. ((DPL_SUCCESS, AList.merge d e), w))"
  "status_code (sample rc) = (\<lambda>st. case st of DPL_SUCCESS \<Rightarrow> 0 | DPL_FAILURE \<Rightarrow> -1 | DPL_ENOENT \<Rightarrow> -2 | DPL_EINVAL \<Rightarrow> -3 | DPL_EISDIR \<Rightarrow> -4 | DPL_OTHER n \<Rightarrow> - int n - 5)"
  "dpl_cwd (sample rc) = ''cwd''"
  "junk_ino (sample rc) = []"
  "dpl_namei (sample rc) = (\<lambda>p i w. ((rc, DPL_FTYPE_REG, ''obj''), w))"
  "dpl_getattr (sample rc) = (\<lambda>p w. ((rc, if rc = DPL_SUCCESS then Some [(''size'', ''5'')] else None), w))"
  "dpl_setattr (sample rc) = (\<lambda>p d w. ((rc, ()), w))"
  "dpl_mknod (sample rc) = (\<lambda>p w. ((rc, ()), w))"
  "dpl_mkdir (sample rc) = (\<lambda>p w. ((rc, ()), w))"
  "dpl_unlink (sample rc) = (\<lambda>p w. ((rc, ()), w))"
  "dpl_rmdir (sample rc) = (\<lambda>p w. ((rc, ()), w))"
  "dpl_fcopy (sample rc) = (\<lambda>p q w. ((rc, ()), w))"
  "dpl_chdir (sample rc) = (\<lambda>p w. ((rc, ()), w))"
  "dpl_opendir (sample rc) = (\<lambda>p w. ((rc, 1), w))"
  "dpl_readdir (sample rc) = (\<lambda>h w. (None, w))"
  "dpl_closedir (sample rc) = (\<lambda>h w. ((), w))"
  "dpl_head_all (sample rc) = (\<lambda>r w. ((rc, if rc = DPL_SUCCESS then Some [] else None), w))"
  "dpl_get_metadata_from_headers (sample rc) = (\<lambda>h m w. ((DPL_SUCCESS, m), w))"
  "dpl_openread (sample rc) = (\<lambda>p enc w. (([], \<lambda>ok. (rc, None)), w))"
  "dpl_openwrite (sample rc) = (\<lambda>p enc d n w. ((rc, 1), w))"
  "dpl_write (sample rc) = (\<lambda>v bs w. ((rc, ()), w))"
  "dpl_close (sample rc) = (\<lambda>v w. ((rc, ()), w))"
  by (simp_all only: sample_def still_def env.simps sys_ops.simps)

definition sample_conf :: conf where
  "sample_conf =
     \<lparr>root_dir = CLit ''/mnt'', cache_dir = CLit ''/tmp'', compression_method = CLit ''none'',
      zlib_level = 3, gc_loop_delay = 60, gc_age_threshold = 900, sc_loop_delay = 120,
      sc_age_threshold = 3600, max_retry = 2, log_level = 3, cache_max_size = 100000000,
      regex = \<lparr>re_str = CNull, re_rx = None, re_set = False\<rparr>, encryption_method = CLit ''none'',
      debug = 0, profiling = 0, profiling_logfile = CLit ''/tmp/prof''\<rparr>"

text \<open>The state after mounting: no entry.\<close>

definition sample_state :: "(nat, sample_dict) state" where
  "sample_state = \<lparr>hash = [], pes = Map.empty, dicts = Map.empty, nxt = 1, cfg = sample_conf, world = 0\<rparr>"

text \<open>An open file: one entry, at address 1, open and locked, with the metadata at address 2.\<close>

definition sample_open :: "(nat, sample_dict) state" where
  "sample_open =
     \<lparr>hash = [(''/f'', 1)],
      pes = [1 \<mapsto> sample_pentry\<lparr>fd := 3, path := Some ''/f'', metadata := 2, mutex := True,
                              refcount := 1, ondisk := FILE_LOCAL\<rparr>],
      dicts = [2 \<mapsto> [(''size'', ''5'')]], nxt = 3, cfg = sample_conf, world = 0\<rparr>"

lemma sample_inv [simp]: "heap_inv sample_state" "heap_inv sample_open"
  by (auto simp: heap_inv_def table_ok_def heap_ok_def metadata_ok_def md_of_def path_of_def
    sample_state_def sample_open_def sample_pentry_def split: if_splits)

lemma sample_open_view [simp]:
  "v_ent (view sample_open) = {1}" "v_loose (view sample_open) = {}"
  "v_tbl (view sample_open) = [''/f'' \<mapsto> 1]" "v_ref (view sample_open) 1 = 1"
  "v_lock (view sample_open) 1"
  by (auto simp: view_simps sample_open_def sample_pentry_def owned_def md_of_def split: if_splits
    intro!: exI [of _ 1])

lemma sample_inits [simp]: "inits_ok (sample rc)"
  by (simp add: inits_ok_def)

end
