(* ===== verification/Timeout.thy ===== *)
theory Timeout
  imports Sample
begin

text \<open>
  \<^verbatim>\<open>src/timeout.c\<close>: the calls of libdroplet that are tried again, with a delay that doubles,
  until they succeed, fail for good, or have been tried \<^verbatim>\<open>max_retry\<close> times more. The eleven
  functions are one loop with different stop conditions; the locale \<open>retried\<close> says once what the
  loop guarantees and is interpreted for each of them.
\<close>

section \<open>The loop\<close>

text \<open>
  \<open>again\<close> is the condition of the outer \<^verbatim>\<open>if\<close>s on the status, \<open>att\<close> one call: from what
  the out-parameters hold, the status and what they hold afterwards. The body of the retry is the
  macro \<^verbatim>\<open>ERR_TIMEOUT\<close>.
\<close>

function retry ::
  "('w, 'd) env \<Rightarrow> int \<Rightarrow> (dpl_status \<Rightarrow> bool) \<Rightarrow>
    ('a \<Rightarrow> ('w, 'd) state \<Rightarrow> (dpl_status \<times> 'a \<times> ('w, 'd) state) outcome) \<Rightarrow>
    int \<Rightarrow> u32 \<Rightarrow> 'a \<Rightarrow> ('w, 'd) state \<Rightarrow> (dpl_status \<times> 'a \<times> ('w, 'd) state) outcome"
where
  "retry E limit again att tries delay x s =
     obind (att x s) (\<lambda>(rc, y, s).
     if again rc \<and> tries < limit then
       call (s_sleep E delay) s (\<lambda>_ s. retry E limit again att (tries + 1) (delay * 2) y s)
     else Ret (rc, y, s))"
  by pat_completeness auto
termination
  by (relation "measure (\<lambda>(E, limit, again, att, tries, delay, x, s). nat (limit - tries))") auto

declare retry.simps [simp del]

text \<open>A call whose only effect is on the world.\<close>

definition plain ::
  "('w \<Rightarrow> (dpl_status \<times> 'a) \<times> 'w) \<Rightarrow> 'a \<Rightarrow> ('w, 'd) state \<Rightarrow>
    (dpl_status \<times> 'a \<times> ('w, 'd) state) outcome"
where
  "plain f x s = call f s (\<lambda>(rc, y) s. Ret (rc, y, s))"

text \<open>A call that stores a dictionary through a \<^verbatim>\<open>dpl_dict_t **\<close> when it has one.\<close>

definition plain_dict ::
  "('w \<Rightarrow> (dpl_status \<times> 'd option) \<times> 'w) \<Rightarrow> addr \<Rightarrow> ('w, 'd) state \<Rightarrow>
    (dpl_status \<times> addr \<times> ('w, 'd) state) outcome"
where
  "plain_dict f x s =
     call f s (\<lambda>(rc, m) s.
     case m of None \<Rightarrow> Ret (rc, x, s) | Some d \<Rightarrow> (case dict_store d s of (a, s) \<Rightarrow> Ret (rc, a, s)))"

abbreviation max_tries :: "('w, 'd) state \<Rightarrow> int" where
  "max_tries s \<equiv> sint (max_retry (cfg s))"

section \<open>The functions\<close>

definition retry_getattr :: "dpl_status \<Rightarrow> bool" where
  "retry_getattr rc \<longleftrightarrow> (rc \<noteq> DPL_SUCCESS \<and> rc \<noteq> DPL_EISDIR) \<and> rc \<noteq> DPL_ENOENT"

definition dfs_getattr_timeout ::
  "('w, 'd) env \<Rightarrow> string \<Rightarrow> addr \<Rightarrow> ('w, 'd) state \<Rightarrow> (dpl_status \<times> addr \<times> ('w, 'd) state) outcome"
where
  "dfs_getattr_timeout E pth md s =
     retry E (max_tries s) retry_getattr (plain_dict (dpl_getattr E pth)) 0 1 md s"

definition retry_setattr :: "dpl_status \<Rightarrow> bool" where
  "retry_setattr rc \<longleftrightarrow> rc \<noteq> DPL_SUCCESS \<and> rc \<noteq> DPL_EISDIR"

definition setattr_attempt ::
  "('w, 'd) env \<Rightarrow> string \<Rightarrow> addr \<Rightarrow> unit \<Rightarrow> ('w, 'd) state \<Rightarrow>
    (dpl_status \<times> unit \<times> ('w, 'd) state) outcome"
where
  "setattr_attempt E pth md x s = obind (dict_at md s) (\<lambda>d. plain (dpl_setattr E pth d) x s)"

definition dfs_setattr_timeout ::
  "('w, 'd) env \<Rightarrow> string \<Rightarrow> addr \<Rightarrow> ('w, 'd) state \<Rightarrow> (dpl_status \<times> unit \<times> ('w, 'd) state) outcome"
where
  "dfs_setattr_timeout E pth md s =
     retry E (max_tries s) retry_setattr (setattr_attempt E pth md) 0 1 () s"

definition retry_mknod :: "dpl_status \<Rightarrow> bool" where
  "retry_mknod rc \<longleftrightarrow> rc \<noteq> DPL_SUCCESS"

definition dfs_mknod_timeout ::
  "('w, 'd) env \<Rightarrow> string \<Rightarrow> ('w, 'd) state \<Rightarrow> (dpl_status \<times> unit \<times> ('w, 'd) state) outcome"
where
  "dfs_mknod_timeout E pth s = retry E (max_tries s) retry_mknod (plain (dpl_mknod E pth)) 0 1 () s"

text \<open>The condition of seven of the functions.\<close>

definition retry_enoent :: "dpl_status \<Rightarrow> bool" where
  "retry_enoent rc \<longleftrightarrow> rc \<noteq> DPL_SUCCESS \<and> rc \<noteq> DPL_ENOENT"

definition dfs_mkdir_timeout ::
  "('w, 'd) env \<Rightarrow> string \<Rightarrow> ('w, 'd) state \<Rightarrow> (dpl_status \<times> unit \<times> ('w, 'd) state) outcome"
where
  "dfs_mkdir_timeout E pth s = retry E (max_tries s) retry_enoent (plain (dpl_mkdir E pth)) 0 1 () s"

definition dfs_unlink_timeout ::
  "('w, 'd) env \<Rightarrow> string \<Rightarrow> ('w, 'd) state \<Rightarrow> (dpl_status \<times> unit \<times> ('w, 'd) state) outcome"
where
  "dfs_unlink_timeout E pth s = retry E (max_tries s) retry_enoent (plain (dpl_unlink E pth)) 0 1 () s"

definition dfs_rmdir_timeout ::
  "('w, 'd) env \<Rightarrow> string \<Rightarrow> ('w, 'd) state \<Rightarrow> (dpl_status \<times> unit \<times> ('w, 'd) state) outcome"
where
  "dfs_rmdir_timeout E pth s = retry E (max_tries s) retry_enoent (plain (dpl_rmdir E pth)) 0 1 () s"

definition dfs_fcopy_timeout ::
  "('w, 'd) env \<Rightarrow> string \<Rightarrow> string \<Rightarrow> ('w, 'd) state \<Rightarrow> (dpl_status \<times> unit \<times> ('w, 'd) state) outcome"
where
  "dfs_fcopy_timeout E old new s =
     retry E (max_tries s) retry_enoent (plain (dpl_fcopy E old new)) 0 1 () s"

definition retry_chdir :: "dpl_status \<Rightarrow> bool" where
  "retry_chdir rc \<longleftrightarrow> rc \<noteq> DPL_SUCCESS \<and> rc \<noteq> DPL_EINVAL"

definition dfs_chdir_timeout ::
  "('w, 'd) env \<Rightarrow> string \<Rightarrow> ('w, 'd) state \<Rightarrow> (dpl_status \<times> unit \<times> ('w, 'd) state) outcome"
where
  "dfs_chdir_timeout E pth s = retry E (max_tries s) retry_chdir (plain (dpl_chdir E pth)) 0 1 () s"

text \<open>\<open>hdl\<close> is what the caller's handle variable holds before the call.\<close>

definition dfs_opendir_timeout ::
  "('w, 'd) env \<Rightarrow> string \<Rightarrow> nat \<Rightarrow> ('w, 'd) state \<Rightarrow> (dpl_status \<times> nat \<times> ('w, 'd) state) outcome"
where
  "dfs_opendir_timeout E pth hdl s =
     retry E (max_tries s) retry_enoent (plain (dpl_opendir E pth)) 0 1 hdl s"

text \<open>
  \<open>refs\<close>: neither \<^verbatim>\<open>parent_ino\<close> nor \<^verbatim>\<open>obj_ino\<close> is NULL. The trace of every attempt
  reads both when the level is \<^verbatim>\<open>LOG_DEBUG\<close>. The type and the inode are what the caller's
  variables hold; a caller that passes NULL does not use them.
\<close>

definition namei_attempt ::
  "('w, 'd) env \<Rightarrow> string \<Rightarrow> ino \<Rightarrow> bool \<Rightarrow> dpl_ftype \<times> ino \<Rightarrow> ('w, 'd) state \<Rightarrow>
    (dpl_status \<times> (dpl_ftype \<times> ino) \<times> ('w, 'd) state) outcome"
where
  "namei_attempt E pth ino refs x s =
     obind (plain (dpl_namei E pth ino) x s) (\<lambda>(rc, y, s).
     if log_debug s \<and> \<not> refs then Stuck NullDeref else Ret (rc, y, s))"

definition dfs_namei_timeout ::
  "('w, 'd) env \<Rightarrow> string \<Rightarrow> ino \<Rightarrow> bool \<Rightarrow> dpl_ftype \<times> ino \<Rightarrow> ('w, 'd) state \<Rightarrow>
    (dpl_status \<times> (dpl_ftype \<times> ino) \<times> ('w, 'd) state) outcome"
where
  "dfs_namei_timeout E pth ino refs x s =
     retry E (max_tries s) retry_enoent (namei_attempt E pth ino refs) 0 1 x s"

definition dfs_head_all_timeout ::
  "('w, 'd) env \<Rightarrow> string \<Rightarrow> addr \<Rightarrow> ('w, 'd) state \<Rightarrow> (dpl_status \<times> addr \<times> ('w, 'd) state) outcome"
where
  "dfs_head_all_timeout E resource md s =
     retry E (max_tries s) retry_enoent (plain_dict (dpl_head_all E resource)) 0 1 md s"

section \<open>What the loop does\<close>

text \<open>
  \<open>attempts E again att k n x s rc y t\<close>: from \<open>x\<close> and \<open>s\<close>, \<open>n\<close> calls whose status is tried
  again, the \<open>i\<close>th followed by a sleep of \<open>2 ^ (k + i)\<close> seconds, and then one call that answers
  \<open>rc\<close> and leaves \<open>y\<close> and \<open>t\<close>.
\<close>

inductive attempts ::
  "('w, 'd) env \<Rightarrow> (dpl_status \<Rightarrow> bool) \<Rightarrow>
    ('a \<Rightarrow> ('w, 'd) state \<Rightarrow> (dpl_status \<times> 'a \<times> ('w, 'd) state) outcome) \<Rightarrow>
    nat \<Rightarrow> nat \<Rightarrow> 'a \<Rightarrow> ('w, 'd) state \<Rightarrow> dpl_status \<Rightarrow> 'a \<Rightarrow> ('w, 'd) state \<Rightarrow> bool"
  for E again att
where
  attempt_last: "att x s = Ret (rc, y, t) \<Longrightarrow> attempts E again att k 0 x s rc y t"
| attempt_more:
    "att x s = Ret (rc, y, s1) \<Longrightarrow> again rc \<Longrightarrow> s_sleep E (2 ^ k) (world s1) = (u, w) \<Longrightarrow>
     attempts E again att (Suc k) n y (s1\<lparr>world := w\<rparr>) rc' z t \<Longrightarrow>
     attempts E again att k (Suc n) x s rc' z t"

inductive_simps attempts_0: "attempts E again att k 0 x s rc y t"
inductive_simps attempts_Suc: "attempts E again att k (Suc n) x s rc y t"

lemma retry_from:
  assumes "retry E limit again att (int k) (2 ^ k) x s = Ret (rc, y, t)"
  shows "\<exists>n. (n = 0 \<or> int (k + n) \<le> limit) \<and> attempts E again att k n x s rc y t \<and>
    (again rc \<longrightarrow> limit \<le> int (k + n))"
  using assms
proof (induction "nat (limit - int k)" arbitrary: k x s rule: less_induct)
  case less
  obtain rc1 y1 s1 where a: "att x s = Ret (rc1, y1, s1)"
    using less.prems by (subst (asm) retry.simps) (cases "att x s", auto)
  show ?case
  proof (cases "again rc1 \<and> int k < limit")
    case False
    then have "rc1 = rc \<and> y1 = y \<and> s1 = t"
      using less.prems by (subst (asm) retry.simps) (auto simp: a split: if_splits)
    then show ?thesis using False a by (intro exI [of _ 0]) (auto intro: attempt_last)
  next
    case True
    obtain u w where w: "s_sleep E (2 ^ k) (world s1) = (u, w)" by (cases "s_sleep E (2 ^ k) (world s1)")
    have "retry E limit again att (int (Suc k)) (2 ^ Suc k) y1 (s1\<lparr>world := w\<rparr>) = Ret (rc, y, t)"
      using less.prems True
      by (subst (asm) retry.simps) (simp add: a call_def w add.commute mult.commute)
    from less.hyps [OF _ this] True obtain n where
      n: "n = 0 \<or> int (Suc k + n) \<le> limit" "attempts E again att (Suc k) n y1 (s1\<lparr>world := w\<rparr>) rc y t"
        "again rc \<longrightarrow> limit \<le> int (Suc k + n)"
      by auto
    have "attempts E again att k (Suc n) x s rc y t"
      using a True w n(2) by (blast intro: attempt_more)
    then show ?thesis using n(1,3) True by (intro exI [of _ "Suc n"]) auto
  qed
qed

lemma retry_returns:
  assumes "\<And>x s. \<exists>r. att x s = Ret r"
  shows "\<exists>r. retry E limit again att tries delay x s = Ret r"
proof (induction "nat (limit - tries)" arbitrary: tries delay x s rule: less_induct)
  case less
  obtain rc y t where a: "att x s = Ret (rc, y, t)" using assms [of x s] by (metis prod_cases3)
  show ?case
    using less [of "tries + 1" "delay * 2" y] a
    by (subst retry.simps) (auto simp: call_def split: prod.splits)
qed

text \<open>Every attempt keeps an invariant, so the loop does.\<close>

lemma okay_retry:
  assumes "\<And>x s. P x s \<Longrightarrow> okay (att x s) (\<lambda>(rc, y, t). if again rc then P y t else Q (rc, y, t))"
    and "\<And>x s w. P x s \<Longrightarrow> P x (s\<lparr>world := w\<rparr>)"
    and "\<And>rc x s. P x s \<Longrightarrow> again rc \<Longrightarrow> Q (rc, x, s)"
    and "P x s"
  shows "okay (retry E limit again att tries delay x s) Q"
  using assms(4)
proof (induction "nat (limit - tries)" arbitrary: tries delay x s rule: less_induct)
  case less
  show ?case
    unfolding retry.simps [of E limit again att tries delay x s] okay_obind
  proof (rule okay_mono [OF assms(1) [OF less.prems]], clarify)
    fix rc y t
    assume r: "if again rc then P y t else Q (rc, y, t)"
    have "okay (retry E limit again att (tries + 1) (delay * 2) y (t\<lparr>world := w\<rparr>)) Q"
      if "tries < limit" "again rc" for w
      using less.hyps [of "tries + 1" y "t\<lparr>world := w\<rparr>" "delay * 2"] assms(2) [of y t] r that by simp
    then show "okay (if again rc \<and> tries < limit
      then call (s_sleep E delay) t (\<lambda>_ s. retry E limit again att (tries + 1) (delay * 2) y s)
      else Ret (rc, y, t)) Q"
      using r assms(3) [of y t rc] by (cases "again rc") (auto intro: okay_call)
  qed
qed

text \<open>A call that only changes the world.\<close>

lemma okay_plain:
  "(\<And>rc y w. Q (rc, y, s\<lparr>world := w\<rparr>)) \<Longrightarrow> okay (plain f x s) Q"
  by (auto simp: plain_def intro!: okay_call)

lemma okay_retry_plain:
  assumes "\<And>rc y w. Q (rc, y, s\<lparr>world := w\<rparr>)"
  shows "okay (retry E limit again (plain f) tries delay x s) Q"
proof (rule okay_retry [where P = "\<lambda>_ t. \<exists>w. t = s\<lparr>world := w\<rparr>"])
  show "\<exists>w. s = s\<lparr>world := w\<rparr>" by (rule exI [of _ "world s"]) simp
qed (use assms in \<open>auto intro!: okay_plain\<close>)

section \<open>The interface of the eleven functions\<close>

locale retried =
  fixes E :: "('w, 'd) env"
    and again :: "dpl_status \<Rightarrow> bool"
    and att :: "'a \<Rightarrow> ('w, 'd) state \<Rightarrow> (dpl_status \<times> 'a \<times> ('w, 'd) state) outcome"
    and run :: "'a \<Rightarrow> ('w, 'd) state \<Rightarrow> (dpl_status \<times> 'a \<times> ('w, 'd) state) outcome"
  assumes final: "\<not> again DPL_SUCCESS"
    and run: "run x s = retry E (max_tries s) again att 0 1 x s"
begin

lemma stops: "att x s = Ret (rc, y, t) \<Longrightarrow> \<not> again rc \<Longrightarrow> run x s = Ret (rc, y, t)"
  unfolding run by (subst retry.simps) simp

lemma returns:
  assumes "\<And>x s. \<exists>r. att x s = Ret r" shows "\<exists>rc y t. run x s = Ret (rc, y, t)"
  unfolding run using retry_returns [where att = att, OF assms] by (metis prod_cases3)

lemma success: "att x s = Ret (DPL_SUCCESS, y, t) \<Longrightarrow> run x s = Ret (DPL_SUCCESS, y, t)"
  using final by (rule stops [rotated])

lemma bounded:
  "run x s = Ret (rc, y, t) \<Longrightarrow>
    \<exists>n. (n = 0 \<or> int n \<le> max_tries s) \<and> attempts E again att 0 n x s rc y t \<and>
        (again rc \<longrightarrow> max_tries s \<le> int n)"
  unfolding run using retry_from [of E "max_tries s" again att 0 x s] by simp

lemma gives_up: "run x s = Ret (rc, y, t) \<Longrightarrow> again rc \<Longrightarrow> 0 \<le> max_tries s \<Longrightarrow>
    attempts E again att 0 (nat (max_tries s)) x s rc y t"
proof -
  assume a: "run x s = Ret (rc, y, t)" "again rc" "0 \<le> max_tries s"
  obtain n where n: "n = 0 \<or> int n \<le> max_tries s" "attempts E again att 0 n x s rc y t"
    "max_tries s \<le> int n" using bounded [OF a(1)] a(2) by blast
  then have "n = nat (max_tries s)" using a(3) by auto
  with n(2) show ?thesis by simp
qed

end

lemmas retry_conds = retry_getattr_def retry_setattr_def retry_mknod_def retry_enoent_def retry_chdir_def

interpretation getattr_r: retried E retry_getattr "plain_dict (dpl_getattr E pth)"
    "dfs_getattr_timeout E pth"
  by unfold_locales (simp_all add: retry_conds dfs_getattr_timeout_def)

interpretation setattr_r: retried E retry_setattr "setattr_attempt E pth md"
    "\<lambda>_. dfs_setattr_timeout E pth md"
  by unfold_locales (simp_all add: retry_conds dfs_setattr_timeout_def)

interpretation mknod_r: retried E retry_mknod "plain (dpl_mknod E pth)"
    "\<lambda>_. dfs_mknod_timeout E pth"
  by unfold_locales (simp_all add: retry_conds dfs_mknod_timeout_def)

interpretation mkdir_r: retried E retry_enoent "plain (dpl_mkdir E pth)"
    "\<lambda>_. dfs_mkdir_timeout E pth"
  by unfold_locales (simp_all add: retry_conds dfs_mkdir_timeout_def)

interpretation unlink_r: retried E retry_enoent "plain (dpl_unlink E pth)"
    "\<lambda>_. dfs_unlink_timeout E pth"
  by unfold_locales (simp_all add: retry_conds dfs_unlink_timeout_def)

interpretation rmdir_r: retried E retry_enoent "plain (dpl_rmdir E pth)"
    "\<lambda>_. dfs_rmdir_timeout E pth"
  by unfold_locales (simp_all add: retry_conds dfs_rmdir_timeout_def)

interpretation fcopy_r: retried E retry_enoent "plain (dpl_fcopy E old new)"
    "\<lambda>_. dfs_fcopy_timeout E old new"
  by unfold_locales (simp_all add: retry_conds dfs_fcopy_timeout_def)

interpretation chdir_r: retried E retry_chdir "plain (dpl_chdir E pth)"
    "\<lambda>_. dfs_chdir_timeout E pth"
  by unfold_locales (simp_all add: retry_conds dfs_chdir_timeout_def)

interpretation opendir_r: retried E retry_enoent "plain (dpl_opendir E pth)"
    "dfs_opendir_timeout E pth"
  by unfold_locales (simp_all add: retry_conds dfs_opendir_timeout_def)

interpretation namei_r: retried E retry_enoent "namei_attempt E pth ino refs"
    "dfs_namei_timeout E pth ino refs"
  by unfold_locales (simp_all add: retry_conds dfs_namei_timeout_def)

interpretation head_all_r: retried E retry_enoent "plain_dict (dpl_head_all E pth)"
    "dfs_head_all_timeout E pth"
  by unfold_locales (simp_all add: retry_conds dfs_head_all_timeout_def)

section \<open>Rules for the handlers\<close>

lemma okay_world_timeouts [okay_rule]:
  assumes "\<And>rc u w. Q (rc, u, s\<lparr>world := w\<rparr>)"
  shows "okay (dfs_mknod_timeout E pth s) Q" "okay (dfs_mkdir_timeout E pth s) Q"
    "okay (dfs_unlink_timeout E pth s) Q" "okay (dfs_rmdir_timeout E pth s) Q"
    "okay (dfs_fcopy_timeout E pth new s) Q" "okay (dfs_chdir_timeout E pth s) Q"
  unfolding dfs_mknod_timeout_def dfs_mkdir_timeout_def dfs_unlink_timeout_def
    dfs_rmdir_timeout_def dfs_fcopy_timeout_def dfs_chdir_timeout_def
  using assms by (intro okay_retry_plain; simp)+

lemma okay_opendir_timeout [okay_rule]:
  "(\<And>rc h w. Q (rc, h, s\<lparr>world := w\<rparr>)) \<Longrightarrow> okay (dfs_opendir_timeout E pth hdl s) Q"
  unfolding dfs_opendir_timeout_def by (rule okay_retry_plain)

lemma okay_namei_timeout [okay_rule]:
  assumes "refs \<or> \<not> log_debug s" "\<And>rc y w. Q (rc, y, s\<lparr>world := w\<rparr>)"
  shows "okay (dfs_namei_timeout E pth ino refs x s) Q"
  unfolding dfs_namei_timeout_def
proof (rule okay_retry [where P = "\<lambda>_ t. \<exists>w. t = s\<lparr>world := w\<rparr>"])
  show "\<exists>w. s = s\<lparr>world := w\<rparr>" by (rule exI [of _ "world s"]) simp
qed (use assms in \<open>auto simp: namei_attempt_def log_debug_def intro!: okay_plain\<close>)

lemma okay_setattr_timeout [okay_rule]:
  assumes "heap_inv s" "d \<in> v_loose (view s)" "\<And>rc u w. Q (rc, u, s\<lparr>world := w\<rparr>)"
  shows "okay (dfs_setattr_timeout E pth d s) Q"
  unfolding dfs_setattr_timeout_def
proof (rule okay_retry [where P = "\<lambda>_ t. \<exists>w. t = s\<lparr>world := w\<rparr>"])
  show "\<exists>w. s = s\<lparr>world := w\<rparr>" by (rule exI [of _ "world s"]) simp
qed (use assms in \<open>auto simp: setattr_attempt_def intro!: okay_dict_at okay_plain\<close>)

text \<open>
  What the code relies on when it tries a call again that hands out a dictionary, or drops its
  result: a call that failed has handed out none.
\<close>

definition clean_on :: "dpl_status set \<Rightarrow> ('w \<Rightarrow> (dpl_status \<times> 'd option) \<times> 'w) \<Rightarrow> bool" where
  "clean_on A f \<longleftrightarrow> (\<forall>w. fst (fst (f w)) \<notin> A \<longrightarrow> snd (fst (f w)) = None)"

lemma okay_retry_dict:
  assumes "heap_inv s" "clean_on A f" "\<And>rc. rc \<in> A \<Longrightarrow> \<not> again rc"
    and "\<And>rc s'. heap_inv s' \<Longrightarrow> view s' = view s \<Longrightarrow> Q (rc, NULL, s')"
    and "\<And>rc d s'. rc \<in> A \<Longrightarrow> heap_inv s' \<Longrightarrow> d \<noteq> NULL \<Longrightarrow> d \<notin> v_loose (view s) \<Longrightarrow>
      view s' = v_own d (view s) \<Longrightarrow> Q (rc, d, s')"
  shows "okay (retry E limit again (plain_dict f) tries delay NULL s) Q"
proof (rule okay_retry [where P = "\<lambda>x t. x = NULL \<and> heap_inv t \<and> view t = view s"])
  fix x and t :: "('a, 'b) state"
  assume p: "x = NULL \<and> heap_inv t \<and> view t = view s"
  have "if again rc then NULL = NULL \<and> heap_inv u \<and> view u = view s else Q (rc, NULL, u)"
    if "heap_inv u" "view u = view s" for rc and u :: "('a, 'b) state" using assms(4) that by simp
  moreover have "\<not> again rc \<and> Q (rc, d, u)"
    if "f (world t) = ((rc, Some c), w)" "dict_store c (t\<lparr>world := w\<rparr>) = (d, u)" for rc c w d u
  proof -
    have "rc \<in> A" using assms(2) that(1) unfolding clean_on_def by (metis fst_conv option.distinct(1) snd_conv)
    with assms(3,5) dict_store_rule [OF _ that(2)] p show ?thesis by simp
  qed
  ultimately show "okay (plain_dict f x t)
    (\<lambda>(rc, y, u). if again rc then y = NULL \<and> heap_inv u \<and> view u = view s else Q (rc, y, u))"
    using p by (auto simp: plain_dict_def intro!: okay_call split: option.splits prod.splits)
qed (use assms in auto)

definition dpl_clean :: "('w, 'd) env \<Rightarrow> bool" where
  "dpl_clean E \<longleftrightarrow> (\<forall>p. clean_on {DPL_SUCCESS, DPL_EISDIR} (dpl_getattr E p)) \<and>
     (\<forall>p. clean_on {DPL_SUCCESS} (dpl_head_all E p))"

lemma okay_getattr_timeout [okay_rule]:
  assumes "heap_inv s" "dpl_clean E"
    and "\<And>rc s'. heap_inv s' \<Longrightarrow> view s' = view s \<Longrightarrow> Q (rc, NULL, s')"
    and "\<And>rc d s'. rc \<in> {DPL_SUCCESS, DPL_EISDIR} \<Longrightarrow> heap_inv s' \<Longrightarrow> d \<noteq> NULL \<Longrightarrow>
      d \<notin> v_loose (view s) \<Longrightarrow> view s' = v_own d (view s) \<Longrightarrow> Q (rc, d, s')"
  shows "okay (dfs_getattr_timeout E pth NULL s) Q"
  unfolding dfs_getattr_timeout_def using assms
  by (intro okay_retry_dict [where A = "{DPL_SUCCESS, DPL_EISDIR}"])
    (auto simp: dpl_clean_def retry_getattr_def)

lemma okay_head_all_timeout [okay_rule]:
  assumes "heap_inv s" "dpl_clean E"
    and "\<And>rc s'. heap_inv s' \<Longrightarrow> view s' = view s \<Longrightarrow> Q (rc, NULL, s')"
    and "\<And>d s'. heap_inv s' \<Longrightarrow> d \<noteq> NULL \<Longrightarrow>
      d \<notin> v_loose (view s) \<Longrightarrow> view s' = v_own d (view s) \<Longrightarrow> Q (DPL_SUCCESS, d, s')"
  shows "okay (dfs_head_all_timeout E pth NULL s) Q"
  unfolding dfs_head_all_timeout_def using assms
  by (intro okay_retry_dict [where A = "{DPL_SUCCESS}"])
    (auto simp: dpl_clean_def retry_enoent_def)

section \<open>Properties\<close>

lemma plain_returns: "\<exists>r. plain f x s = Ret r" "\<exists>r. plain_dict g d s = Ret r"
  by (auto simp: plain_def plain_dict_def call_def split: prod.splits option.splits)


text \<open>
  Which failures are tried again. A missing object ends \<^verbatim>\<open>dfs_unlink_timeout\<close> after one
  call and without a sleep; \<^verbatim>\<open>dfs_mknod_timeout\<close> tries again after the same answer; and
  \<^verbatim>\<open>dfs_chdir_timeout\<close> treats \<^verbatim>\<open>DPL_EINVAL\<close> as final.
\<close>

theorem timeout_policy:
  assumes "dpl_unlink E p (world s) = ((DPL_ENOENT, u), w)"
    and "dpl_mknod E p (world s) = ((DPL_ENOENT, u'), w')"
    and "dpl_chdir E p (world s) = ((DPL_EINVAL, u''), w'')"
    and "0 < max_tries s"
  shows "dfs_unlink_timeout E p s = Ret (DPL_ENOENT, (), s\<lparr>world := w\<rparr>) \<and>
    dfs_chdir_timeout E p s = Ret (DPL_EINVAL, (), s\<lparr>world := w''\<rparr>) \<and>
    (\<forall>rc t. dfs_mknod_timeout E p s = Ret (rc, (), t) \<longrightarrow>
      (\<exists>n>0. attempts E retry_mknod (plain (dpl_mknod E p)) 0 n () s rc () t))"
proof (intro conjI allI impI)
  show "dfs_unlink_timeout E p s = Ret (DPL_ENOENT, (), s\<lparr>world := w\<rparr>)"
    using assms(1) by (intro unlink_r.stops) (simp_all add: plain_def call_def retry_enoent_def)
  show "dfs_chdir_timeout E p s = Ret (DPL_EINVAL, (), s\<lparr>world := w''\<rparr>)"
    using assms(3) by (intro chdir_r.stops) (simp_all add: plain_def call_def retry_chdir_def)
  fix rc t
  assume "dfs_mknod_timeout E p s = Ret (rc, (), t)"
  from mknod_r.bounded [OF this] obtain n where
    n: "attempts E retry_mknod (plain (dpl_mknod E p)) 0 n () s rc () t"
      "retry_mknod rc \<longrightarrow> max_tries s \<le> int n" by blast
  moreover have "n \<noteq> 0"
    using n assms(2,4) by (auto simp: attempts_0 plain_def call_def retry_mknod_def)
  ultimately show "\<exists>n>0. attempts E retry_mknod (plain (dpl_mknod E p)) 0 n () s rc () t" by blast
qed

lemma sample_state_simps [simp]:
  "world sample_state = 0" "cfg sample_state = sample_conf" "sample_state\<lparr>world := 0\<rparr> = sample_state"
  "hash sample_state = []" "pes sample_state = Map.empty" "dicts sample_state = Map.empty"
  by (simp_all add: sample_state_def)


definition sample_gone :: "(nat, sample_dict) env" where
  "sample_gone = (sample DPL_ENOENT)\<lparr>dpl_chdir := \<lambda>p w. ((DPL_EINVAL, ()), w)\<rparr>"

theorem timeout_policy_witness:
  "dfs_unlink_timeout sample_gone ''/f'' sample_state = Ret (DPL_ENOENT, (), sample_state) \<and>
    dfs_chdir_timeout sample_gone ''/f'' sample_state = Ret (DPL_EINVAL, (), sample_state)"
  using timeout_policy [of sample_gone "''/f''" sample_state "()" 0 "()" 0 "()" 0]
  by (simp add: sample_gone_def sample_conf_def)

end
