(* ===== verification/Zip.thy ===== *)
theory Zip
  imports Timeout
begin

text \<open>
  \<^verbatim>\<open>src/zip.c\<close>: the two loops that pump a file through zlib. A \<^verbatim>\<open>FILE *\<close> is a handle of
  the operating system, the stream a handle of zlib; \<open>z_step\<close> is one call of \<^verbatim>\<open>deflate\<close> or
  \<^verbatim>\<open>inflate\<close>. The number of iterations is up to the answers of both, so the loops have the
  fuel \<open>loop_fuel E\<close>; using it up is \<open>Diverges\<close>.
\<close>

definition CHUNK :: nat where "CHUNK = 16384"

section \<open>Compression\<close>

text \<open>
  The inner loop: until \<^verbatim>\<open>deflate\<close> leaves room in the output buffer. It ends with the last
  result and the input left, or with the value \<^verbatim>\<open>zip\<close> returns.
\<close>

fun zip_inner ::
  "nat \<Rightarrow> ('w, 'd) env \<Rightarrow> nat \<Rightarrow> zflush \<Rightarrow> byte list \<Rightarrow> int \<Rightarrow> ('w, 'd) state \<Rightarrow>
    ((zret + zret \<times> byte list) \<times> ('w, 'd) state) outcome"
where
  "zip_inner 0 E strm flush inp dst s = Stuck Diverges"
| "zip_inner (Suc n) E strm flush inp dst s =
     call (z_step E strm flush inp CHUNK) s (\<lambda>(ret, inp, out) s.
     if ret = Z_STREAM_ERROR then Stuck AssertFail
     else call (s_fwrite E dst out) s (\<lambda>ok s.
       if \<not> ok then call (z_end E strm) s (\<lambda>_ s. Ret (Inl Z_ERRNO, s))
       else if length out = CHUNK then zip_inner n E strm flush inp dst s
       else Ret (Inr (ret, inp), s)))"

fun zip_outer ::
  "nat \<Rightarrow> ('w, 'd) env \<Rightarrow> nat \<Rightarrow> int \<Rightarrow> int \<Rightarrow> ('w, 'd) state \<Rightarrow> (zret \<times> ('w, 'd) state) outcome"
where
  "zip_outer 0 E strm src dst s = Stuck Diverges"
| "zip_outer (Suc n) E strm src dst s =
     call (s_fread E src CHUNK) s (\<lambda>(inp, err, eof) s.
     if err then call (z_end E strm) s (\<lambda>_ s. Ret (Z_ERRNO, s))
     else let flush = (if eof then Z_FINISH else Z_NO_FLUSH) in
       obind (zip_inner (loop_fuel E) E strm flush inp dst s) (\<lambda>(r, s).
       case r of Inl e \<Rightarrow> Ret (e, s)
       | Inr (ret, left) \<Rightarrow>
           if left \<noteq> [] then Stuck AssertFail
           else if flush \<noteq> Z_FINISH then zip_outer n E strm src dst s
           else if ret \<noteq> Z_STREAM_END then Stuck AssertFail
           else call (z_end E strm) s (\<lambda>_ s. Ret (Z_OK, s))))"

definition zip ::
  "('w, 'd) env \<Rightarrow> int \<Rightarrow> int \<Rightarrow> u32 \<Rightarrow> ('w, 'd) state \<Rightarrow> (zret \<times> ('w, 'd) state) outcome"
where
  "zip E source dest level s =
     call (z_init E True level) s (\<lambda>(ret, strm) s.
     if ret \<noteq> Z_OK then Ret (ret, s) else zip_outer (loop_fuel E) E strm source dest s)"

section \<open>Decompression\<close>

text \<open>A result that ends \<^verbatim>\<open>unzip\<close>: the \<^verbatim>\<open>switch\<close> of the inner loop.\<close>

definition inflate_fatal :: "zret \<Rightarrow> zret option" where
  "inflate_fatal ret =
     (if ret = Z_NEED_DICT then Some Z_DATA_ERROR
      else if ret = Z_DATA_ERROR \<or> ret = Z_MEM_ERROR then Some ret else None)"

fun unzip_inner ::
  "nat \<Rightarrow> ('w, 'd) env \<Rightarrow> nat \<Rightarrow> byte list \<Rightarrow> int \<Rightarrow> ('w, 'd) state \<Rightarrow>
    ((zret + zret) \<times> ('w, 'd) state) outcome"
where
  "unzip_inner 0 E strm inp dst s = Stuck Diverges"
| "unzip_inner (Suc n) E strm inp dst s =
     call (z_step E strm Z_NO_FLUSH inp CHUNK) s (\<lambda>(ret, inp, out) s.
     if ret = Z_STREAM_ERROR then Stuck AssertFail
     else case inflate_fatal ret of
       Some e \<Rightarrow> call (z_end E strm) s (\<lambda>_ s. Ret (Inl e, s))
     | None \<Rightarrow>
       call (s_fwrite E dst out) s (\<lambda>ok s.
       if \<not> ok then call (z_end E strm) s (\<lambda>_ s. Ret (Inl Z_ERRNO, s))
       else if length out = CHUNK then unzip_inner n E strm inp dst s
       else Ret (Inr ret, s)))"

text \<open>\<open>ret\<close> is the variable \<^verbatim>\<open>ret\<close>, which the end of the loop and the final test read.\<close>

fun unzip_outer ::
  "nat \<Rightarrow> ('w, 'd) env \<Rightarrow> nat \<Rightarrow> zret \<Rightarrow> int \<Rightarrow> int \<Rightarrow> ('w, 'd) state \<Rightarrow>
    (zret \<times> ('w, 'd) state) outcome"
where
  "unzip_outer 0 E strm ret src dst s = Stuck Diverges"
| "unzip_outer (Suc n) E strm ret src dst s =
     call (s_fread E src CHUNK) s (\<lambda>(inp, err, eof) s.
     let finish = (\<lambda>ret s. call (z_end E strm) s (\<lambda>_ s.
           Ret (if ret = Z_STREAM_END then Z_OK else Z_DATA_ERROR, s)))
     in
     if err then call (z_end E strm) s (\<lambda>_ s. Ret (Z_ERRNO, s))
     else if inp = [] then finish ret s
     else obind (unzip_inner (loop_fuel E) E strm inp dst s) (\<lambda>(r, s).
       case r of Inl e \<Rightarrow> Ret (e, s)
       | Inr ret \<Rightarrow> if ret \<noteq> Z_STREAM_END then unzip_outer n E strm ret src dst s else finish ret s))"

definition unzip ::
  "('w, 'd) env \<Rightarrow> int \<Rightarrow> int \<Rightarrow> ('w, 'd) state \<Rightarrow> (zret \<times> ('w, 'd) state) outcome"
where
  "unzip E source dest s =
     call (z_init E False 0) s (\<lambda>(ret, strm) s.
     if ret \<noteq> Z_OK then Ret (ret, s) else unzip_outer (loop_fuel E) E strm ret source dest s)"

primrec zerr_to_str :: "zret \<Rightarrow> string outcome" where
  "zerr_to_str Z_ERRNO = Ret ''read/write error''"
| "zerr_to_str Z_STREAM_ERROR = Ret ''invalid compression level''"
| "zerr_to_str Z_DATA_ERROR = Ret ''invalid or incomplete deflate data''"
| "zerr_to_str Z_MEM_ERROR = Ret ''out of memory''"
| "zerr_to_str Z_VERSION_ERROR = Ret ''zlib version mismatch''"
| "zerr_to_str Z_OK = Stuck AssertFail"
| "zerr_to_str Z_STREAM_END = Stuck AssertFail"
| "zerr_to_str Z_NEED_DICT = Stuck AssertFail"
| "zerr_to_str Z_BUF_ERROR = Stuck AssertFail"

section \<open>The assertions\<close>

text \<open>
  What the comments of \<^verbatim>\<open>zip.c\<close> call zlib's guarantees. On a stream that is in use no call
  answers \<^verbatim>\<open>Z_STREAM_ERROR\<close>; \<^verbatim>\<open>deflate\<close> never writes more than its buffer holds, and when it
  leaves room in it, it has used all its input, and with \<^verbatim>\<open>Z_FINISH\<close> ended the stream; and the
  initialisation answers one of the errors that \<^verbatim>\<open>zerr_to_str\<close> knows.
\<close>

definition zlib_laws :: "('w, 'd) env \<Rightarrow> bool" where
  "zlib_laws E \<longleftrightarrow>
     (\<forall>z fl inp w. let (ret, left, out) = fst (z_step E z fl inp CHUNK w) in
        ret \<noteq> Z_STREAM_ERROR \<and>
        (length out \<noteq> CHUNK \<longrightarrow> left = [] \<and> (fl = Z_FINISH \<longrightarrow> ret = Z_STREAM_END))) \<and>
     (\<forall>c l w. fst (fst (z_init E c l w)) \<in> {Z_OK, Z_STREAM_ERROR, Z_MEM_ERROR, Z_VERSION_ERROR})"

definition zip_result :: "zret set" where
  "zip_result = {Z_OK, Z_ERRNO, Z_STREAM_ERROR, Z_DATA_ERROR, Z_MEM_ERROR, Z_VERSION_ERROR}"

text \<open>A result of \<^verbatim>\<open>zip\<close> or \<^verbatim>\<open>unzip\<close> in a state that differs in the world only.\<close>

definition zip_post :: "('w, 'd) state \<Rightarrow> zret set \<Rightarrow> zret \<times> ('w, 'd) state \<Rightarrow> bool" where
  "zip_post s R = (\<lambda>(r, t). r \<in> R \<and> (\<exists>w. t = s\<lparr>world := w\<rparr>))"

lemma zip_post_world [simp]: "zip_post (s\<lparr>world := w\<rparr>) R = zip_post s R"
  by (simp add: zip_post_def fun_eq_iff)

lemma zip_post_Ret [simp]: "zip_post s R (r, s\<lparr>world := w\<rparr>) \<longleftrightarrow> r \<in> R"
  by (auto simp: zip_post_def)

lemma zlib_step:
  assumes "zlib_laws E" "z_step E z fl inp CHUNK w = ((ret, left, out), w')"
  shows "ret \<noteq> Z_STREAM_ERROR"
    and "length out \<noteq> CHUNK \<Longrightarrow> left = []"
    and "length out \<noteq> CHUNK \<Longrightarrow> fl = Z_FINISH \<Longrightarrow> ret = Z_STREAM_END"
proof -
  have "let (ret, left, out) = fst (z_step E z fl inp CHUNK w) in
        ret \<noteq> Z_STREAM_ERROR \<and>
        (length out \<noteq> CHUNK \<longrightarrow> left = [] \<and> (fl = Z_FINISH \<longrightarrow> ret = Z_STREAM_END))"
    using assms(1) unfolding zlib_laws_def by blast
  then have "ret \<noteq> Z_STREAM_ERROR \<and>
        (length out \<noteq> CHUNK \<longrightarrow> left = [] \<and> (fl = Z_FINISH \<longrightarrow> ret = Z_STREAM_END))"
    unfolding assms(2) by simp
  then show "ret \<noteq> Z_STREAM_ERROR" "length out \<noteq> CHUNK \<Longrightarrow> left = []"
    "length out \<noteq> CHUNK \<Longrightarrow> fl = Z_FINISH \<Longrightarrow> ret = Z_STREAM_END"
    by simp_all
qed

lemma okay_zip_inner:
  assumes "zlib_laws E"
    and "\<And>w. Q (Inl Z_ERRNO, s\<lparr>world := w\<rparr>)"
    and "\<And>ret w. (fl = Z_FINISH \<Longrightarrow> ret = Z_STREAM_END) \<Longrightarrow> Q (Inr (ret, []), s\<lparr>world := w\<rparr>)"
  shows "okay (zip_inner n E z fl inp dst s) Q"
  using assms(2,3)
proof (induction n arbitrary: inp s)
  case (Suc n)
  show ?case
    unfolding zip_inner.simps
  proof (rule okay_call, clarify)
    fix ret left out w
    assume "z_step E z fl inp CHUNK (world s) = ((ret, left, out), w)"
    note z = zlib_step [OF assms(1) this]
    have "okay (zip_inner n E z fl left dst (s\<lparr>world := v\<rparr>)) Q" for v
      using Suc.prems by (intro Suc.IH) simp_all
    then show "okay (if ret = Z_STREAM_ERROR then Stuck AssertFail
      else call (s_fwrite E dst out) (s\<lparr>world := w\<rparr>) (\<lambda>ok s.
        if \<not> ok then call (z_end E z) s (\<lambda>_ s. Ret (Inl Z_ERRNO, s))
        else if length out = CHUNK then zip_inner n E z fl left dst s
        else Ret (Inr (ret, left), s))) Q"
      using z Suc.prems by (auto intro!: okay_call)
  qed
qed simp

lemma okay_zip_outer:
  "zlib_laws E \<Longrightarrow> okay (zip_outer n E z src dst s) (zip_post s {Z_OK, Z_ERRNO})"
proof (induction n arbitrary: s)
  case (Suc n)
  have "okay (zip_outer n E z src dst (s\<lparr>world := v\<rparr>)) (zip_post s {Z_OK, Z_ERRNO})" for v
    using Suc.IH [OF Suc.prems, of "s\<lparr>world := v\<rparr>"] by simp
  then show ?case
    by (auto intro!: okay_call okay_zip_inner [OF Suc.prems] simp: Let_def)
qed simp

lemma okay_unzip_inner:
  assumes "zlib_laws E"
    and "\<And>e w. e \<in> {Z_ERRNO, Z_DATA_ERROR, Z_MEM_ERROR} \<Longrightarrow> Q (Inl e, s\<lparr>world := w\<rparr>)"
    and "\<And>ret w. Q (Inr ret, s\<lparr>world := w\<rparr>)"
  shows "okay (unzip_inner n E z inp dst s) Q"
  using assms(2,3)
proof (induction n arbitrary: inp s)
  case (Suc n)
  show ?case
    unfolding unzip_inner.simps
  proof (rule okay_call, clarify)
    fix ret left out w
    assume "z_step E z Z_NO_FLUSH inp CHUNK (world s) = ((ret, left, out), w)"
    note z = zlib_step(1) [OF assms(1) this]
    have "okay (unzip_inner n E z left dst (s\<lparr>world := v\<rparr>)) Q" for v
      using Suc.prems by (intro Suc.IH) simp_all
    then show "okay (if ret = Z_STREAM_ERROR then Stuck AssertFail
      else case inflate_fatal ret of
        Some e \<Rightarrow> call (z_end E z) (s\<lparr>world := w\<rparr>) (\<lambda>_ s. Ret (Inl e, s))
      | None \<Rightarrow> call (s_fwrite E dst out) (s\<lparr>world := w\<rparr>) (\<lambda>ok s.
          if \<not> ok then call (z_end E z) s (\<lambda>_ s. Ret (Inl Z_ERRNO, s))
          else if length out = CHUNK then unzip_inner n E z left dst s
          else Ret (Inr ret, s))) Q"
      using z Suc.prems by (auto intro!: okay_call simp: inflate_fatal_def)
  qed
qed simp

lemma okay_unzip_outer:
  "zlib_laws E \<Longrightarrow>
    okay (unzip_outer n E z ret src dst s) (zip_post s {Z_OK, Z_ERRNO, Z_DATA_ERROR, Z_MEM_ERROR})"
proof (induction n arbitrary: ret s)
  case (Suc n)
  have "okay (unzip_outer n E z r src dst (s\<lparr>world := v\<rparr>))
    (zip_post s {Z_OK, Z_ERRNO, Z_DATA_ERROR, Z_MEM_ERROR})" for r v
    using Suc.IH [OF Suc.prems, of r "s\<lparr>world := v\<rparr>"] by simp
  then show ?case
    by (auto intro!: okay_call okay_unzip_inner [OF Suc.prems] simp: Let_def)
qed simp

lemma zlib_init:
  "zlib_laws E \<Longrightarrow> z_init E c l w = ((r, z), w') \<Longrightarrow> r \<in> {Z_OK, Z_STREAM_ERROR, Z_MEM_ERROR, Z_VERSION_ERROR}"
  unfolding zlib_laws_def by (metis fst_conv)

lemma okay_zip [okay_rule]:
  assumes "zlib_laws E" "\<And>r w. r \<in> zip_result \<Longrightarrow> Q (r, s\<lparr>world := w\<rparr>)"
  shows "okay (zip E src dst l s) Q" and "okay (unzip E src dst s) Q"
proof -
  have "okay (zip E src dst l s) (zip_post s zip_result)"
    unfolding zip_def
    by (auto intro!: okay_call okay_mono [OF okay_zip_outer [OF assms(1)]] dest!: zlib_init [OF assms(1)]
      simp: zip_result_def zip_post_def)
  then show "okay (zip E src dst l s) Q"
    by (rule okay_mono) (auto simp: zip_post_def intro: assms(2))
  have "okay (unzip E src dst s) (zip_post s zip_result)"
    unfolding unzip_def
    by (auto intro!: okay_call okay_mono [OF okay_unzip_outer [OF assms(1)]] dest!: zlib_init [OF assms(1)]
      simp: zip_result_def zip_post_def)
  then show "okay (unzip E src dst s) Q"
    by (rule okay_mono) (auto simp: zip_post_def intro: assms(2))
qed

text \<open>
  Under zlib's guarantees no assertion of \<^verbatim>\<open>zip\<close> or \<^verbatim>\<open>unzip\<close> fails; both leave everything but
  the files alone, and return 0 or an error that \<^verbatim>\<open>zerr_to_str\<close> has a text for, so that the
  callers that print the error do not run into its final assertion.
\<close>

theorem zip_no_assert:
  assumes "zlib_laws E"
  shows "okay (zip E src dst l s)
      (\<lambda>(r, t). (r = Z_OK \<or> (\<exists>m. zerr_to_str r = Ret m)) \<and> (\<exists>w. t = s\<lparr>world := w\<rparr>)) \<and>
    okay (unzip E src dst s)
      (\<lambda>(r, t). (r = Z_OK \<or> (\<exists>m. zerr_to_str r = Ret m)) \<and> (\<exists>w. t = s\<lparr>world := w\<rparr>))"
  using assms by (auto intro!: okay_zip simp: zip_result_def)

lemma sample_zlib [simp]: "zlib_laws (sample rc)"
  by (auto simp: zlib_laws_def)

theorem zip_no_assert_witness:
  "zip (sample DPL_SUCCESS) 4 5 3 sample_open = Ret (Z_OK, sample_open) \<and>
    okay (zip (sample DPL_SUCCESS) 4 5 3 sample_open)
      (\<lambda>(r, t). (r = Z_OK \<or> (\<exists>m. zerr_to_str r = Ret m)) \<and> (\<exists>w. t = sample_open\<lparr>world := w\<rparr>))"
proof
  show "zip (sample DPL_SUCCESS) 4 5 3 sample_open = Ret (Z_OK, sample_open)"
    by (simp add: zip_def call_def sample_open_def CHUNK_def)
  show "okay (zip (sample DPL_SUCCESS) 4 5 3 sample_open)
      (\<lambda>(r, t). (r = Z_OK \<or> (\<exists>m. zerr_to_str r = Ret m)) \<and> (\<exists>w. t = sample_open\<lparr>world := w\<rparr>))"
    using zip_no_assert [OF sample_zlib] by (rule conjunct1)
qed

end
