(* ===== verification/Metadata.thy ===== *)
theory Metadata
  imports Timeout
begin

text \<open>
  \<^verbatim>\<open>src/metadata.c\<close>: a \<^verbatim>\<open>struct stat\<close> written to a dictionary of decimal strings and
  read back. The round trip holds for every field but for one value: \<^verbatim>\<open>metadatatoll\<close> answers
  -1 both for a missing key and for a stored 2 ^ 64 - 1.
\<close>

section \<open>Writing\<close>

definition assign_meta_to_dict ::
  "('w, 'd) env \<Rightarrow> addr \<Rightarrow> string \<Rightarrow> u64 \<Rightarrow> ('w, 'd) state \<Rightarrow> ('w, 'd) state outcome"
where
  "assign_meta_to_dict E d meta v s =
     (let buf = tmpstr_fit (dec (unat v))
      in obind (dict_at d s) (\<lambda>c.
         call (dict_update E c meta buf) s (\<lambda>(rc, c) s. dict_set d c s)))"

definition fill_metadata_from_stat ::
  "('w, 'd) env \<Rightarrow> addr \<Rightarrow> stat \<Rightarrow> ('w, 'd) state \<Rightarrow> ('w, 'd) state outcome"
where
  "fill_metadata_from_stat E d st s =
     obind (assign_meta_to_dict E d ''mode'' (ucast (st_mode st)) s) (\<lambda>s.
     obind (assign_meta_to_dict E d ''size'' (st_size st) s) (\<lambda>s.
     obind (assign_meta_to_dict E d ''uid'' (ucast (st_uid st)) s) (\<lambda>s.
     obind (assign_meta_to_dict E d ''gid'' (ucast (st_gid st)) s) (\<lambda>s.
     obind (assign_meta_to_dict E d ''atime'' (st_atime st) s) (\<lambda>s.
     obind (assign_meta_to_dict E d ''mtime'' (st_mtime st) s) (\<lambda>s.
     assign_meta_to_dict E d ''ctime'' (st_ctime st) s))))))"

definition fill_default_metadata ::
  "('w, 'd) env \<Rightarrow> addr \<Rightarrow> ('w, 'd) state \<Rightarrow> ('w, 'd) state outcome"
where
  "fill_default_metadata E d s =
     call (s_time E) s (\<lambda>t s.
     call (s_umask E (S_IWGRP OR S_IWOTH)) s (\<lambda>m s.
     obind (assign_meta_to_dict E d ''mode'' (ucast m) s) (\<lambda>s.
     obind (assign_meta_to_dict E d ''uid'' (ucast (s_uid E)) s) (\<lambda>s.
     obind (assign_meta_to_dict E d ''gid'' (ucast (s_gid E)) s) (\<lambda>s.
     obind (assign_meta_to_dict E d ''atime'' (word_of_int t) s) (\<lambda>s.
     obind (assign_meta_to_dict E d ''ctime'' (word_of_int t) s) (\<lambda>s.
     assign_meta_to_dict E d ''mtime'' (word_of_int t) s)))))))"

section \<open>Reading\<close>

definition metadatatoll :: "('w, 'd) env \<Rightarrow> 'd \<Rightarrow> string \<Rightarrow> u64" where
  "metadatatoll E c name = (case dict_get E c name of None \<Rightarrow> -1 | Some v \<Rightarrow> strtoul v)"

text \<open>The macro \<^verbatim>\<open>STORE_META\<close>: \<open>put\<close> is the assignment with its cast.\<close>

definition STORE_META ::
  "('w, 'd) env \<Rightarrow> 'd \<Rightarrow> string \<Rightarrow> (u64 \<Rightarrow> stat \<Rightarrow> stat) \<Rightarrow> stat \<Rightarrow> stat"
where
  "STORE_META E c name put st = (let v = metadatatoll E c name in if v \<noteq> -1 then put v st else st)"

definition fill_stat_from_metadata :: "('w, 'd) env \<Rightarrow> stat \<Rightarrow> 'd \<Rightarrow> stat" where
  "fill_stat_from_metadata E st c =
     (let st = STORE_META E c ''size'' (\<lambda>v st. st\<lparr>st_size := v\<rparr>) st;
          st = STORE_META E c ''mode'' (\<lambda>v st. st\<lparr>st_mode := ucast v\<rparr>) st;
          st = STORE_META E c ''uid'' (\<lambda>v st. st\<lparr>st_uid := ucast v\<rparr>) st;
          st = STORE_META E c ''gid'' (\<lambda>v st. st\<lparr>st_gid := ucast v\<rparr>) st;
          st = STORE_META E c ''atime'' (\<lambda>v st. st\<lparr>st_atime := v\<rparr>) st;
          st = STORE_META E c ''ctime'' (\<lambda>v st. st\<lparr>st_ctime := v\<rparr>) st;
          st = STORE_META E c ''mtime'' (\<lambda>v st. st\<lparr>st_mtime := v\<rparr>) st
      in st)"

section \<open>Rules for the handlers\<close>

lemma okay_assign_meta [okay_rule]:
  assumes "heap_inv s" "d \<in> v_loose (view s)"
    and "\<And>s'. heap_inv s' \<Longrightarrow> view s' = view s \<Longrightarrow> Q s'"
  shows "okay (assign_meta_to_dict E d k v s) Q"
  unfolding assign_meta_to_dict_def Let_def
  using assms by (auto intro!: okay_dict_at okay_dict_set okay_call)

lemma okay_fill_metadata [okay_rule]:
  assumes "heap_inv s" "d \<in> v_loose (view s)"
    and "\<And>s'. heap_inv s' \<Longrightarrow> view s' = view s \<Longrightarrow> Q s'"
  shows "okay (fill_metadata_from_stat E d st s) Q" "okay (fill_default_metadata E d s) Q"
  unfolding fill_metadata_from_stat_def fill_default_metadata_def
  using assms by (auto intro!: okay_assign_meta okay_call)

section \<open>The round trip\<close>

text \<open>
  What the code relies on in libdroplet's dictionaries: \<^verbatim>\<open>dpl_dict_update_value\<close> succeeds, and
  afterwards its key has the new value and the others theirs.
\<close>

definition dict_laws :: "('w, 'd) env \<Rightarrow> bool" where
  "dict_laws E \<longleftrightarrow> (\<forall>c k v w. fst (fst (dict_update E c k v w)) = DPL_SUCCESS \<and>
     (\<forall>j. dict_get E (snd (fst (dict_update E c k v w))) j = (if j = k then Some v else dict_get E c j)))"

lemma length_dec: "n < 10 ^ Suc k \<Longrightarrow> length (dec n) \<le> Suc k"
proof (induction k arbitrary: n)
  case 0
  then show ?case by (subst dec.simps) simp
next
  case (Suc k)
  then have "n div 10 < 10 ^ Suc k" by (simp add: less_mult_imp_div_less mult.commute)
  with Suc.IH [of "n div 10"] show ?case by (subst dec.simps) simp
qed

lemma tmpstr_fit_dec [simp]: "tmpstr_fit (dec (unat (v :: u64))) = dec (unat v)"
proof -
  have "unat v < 10 ^ Suc 19" by (rule order_less_le_trans [OF unsigned_less]) simp
  from length_dec [OF this] show ?thesis by (simp add: tmpstr_fit_def TMPSTR_MAX_def)
qed

lemma assign_meta_Ret:
  assumes "dict_laws E" "dicts s d = Some c" "d \<noteq> NULL"
  obtains c' w where "assign_meta_to_dict E d k v s = Ret (s\<lparr>dicts := (dicts s)(d \<mapsto> c'), world := w\<rparr>)"
    and "\<And>j. dict_get E c' j = (if j = k then Some (dec (unat v)) else dict_get E c j)"
proof -
  obtain rc c' w where u: "dict_update E c k (dec (unat v)) (world s) = ((rc, c'), w)"
    by (metis prod.collapse)
  have "assign_meta_to_dict E d k v s = Ret (s\<lparr>dicts := (dicts s)(d \<mapsto> c'), world := w\<rparr>)"
    using assms(2,3) u
    by (cases s) (simp add: assign_meta_to_dict_def dict_at_def dict_set_def call_def)
  moreover have "\<And>j. dict_get E c' j = (if j = k then Some (dec (unat v)) else dict_get E c j)"
    using assms(1) unfolding dict_laws_def by (metis u fst_conv snd_conv)
  ultimately show ?thesis by (rule that)
qed

text \<open>A chain of assignments to one dictionary, as a fold.\<close>

fun assign_all ::
  "('w, 'd) env \<Rightarrow> addr \<Rightarrow> (string \<times> u64) list \<Rightarrow> ('w, 'd) state \<Rightarrow> ('w, 'd) state outcome"
where
  "assign_all E d [] s = Ret s"
| "assign_all E d ((k, v) # kvs) s = obind (assign_meta_to_dict E d k v s) (assign_all E d kvs)"

lemma assign_all_Ret:
  assumes "dict_laws E" "dicts s d = Some c" "d \<noteq> NULL" "distinct (map fst kvs)"
  shows "\<exists>c' w. assign_all E d kvs s = Ret (s\<lparr>dicts := (dicts s)(d \<mapsto> c'), world := w\<rparr>) \<and>
    (\<forall>j. dict_get E c' j = (case map_of kvs j of None \<Rightarrow> dict_get E c j | Some v \<Rightarrow> Some (dec (unat v))))"
  using assms(2,4)
proof (induction kvs arbitrary: s c)
  case Nil
  then show ?case
    by (intro exI [of _ c] exI [of _ "world s"]) (cases s, simp add: fun_upd_idem)
next
  case (Cons kv kvs)
  obtain k v where kv: "kv = (k, v)" by (cases kv)
  obtain c1 w1 where
    a: "assign_meta_to_dict E d k v s = Ret (s\<lparr>dicts := (dicts s)(d \<mapsto> c1), world := w1\<rparr>)"
      "\<And>j. dict_get E c1 j = (if j = k then Some (dec (unat v)) else dict_get E c j)"
    using assign_meta_Ret [OF assms(1) Cons.prems(1) assms(3)] by blast
  let ?s = "s\<lparr>dicts := (dicts s)(d \<mapsto> c1), world := w1\<rparr>"
  have "dicts ?s d = Some c1" "distinct (map fst kvs)" using Cons.prems(2) by simp_all
  from Cons.IH [OF this] obtain c' w where
    r: "assign_all E d kvs ?s = Ret (?s\<lparr>dicts := (dicts ?s)(d \<mapsto> c'), world := w\<rparr>)"
      "\<forall>j. dict_get E c' j = (case map_of kvs j of None \<Rightarrow> dict_get E c1 j | Some v \<Rightarrow> Some (dec (unat v)))"
    by blast
  have k: "map_of kvs k = None" using Cons.prems(2) kv by (simp add: map_of_eq_None_iff)
  have "dict_get E c' j =
    (case map_of (kv # kvs) j of None \<Rightarrow> dict_get E c j | Some v \<Rightarrow> Some (dec (unat v)))" for j
    using k r(2) [rule_format, of j] a(2) [of j] by (cases "j = k") (simp_all add: kv split: option.splits)
  moreover have "assign_all E d (kv # kvs) s = Ret (s\<lparr>dicts := (dicts s)(d \<mapsto> c'), world := w\<rparr>)"
    using r(1) a(1) by (cases s) (simp add: kv)
  ultimately show ?case by blast
qed

lemma assign_all_eta:
  "assign_all E d [] = Ret"
  "assign_all E d ((k, v) # kvs) =
    (\<lambda>s. obind (assign_meta_to_dict E d k v s) (assign_all E d kvs))"
  by (simp_all add: fun_eq_iff)

lemma fill_metadata_all:
  "fill_metadata_from_stat E d st s = assign_all E d
     [(''mode'', ucast (st_mode st)), (''size'', st_size st), (''uid'', ucast (st_uid st)),
      (''gid'', ucast (st_gid st)), (''atime'', st_atime st), (''mtime'', st_mtime st),
      (''ctime'', st_ctime st)] s"
  by (simp add: fill_metadata_from_stat_def assign_all_eta del: assign_all.simps)

lemma metadatatoll_dec: "dict_get E c k = Some (dec (unat v)) \<Longrightarrow> metadatatoll E c k = v"
  by (simp add: metadatatoll_def strtoul_dec order_less_le_trans [OF unsigned_less])

lemma ucast_u32_neq: "(ucast (x :: u32) :: u64) \<noteq> -1"
proof
  assume "(ucast x :: u64) = -1"
  then have "bit (ucast x :: u64) 63 = bit (-1 :: u64) 63" by simp
  then show False by (auto simp: bit_simps dest: bit_imp_le_length)
qed

lemma ucast_u32_back: "ucast (ucast (x :: u32) :: u64) = x"
  by (rule bit_word_eqI) (simp add: bit_simps)

text \<open>
  C24: what \<^verbatim>\<open>fill_metadata_from_stat\<close> stores, \<^verbatim>\<open>fill_stat_from_metadata\<close> reads back:
  mode, owner, group, size and the three times, whatever the dictionary and the \<^verbatim>\<open>struct stat\<close>
  held before. The sizes and times equal to 2 ^ 64 - 1 (-1 as an \<^verbatim>\<open>off_t\<close>) are excluded.
\<close>

theorem metadata_roundtrip:
  assumes "dict_laws E" "dicts s d = Some c" "d \<noteq> NULL"
    and "st_size st \<noteq> -1" "st_atime st \<noteq> -1" "st_mtime st \<noteq> -1" "st_ctime st \<noteq> -1"
  shows "\<exists>c' w. fill_metadata_from_stat E d st s = Ret (s\<lparr>dicts := (dicts s)(d \<mapsto> c'), world := w\<rparr>) \<and>
    fill_stat_from_metadata E st' c' = st\<lparr>st_nlink := st_nlink st'\<rparr>"
proof -
  obtain c' w where r: "fill_metadata_from_stat E d st s = Ret (s\<lparr>dicts := (dicts s)(d \<mapsto> c'), world := w\<rparr>)"
    and g: "\<And>j. dict_get E c' j = (case map_of
     [(''mode'', ucast (st_mode st)), (''size'', st_size st), (''uid'', ucast (st_uid st)),
      (''gid'', ucast (st_gid st)), (''atime'', st_atime st), (''mtime'', st_mtime st),
      (''ctime'', st_ctime st)] j of None \<Rightarrow> dict_get E c j | Some v \<Rightarrow> Some (dec (unat v)))"
    using assign_all_Ret [OF assms(1-3), of "[(''mode'', ucast (st_mode st)), (''size'', st_size st),
      (''uid'', ucast (st_uid st)), (''gid'', ucast (st_gid st)), (''atime'', st_atime st),
      (''mtime'', st_mtime st), (''ctime'', st_ctime st)]"]
    unfolding fill_metadata_all by auto
  have m: "metadatatoll E c' ''mode'' = ucast (st_mode st)" "metadatatoll E c' ''size'' = st_size st"
    "metadatatoll E c' ''uid'' = ucast (st_uid st)" "metadatatoll E c' ''gid'' = ucast (st_gid st)"
    "metadatatoll E c' ''atime'' = st_atime st" "metadatatoll E c' ''mtime'' = st_mtime st"
    "metadatatoll E c' ''ctime'' = st_ctime st"
    by (rule metadatatoll_dec, simp add: g)+
  have "fill_stat_from_metadata E st' c' = st\<lparr>st_nlink := st_nlink st'\<rparr>"
    using assms(4-) unfolding fill_stat_from_metadata_def STORE_META_def m
    by (simp add: ucast_u32_neq ucast_u32_back)
  with r show ?thesis by blast
qed

lemma sample_dict_laws [simp]: "dict_laws (sample rc)"
  by (simp add: dict_laws_def)

theorem metadata_roundtrip_witness:
  "\<exists>c w. fill_metadata_from_stat (sample DPL_SUCCESS) 2 sample_stat sample_open =
      Ret (sample_open\<lparr>dicts := (dicts sample_open)(2 \<mapsto> c), world := w\<rparr>) \<and>
    st_mode (fill_stat_from_metadata (sample DPL_SUCCESS) stat0 c) = 0x81A4 \<and>
    st_mtime (fill_stat_from_metadata (sample DPL_SUCCESS) stat0 c) = 200"
  using metadata_roundtrip [of "sample DPL_SUCCESS" sample_open 2 "[(''size'', ''5'')]" sample_stat stat0]
  by (force simp: sample_stat_def sample_open_def)

end
