(* ===== verification/File.thy ===== *)
theory File
  imports Zip Metadata
begin

text \<open>
  \<^verbatim>\<open>src/file.c\<close>: copying between a descriptor and libdroplet, and \<^verbatim>\<open>dfs_get_local_copy\<close>,
  which fetches a remote file into the cache unless the cached copy has the remote's digest.
\<close>

section \<open>Names for messages\<close>

primrec ftype_to_str :: "dpl_ftype \<Rightarrow> string" where
  "ftype_to_str DPL_FTYPE_REG = ''regular file''"
| "ftype_to_str DPL_FTYPE_DIR = ''directory''"
| "ftype_to_str DPL_FTYPE_OTHER = ''unknown''"

definition flags_to_str :: "u32 \<Rightarrow> string outcome" where
  "flags_to_str flags =
     (if flags AND O_ACCMODE = O_RDONLY then Ret ''read only''
      else if flags AND O_ACCMODE = O_WRONLY then Ret ''write only''
      else if flags AND O_ACCMODE = O_RDWR then Ret ''read/write''
      else Stuck AssertFail)"

text \<open>The trace of \<^verbatim>\<open>dfs_open\<close>, \<^verbatim>\<open>dfs_create\<close> and \<^verbatim>\<open>dfs_release\<close>, evaluated at
  \<^verbatim>\<open>LOG_DEBUG\<close> only, and the messages that print a zlib error, at \<^verbatim>\<open>LOG_ERR\<close>.\<close>

definition log_flags :: "u32 \<Rightarrow> ('w, 'd) state \<Rightarrow> unit outcome" where
  "log_flags flags s = LOG LOG_DEBUG s (obind (flags_to_str flags) (\<lambda>_. Ret ()))"

definition log_zerr :: "zret \<Rightarrow> ('w, 'd) state \<Rightarrow> unit outcome" where
  "log_zerr r s = LOG LOG_ERR s (obind (zerr_to_str r) (\<lambda>_. Ret ()))"

section \<open>Copying\<close>

definition WRITE_BLOCK_SIZE :: nat where "WRITE_BLOCK_SIZE = 1000 * 1000"

fun write_all ::
  "nat \<Rightarrow> ('w, 'd) env \<Rightarrow> int \<Rightarrow> byte list \<Rightarrow> ('w, 'd) state \<Rightarrow> (int \<times> ('w, 'd) state) outcome"
where
  "write_all 0 E f buf s = Stuck Diverges"
| "write_all (Suc n) E f buf s =
     call (s_write E f buf) s (\<lambda>r s.
     case r of
       Inl e \<Rightarrow> if e = EINTR then write_all n E f buf s else Ret (-1, s)
     | Inr cc \<Rightarrow>
         if length buf < cc then Stuck OutOfBounds
         else if length buf - cc = 0 then Ret (0, s)
         else write_all n E f (drop cc buf) s)"

fun read_write_all_vfile ::
  "nat \<Rightarrow> ('w, 'd) env \<Rightarrow> int \<Rightarrow> nat \<Rightarrow> ('w, 'd) state \<Rightarrow> (int \<times> ('w, 'd) state) outcome"
where
  "read_write_all_vfile 0 E f vfile s = Stuck Diverges"
| "read_write_all_vfile (Suc n) E f vfile s =
     call (s_read E f WRITE_BLOCK_SIZE) s (\<lambda>r s.
     case r of
       Inl e \<Rightarrow> Ret (-1, s)
     | Inr buf \<Rightarrow>
         if buf = [] then Ret (0, s)
         else call (dpl_write E vfile buf) s (\<lambda>(rc, u) s.
           if rc \<noteq> DPL_SUCCESS then Ret (-1, s)
           else read_write_all_vfile n E f vfile s))"

definition cb_get_buffered ::
  "('w, 'd) env \<Rightarrow> int \<Rightarrow> byte list \<Rightarrow> ('w, 'd) state \<Rightarrow> (int \<times> ('w, 'd) state) outcome"
where
  "cb_get_buffered E f buf s =
     obind (write_all (loop_fuel E) E f buf s) (\<lambda>(ret, s). Ret (if ret \<noteq> 0 then -1 else 0, s))"

text \<open>libdroplet's calls of the callback, until one fails.\<close>

fun get_buffers ::
  "('w, 'd) env \<Rightarrow> int \<Rightarrow> byte list list \<Rightarrow> ('w, 'd) state \<Rightarrow> (bool \<times> ('w, 'd) state) outcome"
where
  "get_buffers E f [] s = Ret (True, s)"
| "get_buffers E f (b # bs) s =
     obind (cb_get_buffered E f b s) (\<lambda>(r, s). if r \<noteq> 0 then Ret (False, s) else get_buffers E f bs s)"

section \<open>The pieces of the download\<close>

text \<open>
  The first component of the result is \<^verbatim>\<open>ret\<close>, the second what \<^verbatim>\<open>*headersp\<close> holds. The inode it
  starts from is not initialised, and it passes NULL for the parent's.
\<close>

definition download_headers ::
  "('w, 'd) env \<Rightarrow> string \<Rightarrow> ('w, 'd) state \<Rightarrow> (int \<times> addr \<times> ('w, 'd) state) outcome"
where
  "download_headers E pth s =
     obind (dfs_namei_timeout E pth (junk_ino E) False (DPL_FTYPE_OTHER, junk_ino E) s)
       (\<lambda>(rc, (ty, obj_ino), s).
     if rc = DPL_ENOENT then Ret (-1, NULL, s)
     else if rc \<noteq> DPL_SUCCESS then Ret (-1, NULL, s)
     else obind (dfs_head_all_timeout E obj_ino NULL s) (\<lambda>(rc, dict, s).
       if rc \<noteq> DPL_SUCCESS then Ret (1, NULL, s) else Ret (0, dict, s)))"

definition print_metadata :: "addr \<Rightarrow> ('w, 'd) state \<Rightarrow> unit outcome" where
  "print_metadata d s = obind (dict_at d s) (\<lambda>_. Ret ())"

text \<open>\<^verbatim>\<open>memcmp\<close> reads 16 bytes of the remote digest, which has its length and a NUL.\<close>

definition compare_digests ::
  "('w, 'd) env \<Rightarrow> addr \<Rightarrow> addr \<Rightarrow> ('w, 'd) state \<Rightarrow> (int \<times> ('w, 'd) state) outcome"
where
  "compare_digests E pe dict s =
     obind (pentry_get_placeholder pe s) (\<lambda>pl.
     if pl \<noteq> FILE_LOCAL then Ret (-1, s)
     else obind (pentry_get_digest pe s) (\<lambda>dig.
       obind (print_metadata dict s) (\<lambda>_.
       obind (dict_at dict s) (\<lambda>c.
       case dict_get E c ''etag'' of
         None \<Rightarrow> Ret (-1, s)
       | Some remote \<Rightarrow>
           if Suc (length remote) < MD5_DIGEST_LENGTH then Stuck OutOfBounds
           else if take MD5_DIGEST_LENGTH dig = take MD5_DIGEST_LENGTH (remote @ [CHR 0x00])
             then Ret (0, s)
           else obind (pentry_set_digest pe (Some remote) s) (\<lambda>(r, s). Ret (-1, s))))))"

text \<open>Opening and closing of the files around \<^verbatim>\<open>unzip\<close>; the result is \<^verbatim>\<open>ret\<close> and the
  descriptor \<^verbatim>\<open>get_data->fd\<close>. \<open>fcloses\<close> is the end of the function.\<close>

fun fcloses :: "('w, 'd) env \<Rightarrow> int list \<Rightarrow> ('w, 'd) state \<Rightarrow> ('w, 'd) state outcome" where
  "fcloses E [] s = Ret s"
| "fcloses E (f # fs) s = call (s_fclose E f) s (\<lambda>_ s. fcloses E fs s)"

definition handle_compression ::
  "('w, 'd) env \<Rightarrow> string \<Rightarrow> int \<Rightarrow> addr \<Rightarrow> ('w, 'd) state \<Rightarrow> (int \<times> int \<times> ('w, 'd) state) outcome"
where
  "handle_compression E local gfd md s =
     (let finish = (\<lambda>ret gfd fs s. obind (fcloses E fs s) (\<lambda>s. Ret (ret, gfd, s))) in
     obind (dict_at md s) (\<lambda>c.
     case dict_get E c ''compression'' of
       None \<Rightarrow> finish 0 gfd [] s
     | Some compressed \<Rightarrow>
         if strncmp_eq compressed ''none'' 4 then finish 0 gfd [] s
         else if \<not> strncmp_eq compressed ''zlib'' 4 then finish (-1) gfd [] s
         else let uzlocal = tmpstr_fit (local @ ''.tmp'') in
         call (s_fopen E local ''r'') s (\<lambda>fp s.
         case fp of Inl e \<Rightarrow> finish (-1) gfd [] s
         | Inr fpsrc \<Rightarrow>
         call (s_fopen E uzlocal ''w'') s (\<lambda>fp s.
         case fp of Inl e \<Rightarrow> finish (-1) gfd [fpsrc] s
         | Inr fpdst \<Rightarrow>
         obind (unzip E fpsrc fpdst s) (\<lambda>(zret, s).
         if zret \<noteq> Z_OK then
           obind (log_zerr zret s) (\<lambda>_. finish (-1) gfd [fpsrc, fpdst] s)
         else obind (dict_at md s) (\<lambda>c.
         call (dict_update E c ''compression'' ''none'') s (\<lambda>(rc, c) s.
         obind (dict_set md c s) (\<lambda>s.
         if rc \<noteq> DPL_SUCCESS then finish (-1) gfd [fpsrc, fpdst] s
         else call (s_rename E uzlocal local) s (\<lambda>r s.
         case r of Inl e \<Rightarrow> finish 1 gfd [fpsrc, fpdst] s
         | Inr u \<Rightarrow>
         call (s_close E gfd) s (\<lambda>r s.
         call (s_open E local O_RDONLY) s (\<lambda>r s.
         case r of Inl e \<Rightarrow> finish (-1) (-1) [fpsrc, fpdst] s
         | Inr gfd \<Rightarrow> finish 0 gfd [fpsrc, fpdst] s)))))))))))"

definition check_permissions :: "addr \<Rightarrow> addr \<Rightarrow> int" where
  "check_permissions pe md = 0"

text \<open>
  Whether to decrypt. The second \<^verbatim>\<open>goto end\<close> after the test of \<^verbatim>\<open>cipher\<close> is not in the
  \<^verbatim>\<open>if\<close>, so that the test of \<^verbatim>\<open>cipher_type\<close> and the assignment of the flag are never reached.
\<close>

definition check_encryption_flag ::
  "('w, 'd) env \<Rightarrow> addr \<Rightarrow> ('w, 'd) state \<Rightarrow> bool outcome"
where
  "check_encryption_flag E md s =
     obind (cstr_get (encryption_method (cfg s))) (\<lambda>method.
     if \<not> strncasecmp_eq method ''aes'' 3 then Ret False
     else obind (dict_at md s) (\<lambda>c.
     let cipher = dict_get E c ''cipher''; cipher_type = dict_get E c ''cipher-type'' in
     if cipher = None \<or> cipher_type = None then Ret False
     else Ret False))"

section \<open>The download\<close>

text \<open>
  From the end of the transfer on: \<open>rc\<close> is the status of \<^verbatim>\<open>dpl_openread\<close>. The result is
  \<^verbatim>\<open>fd\<close> and the pointer \<^verbatim>\<open>metadata\<close>.
\<close>

definition fetch_end ::
  "('w, 'd) env \<Rightarrow> string \<Rightarrow> u32 \<Rightarrow> int \<Rightarrow> dpl_status \<Rightarrow> addr \<Rightarrow> ('w, 'd) state \<Rightarrow>
    (int \<times> addr \<times> ('w, 'd) state) outcome"
where
  "fetch_end E local flags gfd rc md s =
     (if rc \<noteq> DPL_SUCCESS then call (s_close E gfd) s (\<lambda>_ s. Ret (-1, md, s))
      else obind (handle_compression E local gfd md s) (\<lambda>(ret, gfd, s).
        if ret = -1 then Ret (-1, md, s)
        else call (s_close E gfd) s (\<lambda>r s.
          case r of Inl e \<Rightarrow> Ret (-1, md, s)
          | Inr u \<Rightarrow>
            call (s_open E local flags) s (\<lambda>r s.
            case r of Inl e \<Rightarrow> Ret (-1, md, s) | Inr f \<Rightarrow> Ret (f, md, s)))))"

text \<open>From the opened cache file on; \<^verbatim>\<open>dpl_openread\<close> may replace the pointer \<^verbatim>\<open>metadata\<close>.\<close>

definition fetch_into ::
  "('w, 'd) env \<Rightarrow> string \<Rightarrow> string \<Rightarrow> u32 \<Rightarrow> int \<Rightarrow> addr \<Rightarrow> ('w, 'd) state \<Rightarrow>
    (int \<times> addr \<times> ('w, 'd) state) outcome"
where
  "fetch_into E remote local flags gfd md s =
     obind (check_encryption_flag E md s) (\<lambda>enc.
     call (dpl_openread E remote enc) s (\<lambda>(bufs, answer) s.
     obind (get_buffers E gfd bufs s) (\<lambda>(ok, s).
     case answer ok of
       (rc, None) \<Rightarrow> fetch_end E local flags gfd rc md s
     | (rc, Some d) \<Rightarrow> (case dict_store d s of (md, s) \<Rightarrow> fetch_end E local flags gfd rc md s))))"

text \<open>From the comparison of the digests on.\<close>

definition fetch_if_changed ::
  "('w, 'd) env \<Rightarrow> addr \<Rightarrow> string \<Rightarrow> string \<Rightarrow> u32 \<Rightarrow> addr \<Rightarrow> addr \<Rightarrow> ('w, 'd) state \<Rightarrow>
    (int \<times> addr \<times> ('w, 'd) state) outcome"
where
  "fetch_if_changed E pe remote local flags md headers s =
     obind (compare_digests E pe headers s) (\<lambda>(r, s).
     if r = 0 then obind (pentry_get_fd pe s) (\<lambda>f. Ret (f, md, s))
     else call (s_access E local) s (\<lambda>r s.
     obind (case r of Inl e \<Rightarrow> Ret s | Inr u \<Rightarrow> call (s_unlink E local) s (\<lambda>_ s. Ret s)) (\<lambda>s.
     call (s_open E local (O_RDWR OR O_CREAT OR O_TRUNC)) s (\<lambda>r s.
     case r of Inl e \<Rightarrow> Ret (-1, md, s)
     | Inr gfd \<Rightarrow> fetch_into E remote local flags gfd md s))))"

text \<open>The metadata of the headers, stored in the entry; \<open>False\<close> when a step fails.\<close>

definition fetch_metadata ::
  "('w, 'd) env \<Rightarrow> addr \<Rightarrow> addr \<Rightarrow> addr \<Rightarrow> ('w, 'd) state \<Rightarrow> (bool \<times> ('w, 'd) state) outcome"
where
  "fetch_metadata E pe md headers s =
     obind (dict_at headers s) (\<lambda>h.
     obind (dict_at md s) (\<lambda>m.
     call (dpl_get_metadata_from_headers E h m) s (\<lambda>(rc, m) s.
     obind (dict_set md m s) (\<lambda>s.
     if rc = DPL_FAILURE then Ret (False, s)
     else obind (pentry_set_metadata E pe md s) (\<lambda>(r, s).
       Ret (r \<noteq> -1 \<and> check_permissions pe md \<noteq> -1, s))))))"

definition local_copy_end ::
  "int \<Rightarrow> addr \<Rightarrow> addr \<Rightarrow> ('w, 'd) state \<Rightarrow> (int \<times> ('w, 'd) state) outcome"
where
  "local_copy_end f md headers s =
     obind (dict_free_opt md s) (\<lambda>s. obind (dict_free_opt headers s) (\<lambda>s. Ret (f, s)))"

definition dfs_get_local_copy ::
  "('w, 'd) env \<Rightarrow> addr \<Rightarrow> string \<Rightarrow> u32 \<Rightarrow> ('w, 'd) state \<Rightarrow> (int \<times> ('w, 'd) state) outcome"
where
  "dfs_get_local_copy E pe remote flags s =
     (let local = tmpstr_fit (cstr_print (cache_dir (cfg s)) @ remote) in
     obind (download_headers E remote s) (\<lambda>(r, headers, s).
     if r = -1 then local_copy_end (-1) NULL headers s
     else dpl_dict_new E s (\<lambda>md s.
     if md = NULL then local_copy_end (-1) md headers s
     else obind (fetch_metadata E pe md headers s) (\<lambda>(ok, s).
     if \<not> ok then local_copy_end (-1) md headers s
     else obind (fetch_if_changed E pe remote local flags md headers s) (\<lambda>(f, md, s).
     local_copy_end f md headers s)))))"

section \<open>Rules for the handlers\<close>

lemma cfg_view: "cfg s = v_cfg (view s)"
  by (simp add: view_simps)

text \<open>What the code relies on in \<^verbatim>\<open>write\<close>: it reports no more than it was given.\<close>

definition write_ok :: "('w, 'd) env \<Rightarrow> bool" where
  "write_ok E \<longleftrightarrow> (\<forall>f bs w r w'. s_write E f bs w = (Inr r, w') \<longrightarrow> r \<le> length bs)"

lemma write_okD: "write_ok E \<Longrightarrow> s_write E f bs w = (Inr r, w') \<Longrightarrow> \<not> length bs < r"
  unfolding write_ok_def by (metis not_less)

lemma okay_write_all:
  assumes "write_ok E"
    and "\<And>r w. Q (r, s\<lparr>world := w\<rparr>)"
  shows "okay (write_all n E f buf s) Q"
  using assms(2)
proof (induction n arbitrary: buf s)
  case (Suc n)
  have "okay (write_all n E f b (s\<lparr>world := w\<rparr>)) Q" for b w
    using Suc.prems by (intro Suc.IH) simp
  then show ?case
    using Suc.prems by (auto intro!: okay_call split: sum.split dest: write_okD [OF assms(1)])
qed simp

lemma okay_get_buffers [okay_rule]:
  assumes "write_ok E" "\<And>r w. Q (r, s\<lparr>world := w\<rparr>)"
  shows "okay (get_buffers E f bufs s) Q"
  using assms(2)
proof (induction bufs arbitrary: s)
  case Nil
  then have "Q (True, s\<lparr>world := world s\<rparr>)" .
  then show ?case by simp
next
  case (Cons b bs)
  have "okay (get_buffers E f bs (s\<lparr>world := w\<rparr>)) Q" for w
    using Cons.prems by (intro Cons.IH) simp
  then show ?case
    using Cons.prems by (auto simp: cb_get_buffered_def intro!: okay_write_all [OF assms(1)])
qed

lemma okay_read_write_all [okay_rule]:
  assumes "\<And>r w. Q (r, s\<lparr>world := w\<rparr>)"
  shows "okay (read_write_all_vfile n E f v s) Q"
  using assms
proof (induction n arbitrary: s)
  case (Suc n)
  have "okay (read_write_all_vfile n E f v (s\<lparr>world := w\<rparr>)) Q" for w
    using Suc.prems by (intro Suc.IH) simp
  then show ?case
    using Suc.prems by (auto intro!: okay_call split: sum.split)
qed simp

text \<open>
  What the code relies on when it fetches a file: the HEAD of an object that \<^verbatim>\<open>dpl_namei\<close> found
  succeeds (it goes on with a NULL dictionary otherwise).
\<close>

definition head_ok :: "('w, 'd) env \<Rightarrow> bool" where
  "head_ok E \<longleftrightarrow> (\<forall>p w. \<exists>d w'. dpl_head_all E p w = ((DPL_SUCCESS, Some d), w'))"

lemma okay_head_all_ok:
  assumes "heap_inv s" "head_ok E"
    and "\<And>d s'. heap_inv s' \<Longrightarrow> d \<noteq> NULL \<Longrightarrow> d \<notin> v_loose (view s) \<Longrightarrow> view s' = v_own d (view s) \<Longrightarrow>
      Q (DPL_SUCCESS, d, s')"
  shows "okay (dfs_head_all_timeout E p NULL s) Q"
proof -
  obtain c w where c: "dpl_head_all E p (world s) = ((DPL_SUCCESS, Some c), w)"
    using assms(2) unfolding head_ok_def by blast
  obtain d t where t: "dict_store c (s\<lparr>world := w\<rparr>) = (d, t)" by (cases "dict_store c (s\<lparr>world := w\<rparr>)")
  have "dfs_head_all_timeout E p NULL s = Ret (DPL_SUCCESS, d, t)"
    by (rule head_all_r.success) (simp add: plain_dict_def call_def c t)
  moreover have "Q (DPL_SUCCESS, d, t)"
    using dict_store_rule [OF _ t] assms(1) by (intro assms(3)) simp_all
  ultimately show ?thesis by simp
qed

lemma okay_download_headers [okay_rule]:
  assumes "heap_inv s" "\<not> log_debug s" "head_ok E"
    and "\<And>s'. heap_inv s' \<Longrightarrow> view s' = view s \<Longrightarrow> Q (-1, NULL, s')"
    and "\<And>d s'. heap_inv s' \<Longrightarrow> d \<noteq> NULL \<Longrightarrow> d \<notin> v_loose (view s) \<Longrightarrow> view s' = v_own d (view s) \<Longrightarrow>
      Q (0, d, s')"
  shows "okay (download_headers E p s) Q"
  unfolding download_headers_def
  using assms by (auto intro!: okay_namei_timeout okay_head_all_ok)

text \<open>What the code relies on in the \<^verbatim>\<open>etag\<close> header: it has the length of a digest.\<close>

definition etag_ok :: "('w, 'd) env \<Rightarrow> bool" where
  "etag_ok E \<longleftrightarrow> (\<forall>c v. dict_get E c ''etag'' = Some v \<longrightarrow> MD5_DIGEST_LENGTH \<le> Suc (length v))"

lemma etag_okD: "etag_ok E \<Longrightarrow> dict_get E c ''etag'' = Some v \<Longrightarrow> \<not> Suc (length v) < MD5_DIGEST_LENGTH"
  unfolding etag_ok_def by (metis not_less)

lemma okay_compare_digests [okay_rule]:
  assumes "heap_inv s" "pe \<in> v_ent (view s)" "d \<in> v_loose (view s)" "etag_ok E"
    and "\<And>r s'. heap_inv s' \<Longrightarrow> view s' = view s \<Longrightarrow> Q (r, s')"
  shows "okay (compare_digests E pe d s) Q"
  unfolding compare_digests_def print_metadata_def
  using assms by (auto intro!: okay_getters okay_dict_at okay_set_digest split: option.split
    dest: etag_okD intro: leI)

lemma okay_fcloses [okay_rule]:
  "(\<And>w. Q (s\<lparr>world := w\<rparr>)) \<Longrightarrow> okay (fcloses E fs s) Q"
proof (induction fs arbitrary: s)
  case Nil
  from Nil [of "world s"] show ?case by simp
next
  case (Cons f fs)
  then show ?case by (auto intro!: okay_call)
qed

lemma okay_log_zerr [okay_rule]:
  "r \<in> zip_result \<Longrightarrow> r \<noteq> Z_OK \<Longrightarrow> Q () \<Longrightarrow> okay (log_zerr r s) Q"
  by (auto simp: log_zerr_def LOG_def zip_result_def)

lemma okay_handle_compression [okay_rule]:
  assumes "heap_inv s" "md \<in> v_loose (view s)" "zlib_laws E"
    and "\<And>r g s'. heap_inv s' \<Longrightarrow> view s' = view s \<Longrightarrow> Q (r, g, s')"
  shows "okay (handle_compression E local gfd md s) Q"
  unfolding handle_compression_def Let_def
  using assms by (auto intro!: okay_call okay_dict_at okay_dict_set okay_fcloses okay_zip okay_log_zerr
    split: option.split sum.split)

lemma okay_check_encryption_flag [okay_rule]:
  assumes "heap_inv s" "md \<in> v_loose (view s)" "cstr_ok (encryption_method (cfg s))" "Q False"
  shows "okay (check_encryption_flag E md s) Q"
  unfolding check_encryption_flag_def
  using assms by (auto intro!: okay_cstr_get okay_dict_at simp: Let_def)

text \<open>
  The transfer ends with the dictionary it was given, or with a new one that libdroplet handed out;
  in the second case nobody points to the first any more.
\<close>

lemma okay_fetch_into [okay_rule]:
  assumes "heap_inv s" "md \<in> v_loose (view s)" "zlib_laws E" "write_ok E"
    and "cstr_ok (encryption_method (cfg s))"
    and "\<And>f s'. heap_inv s' \<Longrightarrow> view s' = view s \<Longrightarrow> Q (f, md, s')"
    and "\<And>f d s'. heap_inv s' \<Longrightarrow> d \<noteq> NULL \<Longrightarrow> d \<notin> v_loose (view s) \<Longrightarrow> view s' = v_own d (view s) \<Longrightarrow>
      Q (f, d, s')"
  shows "okay (fetch_into E remote local flags gfd md s) Q"
proof -
  have tail: "okay (fetch_end E local flags gfd rc d t) Q"
    if "heap_inv t" "d \<in> v_loose (view t)"
      "\<And>f s'. heap_inv s' \<Longrightarrow> view s' = view t \<Longrightarrow> Q (f, d, s')" for rc d t
    using that assms(3) unfolding fetch_end_def
    by (auto intro!: okay_call okay_handle_compression split: sum.split)
  have new: "okay (case dict_store c t of (d, u) \<Rightarrow> fetch_end E local flags gfd rc d u) Q"
    if "heap_inv t" "view t = view s" for rc c t
  proof -
    obtain d u where u: "dict_store c t = (d, u)" by (cases "dict_store c t")
    from dict_store_rule [OF that(1) u] that(2) tail [of u d rc] assms(7) show ?thesis
      by (simp add: u)
  qed
  have ans: "okay (case x of
       (rc, None) \<Rightarrow> fetch_end E local flags gfd rc md t
     | (rc, Some d) \<Rightarrow> (case dict_store d t of (md, s) \<Rightarrow> fetch_end E local flags gfd rc md s)) Q"
    if "heap_inv t" "view t = view s" for x t
    using that new [OF that] tail [of t md] assms(2,6) by (cases x; cases "snd x") auto
  show ?thesis
    unfolding fetch_into_def
    using assms by (auto intro!: okay_check_encryption_flag okay_call okay_get_buffers ans)
qed

lemma okay_fetch_metadata [okay_rule]:
  assumes "heap_inv s" "pe \<in> v_ent (view s)" "md \<in> v_loose (view s)" "h \<in> v_loose (view s)"
    and "\<And>ok s'. heap_inv s' \<Longrightarrow> view s' = view s \<Longrightarrow> Q (ok, s')"
  shows "okay (fetch_metadata E pe md h s) Q"
  unfolding fetch_metadata_def
  using assms by (auto intro!: okay_call okay_dict_at okay_dict_set okay_set_metadata)

lemma v_own_twice:
  "m \<noteq> h \<Longrightarrow> h \<notin> v_loose v \<Longrightarrow> v_disown h (v_own m (v_own h v)) = v_own m v"
  by (simp add: v_op_defs insert_Diff_if)

text \<open>The configuration the handlers run with: no trace, and an encryption method.\<close>

definition conf_ready :: "conf \<Rightarrow> bool" where
  "conf_ready c \<longleftrightarrow> \<not> LOG_DEBUG \<le> sint (log_level c) \<and> cstr_ok (encryption_method c) \<and>
     cstr_ok (compression_method c) \<and> cstr_ok (root_dir c)"

lemma conf_ready_quiet: "conf_ready (v_cfg (view s)) \<Longrightarrow> \<not> log_debug s"
  by (simp add: conf_ready_def log_debug_def view_simps)

text \<open>What the handlers rely on outside the program.\<close>

definition remote_ok :: "('w, 'd) env \<Rightarrow> bool" where
  "remote_ok E \<longleftrightarrow> inits_ok E \<and> dpl_clean E \<and> head_ok E \<and> etag_ok E \<and> zlib_laws E \<and> write_ok E"

lemma okay_fetch_if_changed [okay_rule]:
  assumes "heap_inv s" "pe \<in> v_ent (view s)" "md \<in> v_loose (view s)" "h \<in> v_loose (view s)"
    and "remote_ok E" "conf_ready (v_cfg (view s))"
    and "\<And>f s'. heap_inv s' \<Longrightarrow> view s' = view s \<Longrightarrow> Q (f, md, s')"
    and "\<And>f d s'. heap_inv s' \<Longrightarrow> d \<noteq> NULL \<Longrightarrow> d \<notin> v_loose (view s) \<Longrightarrow> view s' = v_own d (view s) \<Longrightarrow>
      Q (f, d, s')"
  shows "okay (fetch_if_changed E pe remote local flags md h s) Q"
proof -
  have laws: "etag_ok E" "zlib_laws E" "write_ok E"
    using assms(5) by (simp_all add: remote_ok_def)
  have enc: "cstr_ok (encryption_method (cfg t))" if "view t = view s" for t :: "('a, 'b) state"
    using assms(6) that by (simp add: conf_ready_def cfg_view)
  show ?thesis
    unfolding fetch_if_changed_def
    using assms laws
    by (auto intro!: okay_call okay_compare_digests okay_getters okay_fetch_into enc split: sum.split)
qed

lemma okay_local_copy_end [okay_rule]:
  assumes "heap_inv s" "md \<noteq> NULL \<Longrightarrow> md \<in> v_loose (view s)"
    and "h \<noteq> NULL \<Longrightarrow> h \<in> v_loose (view s) \<and> h \<noteq> md"
    and "\<And>s'. heap_inv s' \<Longrightarrow>
      view s' = (if h = NULL then (\<lambda>v. v) else v_disown h) ((if md = NULL then (\<lambda>v. v) else v_disown md) (view s)) \<Longrightarrow>
      Q (f, s')"
  shows "okay (local_copy_end f md h s) Q"
  unfolding local_copy_end_def
  using assms by (auto intro!: okay_dict_free_opt)

lemma okay_get_local_copy [okay_rule]:
  assumes "heap_inv s" "pe \<in> v_ent (view s)" "remote_ok E" "conf_ready (v_cfg (view s))"
    and "\<And>f s'. heap_inv s' \<Longrightarrow> view s' = view s \<Longrightarrow> Q (f, s')"
    and "\<And>f m s'. heap_inv s' \<Longrightarrow> m \<notin> v_loose (view s) \<Longrightarrow> view s' = v_own m (view s) \<Longrightarrow> Q (f, s')"
  shows "okay (dfs_get_local_copy E pe remote flags s) Q"
proof -
  have h: "head_ok E" using assms(3) by (simp add: remote_ok_def)
  show ?thesis
    unfolding dfs_get_local_copy_def Let_def
    using assms h conf_ready_quiet [OF assms(4)]
    by (auto intro!: okay_download_headers okay_dict_new okay_fetch_metadata okay_fetch_if_changed
      okay_local_copy_end simp: v_own_twice)
qed

section \<open>A sample\<close>

text \<open>The sample interface with a header \<^verbatim>\<open>etag\<close> of 32 characters.\<close>

definition sample_remote :: "dpl_status \<Rightarrow> (nat, sample_dict) env" where
  "sample_remote rc = (sample rc)\<lparr>dict_get := \<lambda>d k. map_option (\<lambda>v.
     if k = ''etag'' then take 32 (v @ replicate 32 (CHR ''0'')) else v) (map_of d k)\<rparr>"

lemma sample_remote_ok [simp]: "remote_ok (sample_remote DPL_SUCCESS)"
  by (auto simp: remote_ok_def sample_remote_def inits_ok_def dpl_clean_def clean_on_def head_ok_def
    etag_ok_def zlib_laws_def write_ok_def MD5_DIGEST_LENGTH_def)

lemma sample_conf_ready [simp]: "conf_ready sample_conf"
  by (simp add: conf_ready_def sample_conf_def LOG_DEBUG_def)



end
