(* ===== verification/Open.thy ===== *)
theory Open
  imports File
begin

text \<open>
  \<^verbatim>\<open>src/open.c\<close> and \<^verbatim>\<open>src/misc.c\<close>: opening a file takes a reference on its entry, which it
  creates when there is none, takes its lock unless the file is opened for reading, and sees to it
  that the entry has a descriptor of a file in the cache.
\<close>

section \<open>Directories of the cache\<close>

fun mkdir_loop :: "('w, 'd) env \<Rightarrow> string \<Rightarrow> string \<Rightarrow> ('w, 'd) state \<Rightarrow> ('w, 'd) state" where
  "mkdir_loop E done [] s = s"
| "mkdir_loop E done (c # cs) s =
     (if c = CHR ''/'' then call (s_mkdir E done) s (\<lambda>_ s. mkdir_loop E (done @ [c]) cs s)
      else mkdir_loop E (done @ [c]) cs s)"

text \<open>The loop starts at the second character, which an empty name does not have.\<close>

definition mkdir_tree :: "('w, 'd) env \<Rightarrow> string \<Rightarrow> ('w, 'd) state \<Rightarrow> ('w, 'd) state outcome" where
  "mkdir_tree E dir s =
     (case tmpstr_fit dir of
        [] \<Rightarrow> Stuck UninitUse
      | c # cs \<Rightarrow> call (s_mkdir E (c # cs)) (mkdir_loop E [c] cs s) (\<lambda>_ s. Ret s))"

text \<open>\<^verbatim>\<open>dirname\<close> of the C library.\<close>

definition rstrip :: "string \<Rightarrow> string" where
  "rstrip s = rev (dropWhile (\<lambda>c. c = CHR ''/'') (rev s))"

definition dirname :: "string \<Rightarrow> string" where
  "dirname s =
     (let t = rstrip s in
      if t = [] then (if s = [] then ''.'' else ''/'')
      else case strrchr t (CHR ''/'') of
        None \<Rightarrow> ''.''
      | Some i \<Rightarrow> (let u = rstrip (take i t) in if u = [] then ''/'' else u))"

definition build_cache_tree ::
  "('w, 'd) env \<Rightarrow> string \<Rightarrow> ('w, 'd) state \<Rightarrow> (string option \<times> ('w, 'd) state) outcome"
where
  "build_cache_tree E pth s =
     (let rel = dropWhile (\<lambda>c. c = CHR ''/'') pth;
          local = tmpstr_fit (cstr_print (cache_dir (cfg s)) @ ''/'' @ rel)
      in call (malloc_ok E) s (\<lambda>ok s.
         if \<not> ok then Ret (None, s)
         else let dir = tmpstr_fit (dirname local) in
           call (s_stat E dir) s (\<lambda>r s.
           obind (case r of Inl e \<Rightarrow> if e = ENOENT then mkdir_tree E dir s else Ret s | Inr u \<Rightarrow> Ret s) (\<lambda>s.
           Ret (Some local, s)))))"

section \<open>Modes\<close>

datatype state_mode = MODE_RDONLY | MODE_WRONLY | MODE_RDWR | MODE_CREAT

abbreviation MODE_DEFAULT :: state_mode where "MODE_DEFAULT \<equiv> MODE_RDWR"

primrec open_flags :: "state_mode \<Rightarrow> u32" where
  "open_flags MODE_RDONLY = O_RDONLY"
| "open_flags MODE_WRONLY = O_RDWR"
| "open_flags MODE_RDWR = O_RDWR"
| "open_flags MODE_CREAT = O_RDWR OR O_CREAT OR O_TRUNC"

definition get_mode_from_flags :: "u32 \<Rightarrow> state_mode" where
  "get_mode_from_flags flags =
     (if flags AND O_APPEND \<noteq> 0 then MODE_RDWR
      else if flags AND O_CREAT \<noteq> 0 then MODE_CREAT
      else if flags AND O_ACCMODE = O_RDONLY then MODE_RDONLY
      else if flags AND O_ACCMODE = O_WRONLY then MODE_CREAT
      else if flags AND O_ACCMODE = O_RDWR then MODE_CREAT
      else MODE_DEFAULT)"

section \<open>Opening\<close>

text \<open>The result is \<^verbatim>\<open>ret\<close> and what \<^verbatim>\<open>*pep\<close> holds.\<close>

definition populate_hash ::
  "('w, 'd) env \<Rightarrow> string \<Rightarrow> ('w, 'd) state \<Rightarrow> (int \<times> addr \<times> ('w, 'd) state) outcome"
where
  "populate_hash E pth s =
     obind (pentry_new E s) (\<lambda>(pe, s).
     if pe = NULL then Ret (-1, NULL, s)
     else obind (pentry_set_fd pe (-1) s) (\<lambda>s.
       obind (pentry_set_path E pe pth s) (\<lambda>s.
       call (malloc_ok E) s (\<lambda>ok s.
       if \<not> ok then obind (pentry_free E pe s) (\<lambda>s. Ret (-1, NULL, s))
       else obind (g_hash_table_insert E pth pe s) (\<lambda>s. Ret (0, pe, s))))))"

definition open_creat ::
  "('w, 'd) env \<Rightarrow> string \<Rightarrow> addr \<Rightarrow> u32 \<Rightarrow> ('w, 'd) state \<Rightarrow> (int \<times> ('w, 'd) state) outcome"
where
  "open_creat E pth pe flags s =
     obind (build_cache_tree E pth s) (\<lambda>(local, s).
     case local of
       None \<Rightarrow> Ret (-1, s)
     | Some local \<Rightarrow>
         call (s_open E local flags) s (\<lambda>r s.
         case r of
           Inl e \<Rightarrow> Ret (-1, s)
         | Inr f \<Rightarrow>
             obind (pentry_set_fd pe f s) (\<lambda>s.
             obind (pentry_set_flag pe FLAG_DIRTY s) (\<lambda>s. Ret (0, s)))))"

definition open_existing ::
  "('w, 'd) env \<Rightarrow> string \<Rightarrow> addr \<Rightarrow> u32 \<Rightarrow> ('w, 'd) state \<Rightarrow> (int \<times> ('w, 'd) state) outcome"
where
  "open_existing E pth pe flags s =
     obind (pentry_get_fd pe s) (\<lambda>f.
     if f < 0 then
       obind (build_cache_tree E pth s) (\<lambda>(_, s).
       obind (dfs_get_local_copy E pe pth flags s) (\<lambda>(f, s).
       if f = -1 then Ret (-1, s)
       else obind (pentry_set_fd pe f s) (\<lambda>s. Ret (0, s))))
     else Ret (0, s))"

definition open_rdonly ::
  "('w, 'd) env \<Rightarrow> string \<Rightarrow> addr \<Rightarrow> u32 \<Rightarrow> ('w, 'd) state \<Rightarrow> (int \<times> ('w, 'd) state) outcome"
where
  "open_rdonly E pth pe flags s = open_existing E pth pe flags s"

definition open_wronly ::
  "('w, 'd) env \<Rightarrow> string \<Rightarrow> addr \<Rightarrow> u32 \<Rightarrow> ('w, 'd) state \<Rightarrow> (int \<times> ('w, 'd) state) outcome"
where
  "open_wronly E pth pe flags s =
     obind (open_existing E pth pe flags s) (\<lambda>(ret, s).
     if ret = 0 then obind (pentry_set_flag pe FLAG_DIRTY s) (\<lambda>s. Ret (ret, s)) else Ret (ret, s))"

definition open_rdwr ::
  "('w, 'd) env \<Rightarrow> string \<Rightarrow> addr \<Rightarrow> u32 \<Rightarrow> ('w, 'd) state \<Rightarrow> (int \<times> ('w, 'd) state) outcome"
where
  "open_rdwr E pth pe flags s = open_wronly E pth pe flags s"

text \<open>The table \<^verbatim>\<open>fn\<close> of \<^verbatim>\<open>dfs_open\<close>.\<close>

primrec open_fn ::
  "state_mode \<Rightarrow> ('w, 'd) env \<Rightarrow> string \<Rightarrow> addr \<Rightarrow> u32 \<Rightarrow> ('w, 'd) state \<Rightarrow>
    (int \<times> ('w, 'd) state) outcome"
where
  "open_fn MODE_RDONLY = open_rdonly"
| "open_fn MODE_WRONLY = open_wronly"
| "open_fn MODE_RDWR = open_rdwr"
| "open_fn MODE_CREAT = open_creat"

text \<open>The last trace of \<^verbatim>\<open>dfs_open\<close>, which reads the entry.\<close>

definition log_fd :: "addr \<Rightarrow> ('w, 'd) state \<Rightarrow> unit outcome" where
  "log_fd pe s = LOG LOG_DEBUG s (obind (pentry_get_fd pe s) (\<lambda>_. Ret ()))"

text \<open>The lookup, and the new entry when it finds none: \<^verbatim>\<open>ret\<close> and \<^verbatim>\<open>pe\<close>.\<close>

definition open_lookup ::
  "('w, 'd) env \<Rightarrow> string \<Rightarrow> ('w, 'd) state \<Rightarrow> (int \<times> addr \<times> ('w, 'd) state) outcome"
where
  "open_lookup E pth s =
     (let pe = g_hash_table_lookup pth s in
      if pe = NULL then populate_hash E pth s
      else obind (pentry_get_fd pe s) (\<lambda>_. obind (pentry_get_placeholder pe s) (\<lambda>_. Ret (0, pe, s))))"

text \<open>From the reference on. The result is \<^verbatim>\<open>ret\<close> and \<^verbatim>\<open>info->fh\<close>.\<close>

definition open_entry ::
  "('w, 'd) env \<Rightarrow> string \<Rightarrow> u32 \<Rightarrow> addr \<Rightarrow> ('w, 'd) state \<Rightarrow> (int \<times> addr \<times> ('w, 'd) state) outcome"
where
  "open_entry E pth flags pe s =
     (let mode = get_mode_from_flags flags;
          err = (\<lambda>ret s. obind (log_fd pe s) (\<lambda>_. Ret (ret, pe, s)))
      in
     obind (pentry_inc_refcount pe s) (\<lambda>s.
     obind (if mode \<noteq> MODE_RDONLY then pentry_lock E pe s else Ret (0, s)) (\<lambda>(rc, s).
     if rc \<noteq> 0 then obind (pentry_dec_refcount pe s) (\<lambda>s. err (-1) s)
     else obind (open_fn mode E pth pe (open_flags mode) s) (\<lambda>(r, s).
       if r = -1 then err (-1) s
       else obind (pentry_set_placeholder pe FILE_LOCAL s) (\<lambda>s. err 0 s)))))"

definition dfs_open ::
  "('w, 'd) env \<Rightarrow> string \<Rightarrow> u32 \<Rightarrow> ('w, 'd) state \<Rightarrow> (int \<times> addr \<times> ('w, 'd) state) outcome"
where
  "dfs_open E pth flags s =
     obind (log_flags flags s) (\<lambda>_.
     obind (open_lookup E pth s) (\<lambda>(ret, pe, s).
     if ret = -1 then obind (log_fd pe s) (\<lambda>_. Ret (-1, NULL, s))
     else open_entry E pth flags pe s))"

section \<open>Rules\<close>

lemma mkdir_loop_world: "\<exists>w. mkdir_loop E d cs s = s\<lparr>world := w\<rparr>"
proof (induction cs arbitrary: d s)
  case Nil
  have "mkdir_loop E d [] s = s\<lparr>world := world s\<rparr>" by simp
  then show ?case by blast
next
  case (Cons c cs)
  have "\<exists>w. mkdir_loop E e cs (s\<lparr>world := v\<rparr>) = s\<lparr>world := w\<rparr>" for e v
    using Cons.IH [of e "s\<lparr>world := v\<rparr>"] by simp
  then show ?case using Cons.IH [of "d @ [c]" s] by (auto simp: call_def split: prod.splits)
qed

lemma okay_mkdir_tree [okay_rule]:
  assumes "tmpstr_fit d \<noteq> []" "\<And>w. Q (s\<lparr>world := w\<rparr>)"
  shows "okay (mkdir_tree E d s) Q"
proof -
  obtain c cs where c: "tmpstr_fit d = c # cs" using assms(1) by (cases "tmpstr_fit d") auto
  obtain w where "mkdir_loop E [c] cs s = s\<lparr>world := w\<rparr>"
    using mkdir_loop_world [of E "[c]" cs s] by blast
  then show ?thesis using assms(2) by (auto simp: mkdir_tree_def c intro!: okay_call)
qed

lemma dirname_not_Nil: "dirname p \<noteq> []"
  by (auto simp: dirname_def Let_def split: option.split)

lemma tmpstr_fit_Nil [simp]: "tmpstr_fit p = [] \<longleftrightarrow> p = []"
  by (simp add: tmpstr_fit_def TMPSTR_MAX_def)

lemma okay_build_cache_tree [okay_rule]:
  "(\<And>r w. Q (r, s\<lparr>world := w\<rparr>)) \<Longrightarrow> okay (build_cache_tree E p s) Q"
  unfolding build_cache_tree_def Let_def
  by (auto intro!: okay_call okay_mkdir_tree simp: dirname_not_Nil split: sum.split)

lemma okay_populate_hash [okay_rule]:
  assumes "heap_inv s" "inits_ok E" "v_tbl (view s) p = None"
    and "\<And>s'. heap_inv s' \<Longrightarrow> view s' = view s \<Longrightarrow> Q (-1, NULL, s')"
    and "\<And>a x s'. heap_inv s' \<Longrightarrow> a \<noteq> NULL \<Longrightarrow> a \<notin> v_ent (view s) \<Longrightarrow> x \<in> {None, Some p} \<Longrightarrow>
      view s' = v_put p a (v_setpath a x (v_new a (view s))) \<Longrightarrow> Q (0, a, s')"
  shows "okay (populate_hash E p s) Q"
proof -
  have q: "Q (0, a, s')" if "heap_inv s'" "a \<noteq> NULL" "a \<notin> v_ent (view s)"
    "\<exists>x\<in>{None, Some p}. view s' = v_put p a (v_setpath a x (v_new a (view s)))" for a s'
    using that assms(5) by blast
  show ?thesis
  unfolding populate_hash_def
  using assms(1-4)
  by (auto intro!: okay_pentry_new okay_setters okay_set_path okay_call okay_pentry_free
    okay_hash_insert simp: v_free_new v_not_in_tbl [OF assms(1)] view_no_entry
    intro!: q)
qed

text \<open>
  Opening changes the view by at most one dictionary that nobody owns: the one that
  \<^verbatim>\<open>dpl_openread\<close> makes \<^verbatim>\<open>dfs_get_local_copy\<close> forget.
\<close>

definition v_leak :: "addr set \<Rightarrow> view \<Rightarrow> view" where
  "v_leak L v = v\<lparr>v_loose := v_loose v \<union> L\<rparr>"

lemma v_leak_simps [simp]:
  "v_tbl (v_leak L v) = v_tbl v" "v_ent (v_leak L v) = v_ent v" "v_path (v_leak L v) = v_path v"
  "v_loose (v_leak L v) = v_loose v \<union> L" "v_ref (v_leak L v) = v_ref v"
  "v_lock (v_leak L v) = v_lock v" "v_cfg (v_leak L v) = v_cfg v"
  "v_leak {} v = v" "v_leak L (v_leak M v) = v_leak (M \<union> L) v"
  by (simp_all add: v_leak_def ac_simps)

lemma v_own_leak: "v_own d v = v_leak {d} v"
  by (simp add: v_own_def v_leak_def)

definition grown :: "view \<Rightarrow> view \<Rightarrow> bool" where
  "grown v w \<longleftrightarrow> (\<exists>L. w = v_leak L v)"

lemma grown_simps [simp]: "grown v v" "grown v (v_own d v)" "grown v (v_leak L v)"
  unfolding grown_def by (metis v_leak_simps(8)) (metis v_own_leak, metis)

lemma grown_trans: "grown u v \<Longrightarrow> grown v w \<Longrightarrow> grown u w"
  by (auto simp: grown_def)

lemma grown_sel:
  "grown v w \<Longrightarrow> v_tbl w = v_tbl v" "grown v w \<Longrightarrow> v_ent w = v_ent v"
  "grown v w \<Longrightarrow> v_ref w = v_ref v" "grown v w \<Longrightarrow> v_lock w = v_lock v"
  "grown v w \<Longrightarrow> v_cfg w = v_cfg v" "grown v w \<Longrightarrow> v_loose v \<subseteq> v_loose w"
  by (auto simp: grown_def)

lemma okay_open_existing [okay_rule]:
  assumes "heap_inv s" "pe \<in> v_ent (view s)" "remote_ok E" "conf_ready (v_cfg (view s))"
    and "\<And>r s'. heap_inv s' \<Longrightarrow> grown (view s) (view s') \<Longrightarrow> Q (r, s')"
  shows "okay (open_existing E p pe flags s) Q"
  unfolding open_existing_def
  using assms
  by (auto intro!: okay_getters okay_build_cache_tree okay_get_local_copy okay_setters)

lemma okay_open_wronly [okay_rule]:
  assumes "heap_inv s" "pe \<in> v_ent (view s)" "remote_ok E" "conf_ready (v_cfg (view s))"
    and "\<And>r s'. heap_inv s' \<Longrightarrow> grown (view s) (view s') \<Longrightarrow> Q (r, s')"
  shows "okay (open_wronly E p pe flags s) Q"
  unfolding open_wronly_def
  using assms by (auto intro!: okay_open_existing okay_setters simp: grown_sel)

lemma okay_open_creat [okay_rule]:
  assumes "heap_inv s" "pe \<in> v_ent (view s)"
    and "\<And>r s'. heap_inv s' \<Longrightarrow> view s' = view s \<Longrightarrow> Q (r, s')"
  shows "okay (open_creat E p pe flags s) Q"
  unfolding open_creat_def
  using assms
  by (auto intro!: okay_build_cache_tree okay_call okay_setters split: option.split sum.split)

lemma okay_open_fn [okay_rule]:
  assumes "heap_inv s" "pe \<in> v_ent (view s)" "remote_ok E" "conf_ready (v_cfg (view s))"
    and "\<And>r s'. heap_inv s' \<Longrightarrow> grown (view s) (view s') \<Longrightarrow> Q (r, s')"
  shows "okay (open_fn mode E p pe flags s) Q"
  using assms
  by (cases mode) (auto simp: open_rdonly_def open_rdwr_def
    intro!: okay_open_existing okay_open_wronly okay_open_creat)

section \<open>What opening does\<close>

text \<open>The view with an entry for \<open>p\<close>: the one the table has, or a fresh one put there.\<close>

definition entry_for :: "string \<Rightarrow> addr \<Rightarrow> view \<Rightarrow> view \<Rightarrow> bool" where
  "entry_for p a v v1 \<longleftrightarrow>
     v_tbl v p = Some a \<and> v1 = v \<or>
     v_tbl v p = None \<and> a \<notin> v_ent v \<and>
       (\<exists>x\<in>{None, Some p}. v1 = v_put p a (v_setpath a x (v_new a v)))"

text \<open>When the mutex functions do not fail, \<^verbatim>\<open>pentry_lock\<close> waits until it has the lock.\<close>

definition pthreads_ok :: "('w, 'd) env \<Rightarrow> bool" where
  "pthreads_ok E \<longleftrightarrow> (\<forall>w. fst (pthread_rc E w) = 0)"

lemma okay_pentry_lock:
  assumes "heap_inv s" "a \<in> v_ent (view s)"
    and "\<And>r s'. \<not> pthreads_ok E \<Longrightarrow> heap_inv s' \<Longrightarrow> r \<noteq> 0 \<Longrightarrow> view s' = view s \<Longrightarrow> Q (r, s')"
    and "\<And>s'. heap_inv s' \<Longrightarrow> \<not> v_lock (view s) a \<Longrightarrow> view s' = v_setlock a True (view s) \<Longrightarrow> Q (0, s')"
  shows "okay (pentry_lock E a s) Q"
proof (cases "fst (pthread_rc E (world s)) = 0")
  case True
  have "okay (pentry_lock E a s) (\<lambda>(r, s'). r = 0)"
    using assms(1,2) True by (auto simp: pentry_lock_def pentry_gen_lock_def call_def intro!: okay_pe_at okay_pe_upd
        split: prod.split)
  moreover have "okay (pentry_lock E a s) (\<lambda>(r, s'). r = 0 \<longrightarrow> Q (r, s'))"
    using assms by (intro okay_mutex) auto
  ultimately show ?thesis by (cases "pentry_lock E a s") auto
next
  case False
  then have "\<not> pthreads_ok E" by (auto simp: pthreads_ok_def)
  then show ?thesis using assms by (intro okay_mutex) auto
qed

text \<open>
  What a call of \<^verbatim>\<open>dfs_open\<close> may do: fail without an entry; fail in \<^verbatim>\<open>pthread_mutex_lock\<close>, and give the
  reference back; or take a reference and, unless the file is opened for reading, the lock. In the
  last case it keeps both even when it fails afterwards.
\<close>

definition open_post ::
  "('w, 'd) env \<Rightarrow> string \<Rightarrow> u32 \<Rightarrow> view \<Rightarrow> int \<Rightarrow> addr \<Rightarrow> view \<Rightarrow> bool"
where
  "open_post E p flags v ret fh v' \<longleftrightarrow>
     fh = NULL \<and> ret = -1 \<and> v' = v \<or>
     fh \<noteq> NULL \<and> ret \<in> {0, -1} \<and> (\<exists>v1. entry_for p fh v v1 \<and>
       (ret = -1 \<and> get_mode_from_flags flags \<noteq> MODE_RDONLY \<and> \<not> pthreads_ok E \<and> v' = v1 \<or>
        get_mode_from_flags flags = MODE_RDONLY \<and>
          grown (v_setref fh (Suc (v_ref v1 fh)) v1) v' \<or>
        get_mode_from_flags flags \<noteq> MODE_RDONLY \<and> \<not> v_lock v1 fh \<and>
          grown (v_setlock fh True (v_setref fh (Suc (v_ref v1 fh)) v1)) v'))"

lemma open_post_none [simp]: "open_post E p flags v (-1) NULL v"
  by (simp add: open_post_def)

lemma okay_log [okay_rule]:
  assumes "conf_ready (v_cfg (view s))"
  shows "Q () \<Longrightarrow> okay (log_flags flags s) Q" "Q () \<Longrightarrow> okay (log_fd a s) Q"
  by (simp_all add: log_flags_def log_fd_def conf_ready_quiet [OF assms])

lemma entry_for_facts:
  assumes "entry_for p a v v1"
  shows "a \<in> v_ent v1 \<or> v_tbl v p = Some a" "v_tbl v1 p = Some a" "v_cfg v1 = v_cfg v"
  using assms by (auto simp: entry_for_def)

lemma okay_open_lookup [okay_rule]:
  assumes "heap_inv s" "inits_ok E"
    and "\<And>s'. heap_inv s' \<Longrightarrow> view s' = view s \<Longrightarrow> Q (-1, NULL, s')"
    and "\<And>a s'. heap_inv s' \<Longrightarrow> a \<noteq> NULL \<Longrightarrow> a \<in> v_ent (view s') \<Longrightarrow> entry_for p a (view s) (view s') \<Longrightarrow>
      Q (0, a, s')"
  shows "okay (open_lookup E p s) Q"
  using assms(1)
proof (cases rule: lookup_cases [where k = p])
  case 1
  then show ?thesis
    using assms by (auto intro!: okay_populate_hash assms(4) simp: entry_for_def open_lookup_def)
next
  case (2 a)
  then show ?thesis
    using assms(1) by (auto intro!: okay_getters assms(4) simp: entry_for_def open_lookup_def)
qed

lemma okay_open_entry [okay_rule]:
  assumes "heap_inv t" "a \<noteq> NULL" "a \<in> v_ent (view t)" "entry_for p a v (view t)"
    and "remote_ok E" "conf_ready (v_cfg v)"
    and "\<And>ret s'. heap_inv s' \<Longrightarrow> open_post E p flags v ret a (view s') \<Longrightarrow> Q (ret, a, s')"
  shows "okay (open_entry E p flags a t) Q"
proof -
  let ?mode = "get_mode_from_flags flags"
  let ?v = "v_setref a (Suc (v_ref (view t) a)) (view t)"
  have cfg: "v_cfg (view t) = v_cfg v" using entry_for_facts(3) [OF assms(4)] .
  have ready: "conf_ready (v_cfg w)" if "v_cfg w = v_cfg v" for w
    using assms(6) that by simp
  have fin: "Q (r, a, s')" if "heap_inv s'" "r \<in> {0, -1}"
    "r = -1 \<and> ?mode \<noteq> MODE_RDONLY \<and> \<not> pthreads_ok E \<and> view s' = view t \<or>
     ?mode = MODE_RDONLY \<and> grown ?v (view s') \<or>
     ?mode \<noteq> MODE_RDONLY \<and> \<not> v_lock (view t) a \<and> grown (v_setlock a True ?v) (view s')" for r s'
    using that assms(2,4) by (intro assms(7)) (auto simp: open_post_def)
  show ?thesis
    unfolding open_entry_def Let_def
    using assms(1-3,5) cfg
    by (cases "?mode = MODE_RDONLY")
      (auto intro!: okay_inc_refcount okay_pentry_lock okay_dec_refcount okay_open_fn okay_log ready
        okay_setters fin simp: grown_sel simp del: open_fn.simps)
qed

lemma okay_dfs_open [okay_rule]:
  assumes "heap_inv s" "remote_ok E" "conf_ready (v_cfg (view s))"
    and "\<And>ret fh s'. heap_inv s' \<Longrightarrow> open_post E p flags (view s) ret fh (view s') \<Longrightarrow> Q (ret, fh, s')"
  shows "okay (dfs_open E p flags s) Q"
proof -
  have inits: "inits_ok E" using assms(2) by (simp add: remote_ok_def)
  show ?thesis
    unfolding dfs_open_def
    using assms(1-3) inits
    by (auto intro!: okay_log okay_open_lookup okay_open_entry assms(4))
qed



end
