(* ===== verification/Release.thy ===== *)
theory Release
  imports Open
begin

text \<open>
  \<^verbatim>\<open>src/release.c\<close>: closing a file gives its reference back and, unless it was opened for
  reading, uploads the cached file, marks the entry clean and unlocks it.
\<close>

section \<open>Compression before the upload\<close>

text \<open>The result is the return value and what \<^verbatim>\<open>*size\<close> holds.\<close>

definition compress_before_sending ::
  "('w, 'd) env \<Rightarrow> int \<Rightarrow> int \<Rightarrow> addr \<Rightarrow> u64 \<Rightarrow> ('w, 'd) state \<Rightarrow>
    (int \<times> u64 \<times> ('w, 'd) state) outcome"
where
  "compress_before_sending E fpsrc fpdst dict sz s =
     obind (zip E fpsrc fpdst (zlib_level (cfg s)) s) (\<lambda>(zrc, s).
     if zrc \<noteq> Z_OK then obind (log_zerr zrc s) (\<lambda>_. Ret (0, sz, s))
     else call (s_fileno E fpdst) s (\<lambda>r s.
       case r of Inl e \<Rightarrow> Ret (0, sz, s)
       | Inr zfd \<Rightarrow>
           call (s_fstat E zfd) s (\<lambda>r s.
           case r of Inl e \<Rightarrow> Ret (0, sz, s)
           | Inr zst \<Rightarrow>
               call (s_rewind E zfd) s (\<lambda>_ s.
               obind (dict_at dict s) (\<lambda>c.
               call (dict_update E c ''compression'' ''zlib'') s (\<lambda>(rc, c) s.
               obind (dict_set dict c s) (\<lambda>s.
               if rc \<noteq> DPL_SUCCESS then Ret (0, sz, s)
               else Ret (zfd, st_size zst, s))))))))"

section \<open>The upload\<close>

text \<open>The local variables that the end of \<^verbatim>\<open>dfs_release\<close> cleans up.\<close>

record upload =
  up_dict :: addr
  up_vfile :: "nat option"
  up_fpsrc :: "int option"
  up_fpdst :: "int option"
  up_zlocal :: "string option"

definition upload0 :: upload where
  "upload0 = \<lparr>up_dict = NULL, up_vfile = None, up_fpsrc = None, up_fpdst = None, up_zlocal = None\<rparr>"

text \<open>The labels \<^verbatim>\<open>exc\<close> and \<^verbatim>\<open>err\<close>.\<close>

definition release_exc ::
  "('w, 'd) env \<Rightarrow> addr \<Rightarrow> int \<Rightarrow> ('w, 'd) state \<Rightarrow> (int \<times> ('w, 'd) state) outcome"
where
  "release_exc E pe ret s =
     (if pe \<noteq> NULL then
        obind (pentry_set_flag pe FLAG_CLEAN s) (\<lambda>s.
        obind (pentry_unlock E pe s) (\<lambda>(_, s). Ret (ret, s)))
      else Ret (ret, s))"

definition release_err ::
  "('w, 'd) env \<Rightarrow> addr \<Rightarrow> int \<Rightarrow> upload \<Rightarrow> int \<Rightarrow> ('w, 'd) state \<Rightarrow> (int \<times> ('w, 'd) state) outcome"
where
  "release_err E pe f u ret s =
     obind (dict_free_opt (up_dict u) s) (\<lambda>s.
     obind (case up_vfile u of None \<Rightarrow> Ret (ret, s)
            | Some v \<Rightarrow> call (dpl_close E v) s (\<lambda>(rc, _) s. Ret (if rc \<noteq> DPL_SUCCESS then -1 else ret, s)))
       (\<lambda>(ret, s).
     obind (case up_fpsrc u of None \<Rightarrow> Ret s | Some fp \<Rightarrow> call (s_fclose E fp) s (\<lambda>_ s. Ret s)) (\<lambda>s.
     call (s_rewind E f) s (\<lambda>_ s.
     obind (case up_fpdst u of None \<Rightarrow> Ret s | Some fp \<Rightarrow> call (s_fclose E fp) s (\<lambda>_ s. Ret s)) (\<lambda>s.
     obind (case up_zlocal u of None \<Rightarrow> Ret s | Some z \<Rightarrow> call (s_unlink E z) s (\<lambda>_ s. Ret s)) (\<lambda>s.
     release_exc E pe ret s))))))"

text \<open>From the choice of what to send on.\<close>

definition release_send ::
  "('w, 'd) env \<Rightarrow> addr \<Rightarrow> string \<Rightarrow> int \<Rightarrow> upload \<Rightarrow> int \<Rightarrow> u64 \<Rightarrow> ('w, 'd) state \<Rightarrow>
    (int \<times> ('w, 'd) state) outcome"
where
  "release_send E pe pth f u fd_tosend sz s =
     obind (cstr_get (encryption_method (cfg s))) (\<lambda>method.
     let encrypt = strncasecmp_eq method ''aes'' 3 in
     obind (dict_at (up_dict u) s) (\<lambda>c.
     call (dpl_openwrite E pth encrypt c sz) s (\<lambda>(rc, vfile) s.
     if rc \<noteq> DPL_SUCCESS then release_err E pe f u (-1) s
     else let u = u\<lparr>up_vfile := Some vfile\<rparr> in
       obind (read_write_all_vfile (loop_fuel E) E fd_tosend vfile s) (\<lambda>(r, s).
       release_err E pe f u (if r = -1 then -1 else 0) s))))"

text \<open>From the new dictionary on: the file \<^verbatim>\<open>local\<close> is compressed into \<^verbatim>\<open>local.tmp\<close> if the
  configuration says so, and one of the two is sent.\<close>

definition release_upload ::
  "('w, 'd) env \<Rightarrow> addr \<Rightarrow> string \<Rightarrow> int \<Rightarrow> stat \<Rightarrow> ('w, 'd) state \<Rightarrow>
    (int \<times> ('w, 'd) state) outcome"
where
  "release_upload E pe pth f st s =
     dpl_dict_new E s (\<lambda>dict s.
     obind (fill_metadata_from_stat E dict st s) (\<lambda>s.
     let local = tmpstr_fit (cstr_print (cache_dir (cfg s)) @ ''/'' @ pth);
         u = upload0\<lparr>up_dict := dict\<rparr> in
     obind (cstr_get (compression_method (cfg s))) (\<lambda>method.
     if \<not> strncasecmp_eq method ''zlib'' 4 then release_send E pe pth f u f (st_size st) s
     else
       let zlocal = tmpstr_fit (local @ ''.tmp''); u = u\<lparr>up_zlocal := Some zlocal\<rparr> in
       call (s_fopen E local ''r'') s (\<lambda>r s.
       case r of Inl e \<Rightarrow> release_err E pe f u (-1) s
       | Inr fpsrc \<Rightarrow>
           let u = u\<lparr>up_fpsrc := Some fpsrc\<rparr> in
           call (s_fopen E zlocal ''w+'') s (\<lambda>r s.
           case r of Inl e \<Rightarrow> release_send E pe pth f u f (st_size st) s
           | Inr fpdst \<Rightarrow>
               let u = u\<lparr>up_fpdst := Some fpdst\<rparr> in
               obind (compress_before_sending E fpsrc fpdst dict 0 s) (\<lambda>(zfd, zsize, s).
               if zfd < 0 then release_err E pe f u (-1) s
               else if 0 < zfd then release_send E pe pth f u zfd zsize s
               else release_send E pe pth f u f (st_size st) s))))))"

section \<open>Closing\<close>

text \<open>\<open>fh\<close> is \<^verbatim>\<open>info->fh\<close>. The first three errors leave the reference and the lock alone but go
  through the label \<^verbatim>\<open>err\<close>, which unlocks the entry.\<close>

definition dfs_release ::
  "('w, 'd) env \<Rightarrow> string \<Rightarrow> u32 \<Rightarrow> addr \<Rightarrow> ('w, 'd) state \<Rightarrow> (int \<times> ('w, 'd) state) outcome"
where
  "dfs_release E pth flags fh s =
     obind (log_flags flags s) (\<lambda>_.
     if fh = NULL then release_err E NULL (-1) upload0 (-1) s
     else obind (pentry_get_fd fh s) (\<lambda>f.
     if f < 0 then release_err E fh f upload0 (-1) s
     else call (s_fstat E f) s (\<lambda>r s.
     case r of Inl e \<Rightarrow> release_err E fh f upload0 (-1) s
     | Inr st \<Rightarrow>
         obind (pentry_dec_refcount fh s) (\<lambda>s.
         if flags AND O_ACCMODE = O_RDONLY then
           obind (pentry_get_path fh s) (\<lambda>_. Ret (0, s))
         else obind (pentry_get_exclude fh s) (\<lambda>ex.
         if ex then release_exc E fh 0 s
         else release_upload E fh pth f st s)))))"

section \<open>Rules\<close>

lemma okay_compress [okay_rule]:
  assumes "heap_inv s" "d \<in> v_loose (view s)" "zlib_laws E"
    and "\<And>r z s'. heap_inv s' \<Longrightarrow> view s' = view s \<Longrightarrow> Q (r, z, s')"
  shows "okay (compress_before_sending E src dst d sz s) Q"
  unfolding compress_before_sending_def
  using assms by (auto intro!: okay_zip okay_log_zerr okay_call okay_dict_at okay_dict_set split: sum.split)

text \<open>The entry after \<^verbatim>\<open>pentry_unlock\<close>, whose result the code ignores.\<close>

definition unlocked :: "addr \<Rightarrow> view \<Rightarrow> view \<Rightarrow> bool" where
  "unlocked a v w \<longleftrightarrow> w = v \<or> a \<noteq> NULL \<and> w = v_setlock a False v"

lemma unlocked_simps [simp]: "unlocked a v v" "a \<noteq> NULL \<Longrightarrow> unlocked a v (v_setlock a False v)"
  by (simp_all add: unlocked_def)

lemma okay_release_exc [okay_rule]:
  assumes "heap_inv s" "pe \<noteq> NULL \<Longrightarrow> pe \<in> v_ent (view s)"
    and "\<And>s'. heap_inv s' \<Longrightarrow> unlocked pe (view s) (view s') \<Longrightarrow> Q (ret, s')"
  shows "okay (release_exc E pe ret s) Q"
  unfolding release_exc_def
  using assms by (auto intro!: okay_setters okay_mutex)

lemma okay_release_err [okay_rule]:
  assumes "heap_inv s" "pe \<noteq> NULL \<Longrightarrow> pe \<in> v_ent (view s)"
    and "up_dict u \<noteq> NULL \<Longrightarrow> up_dict u \<in> v_loose (view s)"
    and "\<And>r s'. heap_inv s' \<Longrightarrow> r \<in> {ret, -1} \<Longrightarrow>
      unlocked pe (if up_dict u = NULL then view s else v_disown (up_dict u) (view s)) (view s') \<Longrightarrow> Q (r, s')"
  shows "okay (release_err E pe f u ret s) Q"
  unfolding release_err_def
  using assms
  by (auto intro!: okay_dict_free_opt okay_call okay_release_exc split: option.split)

lemma okay_release_send [okay_rule]:
  assumes "heap_inv s" "pe \<in> v_ent (view s)" "pe \<noteq> NULL"
    and "up_dict u \<noteq> NULL" "up_dict u \<in> v_loose (view s)" "conf_ready (v_cfg (view s))"
    and "\<And>r s'. heap_inv s' \<Longrightarrow> r \<in> {0, -1} \<Longrightarrow>
      unlocked pe (v_disown (up_dict u) (view s)) (view s') \<Longrightarrow> Q (r, s')"
  shows "okay (release_send E pe pth f u fs sz s) Q"
proof -
  have m: "cstr_ok (encryption_method (cfg s))"
    using assms(6) by (simp add: conf_ready_def view_simps)
  show ?thesis
    unfolding release_send_def
    using assms(1-5)
    by (auto simp: Let_def intro!: okay_cstr_get m okay_dict_at okay_call okay_read_write_all okay_release_err assms(7)
      split: if_splits)
qed

text \<open>
  What \<^verbatim>\<open>dfs_release\<close> relies on when it makes the dictionary of an upload: the allocation
  succeeds (it fills a NULL dictionary otherwise).
\<close>

definition allocs_ok :: "('w, 'd) env \<Rightarrow> bool" where
  "allocs_ok E \<longleftrightarrow> (\<forall>w. fst (malloc_ok E w))"

lemma okay_dict_new_ok:
  assumes "heap_inv s" "allocs_ok E"
    and "\<And>d s'. heap_inv s' \<Longrightarrow> d \<noteq> NULL \<Longrightarrow> d \<notin> v_loose (view s) \<Longrightarrow> view s' = v_own d (view s) \<Longrightarrow>
      okay (k d s') Q"
  shows "okay (dpl_dict_new E s k) Q"
proof -
  obtain w where w: "malloc_ok E (world s) = (True, w)"
    using assms(2) unfolding allocs_ok_def by (metis prod.collapse)
  obtain d t where t: "dict_store (dict_new E) (s\<lparr>world := w\<rparr>) = (d, t)"
    by (cases "dict_store (dict_new E) (s\<lparr>world := w\<rparr>)")
  have "okay (k d t) Q"
    using dict_store_rule [OF _ t] assms(1) by (intro assms(3)) simp_all
  then show ?thesis by (simp add: dpl_dict_new_def call_def w t)
qed

lemma okay_release_upload [okay_rule]:
  assumes "heap_inv s" "pe \<in> v_ent (view s)" "pe \<noteq> NULL" "conf_ready (v_cfg (view s))"
    and "allocs_ok E" "remote_ok E"
    and "\<And>r s'. heap_inv s' \<Longrightarrow> r \<in> {0, -1} \<Longrightarrow> unlocked pe (view s) (view s') \<Longrightarrow> Q (r, s')"
  shows "okay (release_upload E pe pth f st s) Q"
proof -
  have z: "zlib_laws E" using assms(6) by (simp add: remote_ok_def)
  have m: "cstr_ok (compression_method (cfg t))" if "v_cfg (view t) = v_cfg (view s)" for t :: "('a, 'b) state"
    using assms(4) that by (simp add: conf_ready_def cfg_view)
  show ?thesis
    unfolding release_upload_def Let_def
    using assms(1-6) z
    by (auto intro!: okay_dict_new_ok okay_fill_metadata okay_release_send okay_call okay_release_err
      okay_compress okay_cstr_get m assms(7) simp: upload0_def split: sum.split)
qed

section \<open>What closing does\<close>

text \<open>
  Closing an unusable descriptor changes nothing but the lock; otherwise one reference is given
  back and, unless the file was open for reading, the lock.
\<close>

definition release_post :: "u32 \<Rightarrow> view \<Rightarrow> addr \<Rightarrow> int \<Rightarrow> view \<Rightarrow> bool" where
  "release_post flags v fh ret v' \<longleftrightarrow>
     fh = NULL \<and> ret = -1 \<and> v' = v \<or>
     fh \<noteq> NULL \<and> ret = -1 \<and> unlocked fh v v' \<or>
     fh \<noteq> NULL \<and> v_ref v fh \<noteq> 0 \<and> ret \<in> {0, -1} \<and>
       (let w = v_setref fh (v_ref v fh - 1) v in
        if flags AND O_ACCMODE = O_RDONLY then ret = 0 \<and> v' = w else unlocked fh w v')"

lemma unlocked_NULL [simp]: "unlocked NULL v w \<longleftrightarrow> w = v"
  by (simp add: unlocked_def)

lemma okay_dfs_release [okay_rule]:
  assumes "heap_inv s" "fh \<noteq> NULL \<Longrightarrow> fh \<in> v_ent (view s)" "conf_ready (v_cfg (view s))"
    and "allocs_ok E" "remote_ok E"
    and "\<And>r s'. heap_inv s' \<Longrightarrow> release_post flags (view s) fh r (view s') \<Longrightarrow> Q (r, s')"
  shows "okay (dfs_release E pth flags fh s) Q"
proof -
  have fin: "Q (r, s')" if "heap_inv s'"
    "fh = NULL \<and> r = -1 \<and> view s' = view s \<or>
     fh \<noteq> NULL \<and> r = -1 \<and> unlocked fh (view s) (view s') \<or>
     fh \<noteq> NULL \<and> v_ref (view s) fh \<noteq> 0 \<and> r \<in> {0, -1} \<and>
       (if flags AND O_ACCMODE = O_RDONLY then r = 0 \<and> view s' = v_setref fh (v_ref (view s) fh - 1) (view s)
        else unlocked fh (v_setref fh (v_ref (view s) fh - 1) (view s)) (view s'))" for r s'
    using that by (intro assms(6)) (auto simp: release_post_def Let_def)
  show ?thesis
    unfolding dfs_release_def
    using assms(1-5)
    by (auto intro!: okay_log okay_release_err okay_getters okay_call okay_dec_refcount
      okay_release_exc okay_release_upload fin simp: upload0_def split: sum.split)
qed


lemma sample_allocs [simp]: "allocs_ok (sample_remote rc)"
  by (simp add: allocs_ok_def sample_remote_def)


end
