(* ===== verification/Getattr.thy ===== *)
theory Getattr
  imports Release
begin

text \<open>
  \<^verbatim>\<open>src/getattr.c\<close>: the attributes of a path, from the file in the cache, from the metadata of
  its entry, or from the remote object. The handlers write to the path they are given;
  \<open>hash_fill_dirent\<close> and its callers therefore also answer what the caller's string holds
  afterwards. \<open>st\<close> is what \<^verbatim>\<open>*st\<close> holds.
\<close>

section \<open>The handler\<close>

definition set_default_stat ::
  "('w, 'd) env \<Rightarrow> stat \<Rightarrow> dpl_ftype \<Rightarrow> ('w, 'd) state \<Rightarrow> stat \<times> ('w, 'd) state"
where
  "set_default_stat E st ty s =
     call (s_time E) s (\<lambda>t s.
     (st\<lparr>st_mode := (case ty of
            DPL_FTYPE_DIR \<Rightarrow> st_mode st OR (S_IFDIR OR S_IRUSR OR S_IXUSR)
          | DPL_FTYPE_REG \<Rightarrow> st_mode st OR (S_IFREG OR S_IRUSR OR S_IWUSR)
          | DPL_FTYPE_OTHER \<Rightarrow> 0),
         st_uid := s_uid E, st_gid := s_gid E,
         st_atime := word_of_int t, st_mtime := word_of_int t, st_ctime := word_of_int t,
         st_size := 0\<rparr>, s))"

definition set_filetype_from_stat ::
  "addr \<Rightarrow> stat \<Rightarrow> ('w, 'd) state \<Rightarrow> ('w, 'd) state outcome"
where
  "set_filetype_from_stat pe st s =
     (if st_mode st OR S_IFREG \<noteq> 0 then pentry_set_filetype pe FILE_REG s
      else if st_mode st OR S_IFDIR \<noteq> 0 then pentry_set_filetype pe FILE_DIR s
      else if st_mode st OR S_IFLNK \<noteq> 0 then pentry_set_filetype pe FILE_SYMLINK s
      else Ret s)"

text \<open>The result is \<^verbatim>\<open>ret\<close> and the string at \<^verbatim>\<open>path\<close>: when the directory is not in the
  table, the function leaves the NUL it wrote over the last slash.\<close>

definition hash_fill_dirent ::
  "('w, 'd) env \<Rightarrow> string \<Rightarrow> ('w, 'd) state \<Rightarrow> (int \<times> string \<times> ('w, 'd) state) outcome"
where
  "hash_fill_dirent E pth s =
     (case strrchr pth (CHR ''/'') of
        None \<Rightarrow> Ret (-1, pth, s)
      | Some i \<Rightarrow>
          let dir = g_hash_table_lookup (cut_at pth i) s in
          if dir = NULL then Ret (-1, if i = 0 then pth else take i pth, s)
          else obind (pentry_add_dirent E dir pth s) (\<lambda>s. Ret (0, pth, s)))"

type_synonym ('w, 'd) getattr_fn =
  "('w, 'd) env \<Rightarrow> addr \<Rightarrow> string \<Rightarrow> stat \<Rightarrow> ('w, 'd) state \<Rightarrow>
    (int \<times> stat \<times> string \<times> ('w, 'd) state) outcome"

definition add_symlink :: "('w, 'd) env \<Rightarrow> 'd \<Rightarrow> stat \<Rightarrow> stat" where
  "add_symlink E c st =
     (if dict_get E c ''symlink'' \<noteq> None then st\<lparr>st_mode := st_mode st OR S_IFLNK\<rparr> else st)"

definition getattr_remote :: "('w, 'd) getattr_fn" where
  "getattr_remote E pe pth st s =
     obind (pentry_md_lock E pe s) (\<lambda>(r, s).
     if r \<noteq> 0 then Ret (-1, st, pth, s)
     else obind (pentry_get_metadata pe s) (\<lambda>meta.
          obind (if meta \<noteq> NULL then
                   obind (dict_at meta s) (\<lambda>c. Ret (add_symlink E c (fill_stat_from_metadata E st c)))
                 else Ret st) (\<lambda>st.
          obind (pentry_md_unlock E pe s) (\<lambda>(r, s).
          Ret (if r \<noteq> 0 then -1 else 0, st, pth, s)))))"

definition getattr_local :: "('w, 'd) getattr_fn" where
  "getattr_local E pe pth st s =
     obind (pentry_get_exclude pe s) (\<lambda>_.
     obind (pentry_get_fd pe s) (\<lambda>f.
     if f < 0 then Ret (-1, st, pth, s)
     else call (s_fstat E f) s (\<lambda>r s.
       case r of Inl e \<Rightarrow> Ret (-1, st, pth, s) | Inr st \<Rightarrow> Ret (0, st, pth, s))))"

text \<open>The three parts of \<^verbatim>\<open>getattr_unset\<close>: its end, what follows the metadata, and the metadata.\<close>

definition unset_end ::
  "addr \<Rightarrow> int \<Rightarrow> stat \<Rightarrow> string \<Rightarrow> ('w, 'd) state \<Rightarrow> (int \<times> stat \<times> string \<times> ('w, 'd) state) outcome"
where
  "unset_end md ret st pth s = obind (dict_free_opt md s) (\<lambda>s. Ret (ret, st, pth, s))"

definition unset_entry :: "addr \<Rightarrow> ('w, 'd) getattr_fn" where
  "unset_entry md E pe pth st s =
     obind (set_filetype_from_stat pe st s) (\<lambda>s.
     obind (hash_fill_dirent E pth s) (\<lambda>(_, pth, s). unset_end md 0 st pth s))"

definition unset_metadata :: "addr \<Rightarrow> ('w, 'd) getattr_fn" where
  "unset_metadata md E pe pth st s =
     obind (dict_at md s) (\<lambda>c.
     let st = fill_stat_from_metadata E (add_symlink E c st) c in
     obind (pentry_md_lock E pe s) (\<lambda>(r, s).
     if r \<noteq> 0 then unset_end md (-1) st pth s
     else obind (pentry_set_metadata E pe md s) (\<lambda>(_, s).
          obind (pentry_md_unlock E pe s) (\<lambda>(r, s).
          if r \<noteq> 0 then unset_end md (-1) st pth s
          else obind (pentry_set_placeholder pe FILE_REMOTE s) (\<lambda>s. unset_entry md E pe pth st s)))))"

definition getattr_unset :: "('w, 'd) getattr_fn" where
  "getattr_unset E pe pth st s =
     obind (dfs_namei_timeout E pth (dpl_cwd E) True (DPL_FTYPE_OTHER, junk_ino E) s)
       (\<lambda>(rc, (ty, obj), s).
     if rc \<noteq> DPL_SUCCESS then unset_end NULL (status_code E rc) st pth s
     else obind (dfs_getattr_timeout E pth NULL s) (\<lambda>(rc, md, s).
       if rc \<noteq> DPL_SUCCESS \<and> rc \<noteq> DPL_EISDIR then unset_end md (-1) st pth s
       else case set_default_stat E st ty s of (st, s) \<Rightarrow>
         if md \<noteq> NULL then unset_metadata md E pe pth st s else unset_entry md E pe pth st s))"

text \<open>The table \<^verbatim>\<open>cb\<close>.\<close>

primrec getattr_cb :: "placeholder \<Rightarrow> ('w, 'd) getattr_fn" where
  "getattr_cb FILE_REMOTE = getattr_remote"
| "getattr_cb FILE_LOCAL = getattr_local"
| "getattr_cb FILE_UNSET = getattr_unset"

text \<open>The entry of a path, or a new one; NULL when an allocation fails. \<open>ft\<close> is the type that a new
  directory gets. \<^verbatim>\<open>dfs_getattr\<close> and \<^verbatim>\<open>dfs_opendir\<close> share this code.\<close>

definition find_or_add ::
  "('w, 'd) env \<Rightarrow> filetype option \<Rightarrow> string \<Rightarrow> ('w, 'd) state \<Rightarrow> (addr \<times> ('w, 'd) state) outcome"
where
  "find_or_add E ft pth s =
     (let pe = g_hash_table_lookup pth s in
      if pe \<noteq> NULL then Ret (pe, s)
      else obind (pentry_new E s) (\<lambda>(pe, s).
        if pe = NULL then Ret (NULL, s)
        else obind (pentry_set_path E pe pth s) (\<lambda>s.
          obind (case ft of None \<Rightarrow> Ret s | Some t \<Rightarrow> pentry_set_filetype pe t s) (\<lambda>s.
          call (malloc_ok E) s (\<lambda>ok s.
          if \<not> ok then obind (pentry_free E pe s) (\<lambda>s. Ret (NULL, s))
          else obind (g_hash_table_insert E pth pe s) (\<lambda>s. Ret (pe, s)))))))"

definition dfs_getattr ::
  "('w, 'd) env \<Rightarrow> string \<Rightarrow> ('w, 'd) state \<Rightarrow> (int \<times> stat \<times> string \<times> ('w, 'd) state) outcome"
where
  "dfs_getattr E pth s =
     (let st = stat0\<lparr>st_nlink := 1\<rparr> in
      if pth = ''/'' then Ret (0, st\<lparr>st_mode := S_IFDIR\<rparr>, pth, s)
      else obind (find_or_add E None pth s) (\<lambda>(pe, s).
        if pe = NULL then Ret (-1, st, pth, s)
        else obind (pentry_get_placeholder pe s) (\<lambda>pl.
          obind (getattr_cb pl E pe pth st s) (\<lambda>(ret, st, pth, s).
          obind (pentry_set_atime E pe s) (\<lambda>s. Ret (ret, st, pth, s))))))"

section \<open>Rules\<close>

lemma okay_set_filetype_from_stat [okay_rule]:
  assumes "heap_inv s" "pe \<in> v_ent (view s)" "\<And>s'. heap_inv s' \<Longrightarrow> view s' = view s \<Longrightarrow> Q s'"
  shows "okay (set_filetype_from_stat pe st s) Q"
  unfolding set_filetype_from_stat_def using assms by (auto intro!: okay_setters)

lemma okay_hash_fill_dirent [okay_rule]:
  assumes "heap_inv s" "\<And>r p s'. heap_inv s' \<Longrightarrow> view s' = view s \<Longrightarrow> Q (r, p, s')"
  shows "okay (hash_fill_dirent E pth s) Q"
proof (cases "strrchr pth (CHR ''/'')")
  case None
  then show ?thesis using assms by (simp add: hash_fill_dirent_def)
next
  case (Some i)
  from assms(1) show ?thesis
    by (cases rule: lookup_cases [where k = "cut_at pth i"])
      (use assms Some in \<open>auto simp: hash_fill_dirent_def intro!: okay_setters\<close>)
qed

lemma okay_owned_dict:
  assumes "heap_inv s" "pes s a = Some p" "metadata p \<noteq> NULL" "\<And>c. dicts s (metadata p) = Some c \<Longrightarrow> Q c"
  shows "okay (dict_at (metadata p) s) Q"
proof -
  have "md_of s a = metadata p" using assms(2) by (simp add: md_of_def)
  then have "metadata p \<in> dom (dicts s)"
    using assms(1,3) unfolding heap_inv_def metadata_ok_def by metis
  then show ?thesis using assms(3,4) by (auto simp: dict_at_def)
qed

lemma okay_getattr_remote [okay_rule]:
  assumes "heap_inv s" "pe \<in> v_ent (view s)"
    and "\<And>r st s'. heap_inv s' \<Longrightarrow> view s' = view s \<Longrightarrow> Q (r, st, pth, s')"
  shows "okay (getattr_remote E pe pth st s) Q"
  unfolding getattr_remote_def
  using assms by (auto intro!: okay_md_mutex okay_getters okay_owned_dict)

lemma okay_getattr_local [okay_rule]:
  assumes "heap_inv s" "pe \<in> v_ent (view s)"
    and "\<And>r st s'. heap_inv s' \<Longrightarrow> view s' = view s \<Longrightarrow> Q (r, st, pth, s')"
  shows "okay (getattr_local E pe pth st s) Q"
  unfolding getattr_local_def
  using assms by (auto intro!: okay_getters okay_call split: sum.split)

lemma okay_unset_end [okay_rule]:
  assumes "heap_inv s" "md = NULL \<and> view s = v \<or> md \<noteq> NULL \<and> md \<notin> v_loose v \<and> view s = v_own md v"
    and "\<And>s'. heap_inv s' \<Longrightarrow> view s' = v \<Longrightarrow> Q (r, st, p, s')"
  shows "okay (unset_end md r st p s) Q"
  unfolding unset_end_def using assms by (auto intro!: okay_dict_free_opt)

lemma okay_unset_entry [okay_rule]:
  assumes "heap_inv s" "pe \<in> v_ent v"
    and "md = NULL \<and> view s = v \<or> md \<noteq> NULL \<and> md \<notin> v_loose v \<and> view s = v_own md v"
    and "\<And>p s'. heap_inv s' \<Longrightarrow> view s' = v \<Longrightarrow> Q (0, st, p, s')"
  shows "okay (unset_entry md E pe pth st s) Q"
  unfolding unset_entry_def
  using assms by (auto intro!: okay_set_filetype_from_stat okay_hash_fill_dirent okay_unset_end [where v = v])

lemma okay_unset_metadata [okay_rule]:
  assumes "heap_inv s" "pe \<in> v_ent v" "md \<noteq> NULL" "md \<notin> v_loose v" "view s = v_own md v"
    and "\<And>r st p s'. heap_inv s' \<Longrightarrow> view s' = v \<Longrightarrow> Q (r, st, p, s')"
  shows "okay (unset_metadata md E pe pth st s) Q"
  unfolding unset_metadata_def Let_def
  using assms
  by (auto intro!: okay_dict_at okay_md_mutex okay_set_metadata okay_setters okay_unset_end [where v = v]
      okay_unset_entry [where v = v])

lemma okay_getattr_unset [okay_rule]:
  assumes "heap_inv s" "pe \<in> v_ent (view s)" "dpl_clean E"
    and "\<And>r st p s'. heap_inv s' \<Longrightarrow> view s' = view s \<Longrightarrow> Q (r, st, p, s')"
  shows "okay (getattr_unset E pe pth st s) Q"
  unfolding getattr_unset_def set_default_stat_def
  using assms
  by (auto intro!: okay_namei_timeout okay_getattr_timeout okay_unset_end [where v = "view s"] okay_call
      okay_unset_entry [where v = "view s"] okay_unset_metadata [where v = "view s"] simp: call_def split: prod.splits)

lemma okay_find_or_add [okay_rule]:
  assumes "heap_inv s" "inits_ok E"
    and "\<And>s'. heap_inv s' \<Longrightarrow> view s' = view s \<Longrightarrow> Q (NULL, s')"
    and "\<And>a s'. heap_inv s' \<Longrightarrow> a \<noteq> NULL \<Longrightarrow> a \<in> v_ent (view s') \<Longrightarrow> entry_for p a (view s) (view s') \<Longrightarrow>
      Q (a, s')"
  shows "okay (find_or_add E ft p s) Q"
  using assms(1)
proof (cases rule: lookup_cases [where k = p])
  case 1
  have q: "Q (a, s')" if "heap_inv s'" "a \<noteq> NULL" "a \<notin> v_ent (view s)"
    "\<exists>x\<in>{None, Some p}. view s' = v_put p a (v_setpath a x (v_new a (view s)))" for a s'
    using that 1 by (intro assms(4)) (auto simp: entry_for_def)
  show ?thesis
    using 1 assms(1,2)
    by (auto simp: find_or_add_def v_free_new v_not_in_tbl [OF assms(1)] view_no_entry
        intro!: okay_pentry_new okay_setters okay_set_path okay_call okay_pentry_free okay_hash_insert
          assms(3) q split: option.split)
next
  case (2 a)
  then show ?thesis
    using assms(1) by (auto intro!: assms(4) simp: find_or_add_def entry_for_def)
qed

lemma okay_getattr_cb [okay_rule]:
  assumes "heap_inv s" "pe \<in> v_ent (view s)" "dpl_clean E"
    and "\<And>r st p s'. heap_inv s' \<Longrightarrow> view s' = view s \<Longrightarrow> Q (r, st, p, s')"
  shows "okay (getattr_cb pl E pe pth st s) Q"
  using assms by (cases pl) (auto intro!: okay_getattr_remote okay_getattr_local okay_getattr_unset)

text \<open>Every call leaves the view alone, but for a new entry of its path.\<close>

definition getattr_post :: "string \<Rightarrow> view \<Rightarrow> int \<Rightarrow> stat \<Rightarrow> view \<Rightarrow> bool" where
  "getattr_post p v r st w \<longleftrightarrow>
     (if p = ''/'' then r = 0 \<and> st = stat0\<lparr>st_nlink := 1, st_mode := S_IFDIR\<rparr> \<and> w = v
      else r = -1 \<and> w = v \<or> (\<exists>a. entry_for p a v w))"

lemma okay_dfs_getattr [okay_rule]:
  assumes "heap_inv s" "inits_ok E" "dpl_clean E"
    and "\<And>r st q s'. heap_inv s' \<Longrightarrow> getattr_post p (view s) r st (view s') \<Longrightarrow> Q (r, st, q, s')"
  shows "okay (dfs_getattr E p s) Q"
proof -
  have fin: "Q (r, st, q, s')" if "heap_inv s'" "p \<noteq> ''/''" "r = -1 \<and> view s' = view s \<or> (\<exists>a. entry_for p a (view s) (view s'))"
    for r st q s'
    using that by (intro assms(4)) (auto simp: getattr_post_def)
  show ?thesis
    unfolding dfs_getattr_def Let_def
    using assms(1-3)
    by (auto intro!: okay_find_or_add okay_getters okay_getattr_cb okay_setters fin assms(4)
        simp: getattr_post_def simp del: getattr_cb.simps)
qed

section \<open>Properties\<close>

text \<open>
  C27: \<^verbatim>\<open>dfs_getattr\<close> has no undefined behaviour, whatever the entry and the store answer; it
  keeps the invariant, frees every dictionary it received, and changes nothing that the view shows but
  for a new entry of its path. The root is a directory without any lookup.
\<close>

theorem getattr_correct:
  assumes "heap_inv s" "inits_ok E" "dpl_clean E"
  shows "okay (dfs_getattr E p s) (\<lambda>(r, st, q, t). heap_inv t \<and> getattr_post p (view s) r st (view t))"
  using assms by (intro okay_dfs_getattr) simp_all

theorem getattr_correct_witness:
  "okay (dfs_getattr (sample_remote DPL_SUCCESS) ''/d/g'' sample_open)
     (\<lambda>(r, st, q, t). heap_inv t \<and> getattr_post ''/d/g'' (view sample_open) r st (view t))"
  using sample_remote_ok by (intro getattr_correct) (simp_all add: remote_ok_def)

text \<open>
  \<^verbatim>\<open>set_filetype_from_stat\<close> tests the mode with a bitwise or, so every entry, a directory's
  as well, becomes a regular file; \<^verbatim>\<open>pentry_remove_dirent\<close> then refuses to remove anything from it.
\<close>

theorem filetype_always_regular:
  "set_filetype_from_stat pe st s = pentry_set_filetype pe FILE_REG s \<and>
   obind (set_filetype_from_stat pe st s) (pentry_remove_dirent pe name) =
     obind (set_filetype_from_stat pe st s) (\<lambda>t. Ret (-1, t))"
proof -
  have "st_mode st OR S_IFREG \<noteq> 0" by (simp add: or_eq_0_iff)
  then show ?thesis
    by (simp add: set_filetype_from_stat_def pentry_set_filetype_def pe_upd_def pentry_remove_dirent_def
        pe_at_def split: option.split)
qed

text \<open>
  \<^verbatim>\<open>hash_fill_dirent\<close> adds a path in front of the entries of its directory and leaves
  everything else alone; but when the directory is not in the table, it fails and leaves its caller's
  path cut to the directory.
\<close>

theorem fill_dirent_correct:
  assumes "heap_inv s" "allocs_ok E" "CHR ''/'' \<notin> set name" "dir \<noteq> []"
  shows "if map_of (hash s) dir = None
    then hash_fill_dirent E (dir @ ''/'' @ name) s = Ret (-1, dir, s)
    else \<exists>a pe w. map_of (hash s) dir = Some a \<and> pes s a = Some pe \<and>
      hash_fill_dirent E (dir @ ''/'' @ name) s = Ret (0, dir @ ''/'' @ name,
        s\<lparr>pes := (pes s)(a \<mapsto> pe\<lparr>dirent := (dir @ ''/'' @ name) # dirent pe\<rparr>), world := w\<rparr>)"
proof (cases "map_of (hash s) dir")
  case None
  then show ?thesis
    using cut_at_append [OF assms(3,4)] assms(4) by (simp add: hash_fill_dirent_def g_hash_table_lookup_def)
next
  case (Some a)
  then have "a \<in> v_ent (view s)"
    using heap_inv_tbl_ent [OF assms(1), of dir a] by (simp add: view_simps)
  then obtain pe where pe: "pe_at a s = Ret pe" "pes s a = Some pe" "a \<noteq> NULL"
    using pe_at_Ret [OF assms(1)] heap_inv_not_null [OF assms(1)] by blast
  obtain w where w: "malloc_ok E (world s) = (True, w)"
    using assms(2) unfolding allocs_ok_def by (metis prod.collapse)
  obtain w' where w': "malloc_ok E w = (True, w')"
    using assms(2) unfolding allocs_ok_def by (metis prod.collapse)
  have "pentry_add_dirent E a (dir @ ''/'' @ name) s = Ret
      (s\<lparr>pes := (pes s)(a \<mapsto> pe\<lparr>dirent := (dir @ ''/'' @ name) # dirent pe\<rparr>), world := w'\<rparr>)"
    using pe w w' by (simp add: pentry_add_dirent_def call_def pe_upd_def)
  then show ?thesis
    using Some pe cut_at_append [OF assms(3,4)]
    by (auto simp: hash_fill_dirent_def g_hash_table_lookup_def)
qed

theorem fill_dirent_correct_witness:
  "hash_fill_dirent (sample DPL_SUCCESS) ''/d/g'' sample_open = Ret (-1, ''/d'', sample_open)"
  using fill_dirent_correct [of sample_open "sample DPL_SUCCESS" "''g''" "''/d''"]
  by (simp add: allocs_ok_def sample_open_def [THEN arg_cong [of _ _ hash]])

end
