(* ===== verification/Dirents.thy ===== *)
theory Dirents
  imports CList_Refine Getattr
begin

text \<open>
  The directory entries of \<^verbatim>\<open>hash.c\<close>: an entry keeps the names below it in a \<^verbatim>\<open>struct list\<close> of
  strings it owns. The rest of the development takes this list to be a HOL list; here the operations
  are those of \<^verbatim>\<open>list.c\<close> on the store of cells, and the locale \<open>dirent_list\<close> states what the entries rely on.
\<close>

section \<open>The comparison\<close>

definition cb_compare_path :: "string compare_cb" where
  "cb_compare_path h p1 p2 =
     (if p1 = NULL \<or> p2 = NULL then Stuck AssertFail
      else obind (deref p1 h) (\<lambda>path1. obind (deref p2 h) (\<lambda>path2. Ret (path1 = path2))))"

lemma cb_compare_path_decides: "d \<noteq> NULL \<Longrightarrow> decides cb_compare_path d x (\<lambda>v. x = v)"
  by (simp add: decides_def cb_compare_path_def deref_def)

section \<open>The interface\<close>

text \<open>
  \<open>rep h p ns\<close>: in the store \<open>h\<close> the list at \<open>p\<close> holds the names \<open>ns\<close>. Adding takes whether \<^verbatim>\<open>strdup\<close> and
  \<^verbatim>\<open>malloc\<close> succeed.
\<close>

primrec names_op :: "string + string \<Rightarrow> string list \<Rightarrow> string list" where
  "names_op (Inl n) ns = n # ns"
| "names_op (Inr n) ns = remove1 n ns"

locale dirent_list =
  fixes rep :: "'h \<Rightarrow> 'p \<Rightarrow> string list \<Rightarrow> bool"
    and add :: "bool \<Rightarrow> bool \<Rightarrow> string \<Rightarrow> 'p \<Rightarrow> 'h \<Rightarrow> ('p \<times> 'h) outcome"
    and rem :: "string \<Rightarrow> 'p \<Rightarrow> 'h \<Rightarrow> ('p \<times> 'h) outcome"
    and each :: "(string \<Rightarrow> 's \<Rightarrow> 's outcome) \<Rightarrow> 'p \<Rightarrow> 'h \<Rightarrow> 's \<Rightarrow> 's outcome"
  assumes add_rep: "rep h p ns \<Longrightarrow> rets (add ok1 ok2 n p h) (\<lambda>(p', h'). rep h' p' (if ok1 \<and> ok2 then n # ns else ns))"
    and rem_rep: "rep h p ns \<Longrightarrow> rets (rem n p h) (\<lambda>(p', h'). rep h' p' (remove1 n ns))"
    and each_rep: "rep h p ns \<Longrightarrow> each f p h s = run_all f ns s"
begin

lemma add_rem: "rep h p ns \<Longrightarrow> rets (obind (add True True n p h) (\<lambda>(p, h). rem n p h)) (\<lambda>(p', h'). rep h' p' ns)"
  using add_rep [of h p ns True True n] rem_rep [of _ _ "n # ns" n]
  by (auto elim!: rets_mono)

text \<open>Any number of additions (\<open>Inl\<close>) and removals (\<open>Inr\<close>).\<close>

lemma apply_ops:
  assumes "rep h p ns"
  shows "rets (run_all (\<lambda>c (p, h). case c of Inl n \<Rightarrow> add True True n p h | Inr n \<Rightarrow> rem n p h) cs (p, h))
    (\<lambda>(p', h'). rep h' p' (fold names_op cs ns))"
  using assms
proof (induction cs arbitrary: p h ns)
  case (Cons c cs)
  show ?case
  proof (cases c)
    case (Inl n)
    then show ?thesis
      using add_rep [OF Cons.prems, of True True n] by (auto elim!: rets_mono intro: Cons.IH)
  next
    case (Inr n)
    then show ?thesis
      using rem_rep [OF Cons.prems, of n] by (auto elim!: rets_mono intro: Cons.IH)
  qed
qed simp

end

section \<open>The list of \<^verbatim>\<open>list.c\<close>\<close>

definition dirents_rep :: "string lheap \<Rightarrow> addr \<Rightarrow> string list \<Rightarrow> bool" where
  "dirents_rep h p ns \<longleftrightarrow> fresh_brk h \<and> (\<exists>xs. lrep h p xs \<and> vals h xs = ns)"

definition dirents_add :: "bool \<Rightarrow> bool \<Rightarrow> string \<Rightarrow> addr \<Rightarrow> string lheap \<Rightarrow> (addr \<times> string lheap) outcome" where
  "dirents_add ok1 ok2 name p h =
     (if \<not> ok1 then Ret (p, h) else case new_obj name h of (key, h) \<Rightarrow> Ret (list_add ok2 p key h))"

text \<open>The path that is to be removed is a string of the caller, another object of the store.\<close>

definition dirents_remove :: "string \<Rightarrow> addr \<Rightarrow> string lheap \<Rightarrow> (addr \<times> string lheap) outcome" where
  "dirents_remove name p h =
     (case new_obj name h of (key, h) \<Rightarrow> list_remove (brk h) p key cb_compare_path h)"

definition dirents_map :: "(string \<Rightarrow> 's \<Rightarrow> 's outcome) \<Rightarrow> addr \<Rightarrow> string lheap \<Rightarrow> 's \<Rightarrow> 's outcome" where
  "dirents_map f p h s = list_map (brk h) p f h s"

lemma new_obj_lrep:
  assumes "lrep h p xs" "fresh_brk h" "new_obj v h = (d, h')"
  shows "lrep h' p xs" "vals h' xs = vals h xs" "fresh_brk h'" "objs h' d = Some v" "d \<noteq> NULL" "d \<notin> snd ` set xs"
proof -
  have h': "d = brk h" "h' = h\<lparr>objs := (objs h)(d \<mapsto> v), brk := Suc d\<rparr>" using assms(3) by (auto simp: new_obj_def)
  have d: "objs h d = None" "d \<noteq> NULL" using assms(2) by (auto simp: fresh_brk_def h')
  show new: "d \<notin> snd ` set xs"
    using assms(1) d(1) by (auto simp: lrep_def owns_def list_all_iff)
  have o: "objs h' (snd x) = objs h (snd x)" if "x \<in> set xs" for x
    using that new by (force simp: h')
  have "chain h' p xs NULL = chain h p xs NULL" by (rule chain_cong) (simp add: h')
  moreover have "owns h' xs = owns h xs"
    unfolding owns_def list_all_iff using o by auto
  ultimately show "lrep h' p xs" using assms(1) by (simp add: lrep_def)
  show "vals h' xs = vals h xs" using o by (simp add: vals_def val_def)
  show "fresh_brk h'" using assms(2) by (simp add: fresh_brk_def h')
  show "objs h' d = Some v" "d \<noteq> NULL" using d by (simp_all add: h')
qed

lemma list_add_vals: "vals (snd (list_add ok p d h)) xs = vals h xs"
  by (simp add: list_add_def vals_def val_def)

lemma fresh_list_add: "fresh_brk h \<Longrightarrow> fresh_brk (snd (list_add ok p d h))"
  by (simp add: list_add_def fresh_brk_def)

lemma dirents_add_rep:
  assumes "dirents_rep h p ns"
  shows "rets (dirents_add ok1 ok2 n p h) (\<lambda>(p', h'). dirents_rep h' p' (if ok1 \<and> ok2 then n # ns else ns))"
proof -
  obtain xs where xs: "lrep h p xs" "vals h xs = ns" and f: "fresh_brk h"
    using assms by (auto simp: dirents_rep_def)
  obtain d h1 where n1: "new_obj n h = (d, h1)" by (cases "new_obj n h")
  note l = new_obj_lrep [OF xs(1) f n1]
  show ?thesis
  proof (cases "ok1 \<and> ok2")
    case True
    have "vals (snd (list_add True p d h1)) ((brk h1, d) # xs) = n # ns"
    proof -
      have "vals (snd (list_add True p d h1)) xs = ns" using l(2) xs(2) list_add_vals by metis
      moreover have "val (snd (list_add True p d h1)) (brk h1, d) = n" using l(4) by (simp add: val_def list_add_def)
      ultimately show ?thesis by (simp add: vals_def)
    qed
    then show ?thesis
      using True list_add_lrep [OF l(1,3,4,5,6)] fresh_list_add [OF l(3), of True p d]
      by (auto simp: dirents_add_def n1 dirents_rep_def split: prod.split)
  next
    case False
    then show ?thesis
      using xs f l by (auto simp: dirents_add_def n1 dirents_rep_def list_add_def)
  qed
qed

lemma chain_cells: "chain h p xs q \<Longrightarrow> a \<in> fst ` set xs \<Longrightarrow> cells h a \<noteq> None"
  by (induction h p xs q rule: chain.induct) (auto split: option.splits)

lemma fresh_dropped:
  assumes "fresh_brk h" "lrep h p xs" "dropped h h' xs ys" shows "fresh_brk h'"
proof -
  have "cells h' a = None \<and> objs h' a = None" if "brk h \<le> a" for a
  proof -
    have "cells h a = None" "objs h a = None" using assms(1) that by (simp_all add: fresh_brk_def)
    moreover from this have "a \<notin> fst ` set xs" using chain_cells [of h p xs NULL a] assms(2) by (auto simp: lrep_def)
    ultimately show ?thesis using assms(3) by (simp add: dropped_def)
  qed
  then show ?thesis using assms(1,3) by (simp add: fresh_brk_def dropped_def)
qed

lemma dirents_remove_rep:
  assumes "dirents_rep h p ns"
  shows "rets (dirents_remove n p h) (\<lambda>(p', h'). dirents_rep h' p' (remove1 n ns))"
proof -
  obtain xs where xs: "lrep h p xs" "vals h xs = ns" and f: "fresh_brk h"
    using assms by (auto simp: dirents_rep_def)
  obtain d h1 where n1: "new_obj n h = (d, h1)" by (cases "new_obj n h")
  note l = new_obj_lrep [OF xs(1) f n1]
  obtain q h' where r: "list_remove (brk h1) p d cb_compare_path h1 = Ret (q, h')"
      and h': "lrep h' q (remove_first ((\<lambda>v. n = v) \<circ> val h1) xs)"
        "dropped h1 h' xs (remove_first ((\<lambda>v. n = v) \<circ> val h1) xs)"
    using list_remove_removes [OF l(1) cb_compare_path_decides [OF l(5)] l(4) owns_fresh_length [OF l(1,3)]]
    by (auto simp: removes_def rets_iff)
  have "vals h' (remove_first ((\<lambda>v. n = v) \<circ> val h1) xs) = remove1 n ns"
    using dropped_vals [OF h'(2)] l(2) xs(2) by (simp add: vals_remove_first remove_first_eq set_remove_first)
  then show ?thesis
    using h' fresh_dropped [OF l(3,1) h'(2)] by (auto simp: dirents_remove_def n1 r dirents_rep_def)
qed

lemma dirents_map_rep: "dirents_rep h p ns \<Longrightarrow> dirents_map f p h s = run_all f ns s"
  using list_map_run_all owns_fresh_length by (fastforce simp: dirents_rep_def dirents_map_def)

definition dirents_op :: "string + string \<Rightarrow> addr \<times> string lheap \<Rightarrow> (addr \<times> string lheap) outcome" where
  "dirents_op c ph = (case ph of (p, h) \<Rightarrow>
     case c of Inl n \<Rightarrow> dirents_add True True n p h | Inr n \<Rightarrow> dirents_remove n p h)"

interpretation dl: dirent_list dirents_rep dirents_add dirents_remove dirents_map
  by unfold_locales (simp_all add: dirents_add_rep dirents_remove_rep dirents_map_rep)

section \<open>Printing the table\<close>

text \<open>\<^verbatim>\<open>print\<close> traces the fields of an entry, at the level \<^verbatim>\<open>LOG_DEBUG\<close>.\<close>

definition print_entry :: "string \<Rightarrow> addr \<Rightarrow> ('w, 'd) state \<Rightarrow> ('w, 'd) state outcome" where
  "print_entry key pe s =
     obind (LOG LOG_DEBUG s (obind (pe_at pe s) (\<lambda>p. Ret ()))) (\<lambda>_. Ret s)"

definition hash_print_all :: "('w, 'd) state \<Rightarrow> ('w, 'd) state outcome" where
  "hash_print_all s = g_hash_table_foreach print_entry (hash s) s"

lemma print_entries:
  "\<forall>(k, a) \<in> set xs. a \<noteq> NULL \<and> a \<in> dom (pes s) \<Longrightarrow> g_hash_table_foreach print_entry xs s = Ret s"
  by (induction xs) (auto simp: print_entry_def pe_at_def)

section \<open>Properties\<close>

text \<open>What the two operations of \<^verbatim>\<open>hash.c\<close> do to the list of an entry, \<open>p\<close> in the store \<open>h\<close>.\<close>

definition same_dirents :: "string lheap \<Rightarrow> addr \<Rightarrow> addr \<Rightarrow> ('w, 'd) state \<Rightarrow> bool" where
  "same_dirents h p a s \<longleftrightarrow> (\<exists>pe. pes s a = Some pe \<and> filetype pe = FILE_DIR \<and> dirents_rep h p (dirent pe))"

text \<open>
  C38: the list of strings that stands for the directory entries in the model of
  \<^verbatim>\<open>pentry_add_dirent\<close> and \<^verbatim>\<open>pentry_remove_dirent\<close> is what the operations of \<^verbatim>\<open>list.c\<close> with
  \<^verbatim>\<open>cb_compare_path\<close> keep in the store of cells: run side by side from related states, with the same answers
  of \<^verbatim>\<open>malloc\<close>, they return related states, and neither touches freed memory.
\<close>

theorem dirents_refine:
  assumes "same_dirents h p a s" "a \<noteq> NULL"
    and "malloc_ok E (world s) = (ok1, w)" "malloc_ok E w = (ok2, w')"
  shows "(\<exists>p' h' t. dirents_add ok1 ok2 n p h = Ret (p', h') \<and> pentry_add_dirent E a n s = Ret t \<and> same_dirents h' p' a t) \<and>
    (\<exists>p' h' t. dirents_remove n p h = Ret (p', h') \<and> pentry_remove_dirent a n s = Ret (0, t) \<and> same_dirents h' p' a t)"
proof -
  obtain pe where pe: "pes s a = Some pe" "filetype pe = FILE_DIR" "dirents_rep h p (dirent pe)"
    using assms(1) by (auto simp: same_dirents_def)
  have "\<exists>t. pentry_add_dirent E a n s = Ret t \<and>
      (\<exists>q. pes t a = Some q \<and> filetype q = FILE_DIR \<and> dirent q = (if ok1 \<and> ok2 then n # dirent pe else dirent pe))"
    using pe assms(2-4) by (auto simp: pentry_add_dirent_def pe_at_def pe_upd_def call_def)
  moreover have "\<exists>t. pentry_remove_dirent a n s = Ret (0, t) \<and>
      (\<exists>q. pes t a = Some q \<and> filetype q = FILE_DIR \<and> dirent q = remove1 n (dirent pe))"
    using pe assms(2) by (auto simp: pentry_remove_dirent_def pe_at_def pe_upd_def)
  ultimately show ?thesis
    using dl.add_rep [OF pe(3), of ok1 ok2 n] dl.rem_rep [OF pe(3), of n]
    unfolding rets_iff same_dirents_def by fastforce
qed

definition sample_dir :: "(nat, sample_dict) state" where
  "sample_dir = sample_open\<lparr>pes := [1 \<mapsto> sample_pentry\<lparr>filetype := FILE_DIR, dirent := [''a'', ''b'']\<rparr>]\<rparr>"

theorem dirents_refine_witness:
  "\<exists>p' h' t. dirents_remove ''a'' 1 two_strings = Ret (p', h') \<and> pentry_remove_dirent 1 ''a'' sample_dir = Ret (0, t) \<and>
    same_dirents h' p' 1 t"
proof -
  have "fresh_brk two_strings" by (auto simp: fresh_brk_def two_strings_def)
  moreover have "vals two_strings [(1, 2), (3, 4)] = [''a'', ''b'']" by (simp add: vals_def val_def two_strings_def)
  ultimately have "dirents_rep two_strings 1 [''a'', ''b'']"
    using two_strings_lrep unfolding dirents_rep_def by blast
  then have "same_dirents two_strings 1 1 sample_dir" by (simp add: same_dirents_def sample_dir_def)
  from dirents_refine [OF this, where E = "sample DPL_SUCCESS"] show ?thesis by simp
qed

text \<open>
  Any sequence of additions and removals on the list of \<^verbatim>\<open>list.c\<close>, started on the empty list, leaves the names that the
  same operations leave in a list of strings, the newest first; a walk with \<^verbatim>\<open>list_map\<close> then visits them in this order.
\<close>

theorem dirents_history:
  assumes "fresh_brk h"
  shows "rets (run_all dirents_op cs (NULL, h)) (\<lambda>(p, h'). dirents_rep h' p (fold names_op cs []) \<and>
    dirents_map f p h' s = run_all f (fold names_op cs []) s)"
proof -
  have "dirents_rep h NULL []" using assms by (auto simp: dirents_rep_def vals_def)
  moreover have "dirents_op = (\<lambda>c (p, h). case c of Inl n \<Rightarrow> dirents_add True True n p h | Inr n \<Rightarrow> dirents_remove n p h)"
    by (intro ext) (simp add: dirents_op_def)
  ultimately have "rets (run_all dirents_op cs (NULL, h)) (\<lambda>(p, h'). dirents_rep h' p (fold names_op cs []))"
    using dl.apply_ops [of h NULL "[]" cs] by simp
  then show ?thesis by (rule rets_mono) (auto intro: dl.each_rep)
qed

theorem dirents_history_witness:
  "rets (run_all dirents_op [Inl ''a'', Inl ''b'', Inr ''a'', Inl ''c''] (NULL, two_strings)) (\<lambda>(p, h').
    dirents_rep h' p [''c'', ''b''] \<and>
    dirents_map (\<lambda>n ns. Ret (ns @ [n])) p h' [] = run_all (\<lambda>n ns. Ret (ns @ [n])) [''c'', ''b''] [])"
proof -
  have ns: "fold names_op [Inl ''a'', Inl ''b'', Inr ''a'', Inl ''c''] [] = [''c'', ''b'']" by simp
  have "fresh_brk two_strings" by (auto simp: fresh_brk_def two_strings_def)
  then show ?thesis by (rule dirents_history [of two_strings "[Inl ''a'', Inl ''b'', Inr ''a'', Inl ''c'']", unfolded ns])
qed

end
