(* ===== verification/Regex.thy ===== *)
theory Regex
  imports Release
begin

text \<open>
  \<^verbatim>\<open>src/regex.c\<close>: the exclusion pattern of the configuration. The functions act on a
  \<^verbatim>\<open>struct re\<close> inside the configuration; a compiled pattern is the pattern.
\<close>

text \<open>\<open>pat\<close> is NULL or a string. The failing branches leave the fields they do not set.\<close>

definition re_ctor ::
  "('w, 'd) env \<Rightarrow> re \<Rightarrow> string option \<Rightarrow> ('w, 'd) state \<Rightarrow> (int \<times> re) \<times> ('w, 'd) state"
where
  "re_ctor E r pat s =
     (let r = r\<lparr>re_set := False\<rparr> in
      case pat of
        None \<Rightarrow> ((-1, r), s)
      | Some p \<Rightarrow>
          if p = [] then ((-1, r), s)
          else if \<not> s_regcomp E p then ((-1, r), s)
          else let r = r\<lparr>re_rx := Some p\<rparr> in
            call (malloc_ok E) s (\<lambda>ok s.
            if \<not> ok then ((-1, r\<lparr>re_str := CNull\<rparr>), s)
            else ((0, r\<lparr>re_str := CHeap p, re_set := True\<rparr>), s)))"

text \<open>\<^verbatim>\<open>regfree\<close> of the zeroed memory of a pattern that was never compiled is harmless; the
  pointer \<^verbatim>\<open>str\<close> keeps its value.\<close>

definition re_dtor :: "re \<Rightarrow> re outcome" where
  "re_dtor r =
     obind (if re_str r \<noteq> CNull then cstr_free (re_str r) else Ret ()) (\<lambda>_.
     Ret (r\<lparr>re_str := (if re_str r \<noteq> CNull then CFreed else CNull), re_rx := None\<rparr>))"

definition re_matcher :: "('w, 'd) env \<Rightarrow> re \<Rightarrow> string \<Rightarrow> bool" where
  "re_matcher E r str =
     (if \<not> re_set r then False
      else case re_rx r of None \<Rightarrow> False | Some p \<Rightarrow> s_regexec E p str)"

text \<open>A set expression is compiled and owns its string.\<close>

definition re_inv :: "re \<Rightarrow> bool" where
  "re_inv r \<longleftrightarrow> (re_set r \<longrightarrow> (\<exists>p. p \<noteq> [] \<and> re_rx r = Some p \<and> re_str r = CHeap p))"

lemma re_ctor_inv: "re_ctor E r pat s = ((rc, r'), t) \<Longrightarrow> re_inv r' \<and> (rc = 0 \<longleftrightarrow> re_set r')"
  by (auto simp: re_ctor_def re_inv_def call_def Let_def split: option.splits if_splits prod.splits)

lemma re_matcher_ctor:
  "re_ctor E r (Some p) s = ((0, r'), t) \<Longrightarrow> re_matcher E r' str = s_regexec E p str"
  by (auto simp: re_ctor_def re_matcher_def call_def Let_def split: if_splits prod.splits)

end
