(* ===== verification/Conf.thy ===== *)
theory Conf
  imports Regex
begin

text \<open>
  \<^verbatim>\<open>src/conf.c\<close> and \<^verbatim>\<open>src/env.c\<close>: the configuration, from the defaults, the file
  \<^verbatim>\<open>~/.dplfsrc\<close> and the environment, in this order. The functions act on the configuration of
  the state; \<open>bucket\<close> is \<^verbatim>\<open>ctx->cur_bucket\<close>. Each \<^verbatim>\<open>free\<close> of a string is a step that can go
  wrong.
\<close>

section \<open>Log levels\<close>

definition log_level_to_str :: "int \<Rightarrow> string outcome" where
  "log_level_to_str l =
     (if l = 0 then Ret ''LOG_EMERG'' else if l = 1 then Ret ''LOG_ALERT''
      else if l = 2 then Ret ''LOG_CRIT'' else if l = 3 then Ret ''LOG_ERR''
      else if l = 4 then Ret ''LOG_WARNING'' else if l = 5 then Ret ''LOG_NOTICE''
      else if l = 6 then Ret ''LOG_INFO'' else if l = 7 then Ret ''LOG_DEBUG''
      else Stuck AssertFail)"

definition str_to_log_level :: "string \<Rightarrow> u32" where
  "str_to_log_level str =
     (if str = ''LOG_EMERG'' then 0 else if str = ''LOG_ALERT'' then 1
      else if str = ''LOG_CRIT'' then 2 else if str = ''LOG_ERR'' then 3
      else if str = ''LOG_WARNING'' then 4 else if str = ''LOG_NOTICE'' then 5
      else if str = ''LOG_INFO'' then 6 else if str = ''LOG_DEBUG'' then 7
      else 3)"

section \<open>Construction and release\<close>

definition conf_zero :: conf where
  "conf_zero =
     \<lparr>root_dir = CNull, cache_dir = CNull, compression_method = CNull, zlib_level = 0,
      gc_loop_delay = 0, gc_age_threshold = 0, sc_loop_delay = 0, sc_age_threshold = 0,
      max_retry = 0, log_level = 0, cache_max_size = 0,
      regex = \<lparr>re_str = CNull, re_rx = None, re_set = False\<rparr>, encryption_method = CNull,
      debug = 0, profiling = 0, profiling_logfile = CNull\<rparr>"

definition conf_new :: "('w, 'd) env \<Rightarrow> ('w, 'd) state \<Rightarrow> conf option \<times> ('w, 'd) state" where
  "conf_new E s = call (malloc_ok E) s (\<lambda>ok s. (if ok then Some conf_zero else None, s))"

definition conf_dtor :: "conf \<Rightarrow> conf outcome" where
  "conf_dtor c =
     (if re_set (regex c) then obind (re_dtor (regex c)) (\<lambda>r. Ret (c\<lparr>regex := r\<rparr>)) else Ret c)"

text \<open>What is left of the structure is not used again, so only success is returned.\<close>

definition conf_free :: "conf \<Rightarrow> unit outcome" where
  "conf_free c =
     obind (conf_dtor c) (\<lambda>c.
     obind (if compression_method c \<noteq> CNull then cstr_free (compression_method c) else Ret ()) (\<lambda>_.
     if cache_dir c \<noteq> CNull then cstr_free (cache_dir c) else Ret ()))"

text \<open>
  Removal of the trailing slashes: the loop goes on to the left of the string when there is
  nothing else in it.
\<close>

definition strip_slashes :: "string \<Rightarrow> string outcome" where
  "strip_slashes s = (if rstrip s = [] then Stuck OutOfBounds else Ret (rstrip s))"

definition conf_set_root_dir ::
  "('w, 'd) env \<Rightarrow> string option \<Rightarrow> ('w, 'd) state \<Rightarrow> (int \<times> ('w, 'd) state) outcome"
where
  "conf_set_root_dir E root s =
     (case root of
        None \<Rightarrow> Ret (0, s)
      | Some r \<Rightarrow>
          obind (if root_dir (cfg s) \<noteq> CNull then cstr_free (root_dir (cfg s)) else Ret ()) (\<lambda>_.
          obind (strip_slashes r) (\<lambda>r.
          call (malloc_ok E) s (\<lambda>ok s.
          Ret (if ok then 0 else -1,
               s\<lparr>cfg := (cfg s)\<lparr>root_dir := (if ok then CHeap r else CNull)\<rparr>\<rparr>)))))"

definition conf_set_full_cache_dir ::
  "('w, 'd) env \<Rightarrow> string \<Rightarrow> ('w, 'd) state \<Rightarrow> (int \<times> ('w, 'd) state) outcome"
where
  "conf_set_full_cache_dir E bucket s =
     (if cache_dir (cfg s) = CNull then Ret (-1, s)
      else let cache = tmpstr_fit (cstr_print (cache_dir (cfg s)) @ ''/'' @ bucket) in
        obind (cstr_free (cache_dir (cfg s))) (\<lambda>_.
        call (malloc_ok E) s (\<lambda>ok s.
        if \<not> ok then Ret (-1, s\<lparr>cfg := (cfg s)\<lparr>cache_dir := CNull\<rparr>\<rparr>)
        else call (s_mkdir E cache) (s\<lparr>cfg := (cfg s)\<lparr>cache_dir := CHeap cache\<rparr>\<rparr>) (\<lambda>r s.
          case r of
            Inl e \<Rightarrow>
              if e \<noteq> EEXIST then Ret (-1, s)
              else obind (strip_slashes cache) (\<lambda>cache.
                   Ret (0, s\<lparr>cfg := (cfg s)\<lparr>cache_dir := CHeap cache\<rparr>\<rparr>))
          | Inr u \<Rightarrow>
              obind (strip_slashes cache) (\<lambda>cache.
              Ret (0, s\<lparr>cfg := (cfg s)\<lparr>cache_dir := CHeap cache\<rparr>\<rparr>))))))"

section \<open>The configuration file\<close>

text \<open>The value of a line: what follows the first \<^verbatim>\<open>=\<close> and white space.\<close>

definition line_value :: "string \<Rightarrow> string option" where
  "line_value line =
     (case strchr line (CHR ''='') of None \<Rightarrow> None | Some p \<Rightarrow> Some (dropWhile isspace (tl p)))"

text \<open>\<open>None\<close> is -1; an \<^verbatim>\<open>unsigned long\<close> is cut to an \<^verbatim>\<open>int\<close>.\<close>

definition parse_int :: "string \<Rightarrow> u32 option" where
  "parse_int line = map_option (\<lambda>p. ucast (strtoul p)) (line_value line)"

text \<open>The result is the return value and what \<^verbatim>\<open>*field\<close> holds.\<close>

definition parse_str ::
  "('w, 'd) env \<Rightarrow> cstr \<Rightarrow> string \<Rightarrow> ('w, 'd) state \<Rightarrow> (int \<times> cstr \<times> ('w, 'd) state) outcome"
where
  "parse_str E field line s =
     (case line_value line of
        None \<Rightarrow> Ret (-1, field, s)
      | Some p \<Rightarrow>
          if p = [] then Ret (0, field, s)
          else obind (if field \<noteq> CNull then cstr_free field else Ret ()) (\<lambda>_.
               call (malloc_ok E) s (\<lambda>ok s.
               if ok then Ret (0, CHeap p, s) else Ret (-1, CNull, s))))"

text \<open>The body of one \<^verbatim>\<open>if\<close> of \<^verbatim>\<open>parse_token\<close>; \<open>False\<close> is its \<^verbatim>\<open>return -1\<close>.\<close>

definition int_field ::
  "(u32 \<Rightarrow> conf \<Rightarrow> conf) \<Rightarrow> string \<Rightarrow> ('w, 'd) state \<Rightarrow> (bool \<times> ('w, 'd) state) outcome"
where
  "int_field put token s =
     (case parse_int token of
        None \<Rightarrow> Ret (False, s)
      | Some v \<Rightarrow> Ret (True, s\<lparr>cfg := put v (cfg s)\<rparr>))"

definition str_field ::
  "('w, 'd) env \<Rightarrow> (conf \<Rightarrow> cstr) \<Rightarrow> (cstr \<Rightarrow> conf \<Rightarrow> conf) \<Rightarrow> string \<Rightarrow> ('w, 'd) state \<Rightarrow>
    (bool \<times> ('w, 'd) state) outcome"
where
  "str_field E get put token s =
     obind (parse_str E (get (cfg s)) token s) (\<lambda>(r, v, s).
     Ret (r \<noteq> -1, s\<lparr>cfg := put v (cfg s)\<rparr>))"

definition cache_dir_field ::
  "('w, 'd) env \<Rightarrow> string \<Rightarrow> string \<Rightarrow> ('w, 'd) state \<Rightarrow> (bool \<times> ('w, 'd) state) outcome"
where
  "cache_dir_field E bucket token s =
     obind (str_field E cache_dir (\<lambda>v c. c\<lparr>cache_dir := v\<rparr>) token s) (\<lambda>(ok, s).
     if \<not> ok then Ret (False, s)
     else obind (conf_set_full_cache_dir E bucket s) (\<lambda>(r, s). Ret (r \<noteq> -1, s)))"

text \<open>The local variable \<^verbatim>\<open>log\<close> stays NULL when the value is empty.\<close>

definition log_level_field ::
  "('w, 'd) env \<Rightarrow> string \<Rightarrow> ('w, 'd) state \<Rightarrow> (bool \<times> ('w, 'd) state) outcome"
where
  "log_level_field E token s =
     obind (parse_str E CNull token s) (\<lambda>(r, log, s).
     if r = -1 then Ret (False, s)
     else obind (cstr_get log) (\<lambda>str.
       let l = str_to_log_level str; l = (if sint l > 7 \<or> sint l < 0 then 3 else l)
       in Ret (True, s\<lparr>cfg := (cfg s)\<lparr>log_level := l\<rparr>\<rparr>)))"

text \<open>The keys of \<^verbatim>\<open>parse_token\<close> with their fields, in its order. A key matches every token it
  is a prefix of.\<close>

definition token_fields ::
  "('w, 'd) env \<Rightarrow> string \<Rightarrow> (string \<times> (string \<Rightarrow> ('w, 'd) state \<Rightarrow> (bool \<times> ('w, 'd) state) outcome)) list"
where
  "token_fields E bucket =
     [(''compression_method'', str_field E compression_method (\<lambda>v c. c\<lparr>compression_method := v\<rparr>)),
      (''zlib_level'', int_field (\<lambda>v c. c\<lparr>zlib_level := v\<rparr>)),
      (''max_retry'', int_field (\<lambda>v c. c\<lparr>max_retry := v\<rparr>)),
      (''gc_loop_delay'', int_field (\<lambda>v c. c\<lparr>gc_loop_delay := v\<rparr>)),
      (''gc_age_threshold'', int_field (\<lambda>v c. c\<lparr>gc_age_threshold := v\<rparr>)),
      (''sc_loop_delay'', int_field (\<lambda>v c. c\<lparr>sc_loop_delay := v\<rparr>)),
      (''sc_age_threshold'', int_field (\<lambda>v c. c\<lparr>sc_age_threshold := v\<rparr>)),
      (''cache_dir'', cache_dir_field E bucket),
      (''exclusion_pattern'', str_field E (\<lambda>c. re_str (regex c)) (\<lambda>v c. c\<lparr>regex := (regex c)\<lparr>re_str := v\<rparr>\<rparr>)),
      (''encryption_method'', str_field E encryption_method (\<lambda>v c. c\<lparr>encryption_method := v\<rparr>)),
      (''cache_max_size'', int_field (\<lambda>v c. c\<lparr>cache_max_size := v\<rparr>)),
      (''log_level'', log_level_field E),
      (''profiling'', int_field (\<lambda>v c. c\<lparr>profiling := v\<rparr>)),
      (''profiling_logfile'', str_field E profiling_logfile (\<lambda>v c. c\<lparr>profiling_logfile := v\<rparr>))]"

fun run_fields ::
  "(string \<times> (string \<Rightarrow> ('w, 'd) state \<Rightarrow> (bool \<times> ('w, 'd) state) outcome)) list \<Rightarrow> string \<Rightarrow>
    ('w, 'd) state \<Rightarrow> (int \<times> ('w, 'd) state) outcome"
where
  "run_fields [] token s = Ret (0, s)"
| "run_fields ((key, field) # fs) token s =
     (if strncasecmp_eq token key (length key) then
        obind (field token s) (\<lambda>(ok, s). if ok then run_fields fs token s else Ret (-1, s))
      else run_fields fs token s)"

definition parse_token ::
  "('w, 'd) env \<Rightarrow> string \<Rightarrow> string \<Rightarrow> ('w, 'd) state \<Rightarrow> (int \<times> ('w, 'd) state) outcome"
where
  "parse_token E bucket token s = run_fields (token_fields E bucket) token s"

text \<open>The test for an empty line after the spaces compares the pointer and never holds.\<close>

definition parse_line ::
  "('w, 'd) env \<Rightarrow> string \<Rightarrow> string \<Rightarrow> ('w, 'd) state \<Rightarrow> (int \<times> ('w, 'd) state) outcome"
where
  "parse_line E bucket line s =
     (if line = [] then Ret (0, s)
      else let line = dropWhile isspace line in
        if line \<noteq> [] \<and> hd line = CHR ''#'' then Ret (0, s) else parse_token E bucket line s)"

text \<open>The last character of what \<^verbatim>\<open>fgets\<close> read is cut off, whether it is a newline or not.\<close>

fun parse_lines ::
  "('w, 'd) env \<Rightarrow> string \<Rightarrow> string list \<Rightarrow> ('w, 'd) state \<Rightarrow> (int \<times> ('w, 'd) state) outcome"
where
  "parse_lines E bucket [] s = Ret (0, s)"
| "parse_lines E bucket (l # ls) s =
     obind (parse_line E bucket (butlast l) s) (\<lambda>(r, s).
     if r = -1 then Ret (-1, s) else parse_lines E bucket ls s)"

definition parse_file ::
  "('w, 'd) env \<Rightarrow> string \<Rightarrow> string \<Rightarrow> ('w, 'd) state \<Rightarrow> (int \<times> ('w, 'd) state) outcome"
where
  "parse_file E bucket pth s =
     (case s_lines E pth of None \<Rightarrow> Ret (0, s) | Some ls \<Rightarrow> parse_lines E bucket ls s)"

section \<open>The environment\<close>

definition env_generic_set_int ::
  "('w, 'd) env \<Rightarrow> (u32 \<Rightarrow> conf \<Rightarrow> conf) \<Rightarrow> string \<Rightarrow> ('w, 'd) state \<Rightarrow> ('w, 'd) state"
where
  "env_generic_set_int E put var s =
     (case s_getenv E var of
        None \<Rightarrow> s
      | Some tmp \<Rightarrow> if tmp = [] then s else s\<lparr>cfg := put (ucast (strtoul tmp)) (cfg s)\<rparr>)"

definition env_generic_set_str ::
  "('w, 'd) env \<Rightarrow> (conf \<Rightarrow> cstr) \<Rightarrow> (cstr \<Rightarrow> conf \<Rightarrow> conf) \<Rightarrow> string \<Rightarrow> ('w, 'd) state \<Rightarrow>
    ('w, 'd) state outcome"
where
  "env_generic_set_str E get put var s =
     (case s_getenv E var of
        None \<Rightarrow> Ret s
      | Some tmp \<Rightarrow>
          if tmp = [] then Ret s
          else call (malloc_ok E) s (\<lambda>ok s.
            if \<not> ok then Ret s
            else obind (if get (cfg s) \<noteq> CNull then cstr_free (get (cfg s)) else Ret ()) (\<lambda>_.
                 Ret (s\<lparr>cfg := put (CHeap tmp) (cfg s)\<rparr>))))"

definition env_set_log_level :: "('w, 'd) env \<Rightarrow> ('w, 'd) state \<Rightarrow> ('w, 'd) state" where
  "env_set_log_level E s =
     (case s_getenv E ''DROPLETFS_LOG_LEVEL'' of
        None \<Rightarrow> s
      | Some tmp \<Rightarrow>
          if tmp = [] then s else s\<lparr>cfg := (cfg s)\<lparr>log_level := str_to_log_level tmp\<rparr>\<rparr>)"

definition env_set_exclusion_pattern ::
  "('w, 'd) env \<Rightarrow> ('w, 'd) state \<Rightarrow> ('w, 'd) state outcome"
where
  "env_set_exclusion_pattern E s =
     (case s_getenv E ''DROPLETFS_EXCLUSION_PATTERN'' of
        None \<Rightarrow> Ret s
      | Some tmp \<Rightarrow>
          obind (re_dtor (regex (cfg s))) (\<lambda>r.
          case re_ctor E r (Some tmp) s of ((rc, r), s) \<Rightarrow> Ret (s\<lparr>cfg := (cfg s)\<lparr>regex := r\<rparr>\<rparr>)))"

definition env_set_gc_loop_delay :: "('w, 'd) env \<Rightarrow> ('w, 'd) state \<Rightarrow> ('w, 'd) state" where
  "env_set_gc_loop_delay E s =
     env_generic_set_int E (\<lambda>v c. c\<lparr>gc_loop_delay := v\<rparr>) ''DROPLETFS_GC_LOOP_DELAY'' s"

definition env_set_gc_age_threshold :: "('w, 'd) env \<Rightarrow> ('w, 'd) state \<Rightarrow> ('w, 'd) state" where
  "env_set_gc_age_threshold E s =
     env_generic_set_int E (\<lambda>v c. c\<lparr>gc_age_threshold := v\<rparr>) ''DROPLETFS_GC_AGE_THRESHOLD'' s"

definition env_set_sc_loop_delay :: "('w, 'd) env \<Rightarrow> ('w, 'd) state \<Rightarrow> ('w, 'd) state" where
  "env_set_sc_loop_delay E s =
     env_generic_set_int E (\<lambda>v c. c\<lparr>sc_loop_delay := v\<rparr>) ''DROPLETFS_SC_LOOP_DELAY'' s"

definition env_set_sc_age_threshold :: "('w, 'd) env \<Rightarrow> ('w, 'd) state \<Rightarrow> ('w, 'd) state" where
  "env_set_sc_age_threshold E s =
     env_generic_set_int E (\<lambda>v c. c\<lparr>sc_age_threshold := v\<rparr>) ''DROPLETFS_SC_AGE_THRESHOLD'' s"

definition env_set_compression_level :: "('w, 'd) env \<Rightarrow> ('w, 'd) state \<Rightarrow> ('w, 'd) state" where
  "env_set_compression_level E s =
     env_generic_set_int E (\<lambda>v c. c\<lparr>zlib_level := v\<rparr>) ''DROPLETFS_ZLIB_LEVEL'' s"

definition env_set_max_retry :: "('w, 'd) env \<Rightarrow> ('w, 'd) state \<Rightarrow> ('w, 'd) state" where
  "env_set_max_retry E s =
     env_generic_set_int E (\<lambda>v c. c\<lparr>max_retry := v\<rparr>) ''DROPLETFS_MAX_RETRY'' s"

definition env_set_cache_max_size :: "('w, 'd) env \<Rightarrow> ('w, 'd) state \<Rightarrow> ('w, 'd) state" where
  "env_set_cache_max_size E s =
     env_generic_set_int E (\<lambda>v c. c\<lparr>cache_max_size := v\<rparr>) ''DROPLETFS_CACHE_MAX_SIZE'' s"

definition env_set_profiling :: "('w, 'd) env \<Rightarrow> ('w, 'd) state \<Rightarrow> ('w, 'd) state" where
  "env_set_profiling E s =
     env_generic_set_int E (\<lambda>v c. c\<lparr>profiling := v\<rparr>) ''DROPLETFS_PROFILING'' s"

definition env_set_compression_method :: "('w, 'd) env \<Rightarrow> ('w, 'd) state \<Rightarrow> ('w, 'd) state outcome" where
  "env_set_compression_method E s =
     env_generic_set_str E compression_method (\<lambda>v c. c\<lparr>compression_method := v\<rparr>) ''DROPLETFS_COMPRESSION_METHOD'' s"

definition env_set_profiling_logfile :: "('w, 'd) env \<Rightarrow> ('w, 'd) state \<Rightarrow> ('w, 'd) state outcome" where
  "env_set_profiling_logfile E s =
     env_generic_set_str E profiling_logfile (\<lambda>v c. c\<lparr>profiling_logfile := v\<rparr>) ''DROPLETFS_PROFILING_LOGFILE'' s"

definition env_set_encryption_method :: "('w, 'd) env \<Rightarrow> ('w, 'd) state \<Rightarrow> ('w, 'd) state outcome" where
  "env_set_encryption_method E s =
     env_generic_set_str E encryption_method (\<lambda>v c. c\<lparr>encryption_method := v\<rparr>) ''DROPLETFS_ENCRYPTION_METHOD'' s"

definition env_override_conf :: "('w, 'd) env \<Rightarrow> ('w, 'd) state \<Rightarrow> ('w, 'd) state outcome" where
  "env_override_conf E s =
     obind (env_set_compression_method E s) (\<lambda>s.
     let s = env_set_compression_level E s;
         s = env_set_max_retry E s;
         s = env_set_gc_loop_delay E s;
         s = env_set_gc_age_threshold E s;
         s = env_set_sc_loop_delay E s;
         s = env_set_sc_age_threshold E s
     in
     obind (env_set_exclusion_pattern E s) (\<lambda>s.
     let s = env_set_cache_max_size E s;
         s = env_set_log_level E s
     in
     obind (env_set_encryption_method E s) (\<lambda>s.
     let s = env_set_profiling E s in env_set_profiling_logfile E s)))"

section \<open>The constructor\<close>

definition conf_defaults :: "conf \<Rightarrow> conf" where
  "conf_defaults c =
     c\<lparr>zlib_level := 3, gc_loop_delay := 60, gc_age_threshold := 900, sc_loop_delay := 0,
       sc_age_threshold := 0, max_retry := 5, log_level := 3, cache_max_size := 10 * 1024 * 1024,
       profiling := 0, profiling_logfile := CLit ''/tmp/dplfs_trace.log'',
       regex := (regex c)\<lparr>re_set := False\<rparr>\<rparr>"

definition conf_ctor_default ::
  "('w, 'd) env \<Rightarrow> string option \<Rightarrow> ('w, 'd) state \<Rightarrow> (int \<times> ('w, 'd) state) outcome"
where
  "conf_ctor_default E root s =
     obind (conf_set_root_dir E root s) (\<lambda>(r, s).
     if r = -1 then Ret (-1, s)
     else call (malloc_ok E) s (\<lambda>ok s.
       let s = s\<lparr>cfg := (cfg s)\<lparr>cache_dir := (if ok then CHeap ''/tmp'' else CNull)\<rparr>\<rparr> in
       if \<not> ok then Ret (-1, s)
       else call (malloc_ok E) s (\<lambda>ok s.
         let s = s\<lparr>cfg := (cfg s)\<lparr>compression_method := (if ok then CHeap ''NONE'' else CNull)\<rparr>\<rparr> in
         if \<not> ok then Ret (-1, s)
         else call (malloc_ok E) s (\<lambda>ok s.
           let s = s\<lparr>cfg := (cfg s)\<lparr>encryption_method := (if ok then CHeap ''NONE'' else CNull)\<rparr>\<rparr> in
           if \<not> ok then Ret (-1, s)
           else Ret (0, s\<lparr>cfg := conf_defaults (cfg s)\<rparr>)))))"

definition conf_ctor ::
  "('w, 'd) env \<Rightarrow> string \<Rightarrow> string option \<Rightarrow> u32 \<Rightarrow> ('w, 'd) state \<Rightarrow>
    (int \<times> ('w, 'd) state) outcome"
where
  "conf_ctor E bucket root dbg s =
     obind (conf_ctor_default E root s) (\<lambda>(r, s).
     obind (if r = -1 then Ret (-1, s)
            else case s_getenv E ''HOME'' of
              None \<Rightarrow> Ret (0, s)
            | Some home \<Rightarrow>
                let pth = tmpstr_fit (home @ ''/.dplfsrc'') in
                obind (conf_set_full_cache_dir E bucket s) (\<lambda>(r, s).
                if r = -1 then Ret (0, s)
                else obind (parse_file E bucket pth s) (\<lambda>(r, s). Ret (0, s)))) (\<lambda>(ret, s).
     obind (env_override_conf E s) (\<lambda>s.
     Ret (ret, s\<lparr>cfg := (cfg s)\<lparr>debug := dbg\<rparr>\<rparr>))))"

end
