(* ===== verification/Conf_Safe.thy ===== *)
theory Conf_Safe
  imports Conf
begin

text \<open>
  What the construction of the configuration guarantees: it frees only what it owns, reads no
  NULL string, keeps the log level in its range, and ends with a configuration that the handlers can run
  with; and the environment wins over the file, which wins over the defaults.
\<close>

section \<open>The invariant of a configuration\<close>

text \<open>A directory that is cut to the length of a temporary string is not all slashes, whatever is
  appended to it after a slash and a character that is none.\<close>

definition dir_ok :: "string \<Rightarrow> bool" where
  "dir_ok d \<longleftrightarrow> length d < 2040 \<or> (\<exists>c \<in> set (take 2047 d). c \<noteq> CHR ''/'')"

definition conf_inv :: "conf \<Rightarrow> bool" where
  "conf_inv c \<longleftrightarrow> cstr_own (root_dir c) \<and> cstr_ok (cache_dir c) \<and> cstr_own (cache_dir c) \<and>
     dir_ok (cstr_print (cache_dir c)) \<and>
     cstr_ok (compression_method c) \<and> cstr_own (compression_method c) \<and>
     cstr_ok (encryption_method c) \<and> cstr_own (encryption_method c) \<and>
     cstr_own (re_str (regex c)) \<and> cstr_ok (profiling_logfile c) \<and> 0 \<le> sint (log_level c) \<and> sint (log_level c) \<le> 7"

text \<open>A call that changes the configuration and the world only.\<close>

definition conf_step :: "(conf \<Rightarrow> bool) \<Rightarrow> ('w, 'd) state \<Rightarrow> ('w, 'd) state \<Rightarrow> bool" where
  "conf_step P s t \<longleftrightarrow> P (cfg t) \<and> (\<exists>c w. t = s\<lparr>cfg := c, world := w\<rparr>)"

lemma conf_step_refl [simp]: "conf_step P s s \<longleftrightarrow> P (cfg s)"
  by (cases s) (auto simp: conf_step_def)

lemma conf_step_upd [simp]:
  "conf_step P s (t\<lparr>world := w\<rparr>) \<longleftrightarrow> conf_step P s t"
  "conf_step P s (t\<lparr>cfg := c\<rparr>) \<longleftrightarrow> P c \<and> conf_step (\<lambda>_. True) s t"
  by (cases s; cases t; auto simp: conf_step_def)+

lemma conf_step_weaken: "conf_step P s t \<Longrightarrow> conf_step (\<lambda>_. True) s t"
  by (simp add: conf_step_def)

lemma conf_stepD: "conf_step P s t \<Longrightarrow> P (cfg t)"
  by (simp add: conf_step_def)

lemma conf_step_trans: "conf_step P s t \<Longrightarrow> conf_step Q t u \<Longrightarrow> conf_step Q s u"
  by (cases s; cases t; cases u) (auto simp: conf_step_def)

text \<open>A call that succeeds in allocating.\<close>

lemma call_malloc:
  assumes "allocs_ok E" shows "\<exists>w. \<forall>k. call (malloc_ok E) s k = k True (s\<lparr>world := w\<rparr>)"
proof -
  obtain w where "malloc_ok E (world s) = (True, w)"
    using assms unfolding allocs_ok_def by (metis prod.collapse)
  then show ?thesis by (auto simp: call_def)
qed

lemma okay_call_malloc:
  assumes "allocs_ok E" "\<And>w. okay (k True (s\<lparr>world := w\<rparr>)) Q"
  shows "okay (call (malloc_ok E) s k) Q"
  using call_malloc [OF assms(1), of s] assms(2) by metis

section \<open>Strings and directories\<close>

lemma rstrip_Nil: "rstrip s = [] \<longleftrightarrow> set s \<subseteq> {CHR ''/''}"
  by (auto simp: rstrip_def dropWhile_eq_Nil_conv)

lemma okay_strip_slashes [okay_rule]:
  "c \<in> set s \<Longrightarrow> c \<noteq> CHR ''/'' \<Longrightarrow> Q (rstrip s) \<Longrightarrow> okay (strip_slashes s) Q"
  using rstrip_Nil [of s] by (auto simp: strip_slashes_def)

text \<open>A bucket name that is not empty and does not start with a slash.\<close>

definition bucket_ok :: "string \<Rightarrow> bool" where
  "bucket_ok b \<longleftrightarrow> b \<noteq> [] \<and> hd b \<noteq> CHR ''/''"

lemma full_cache_dir:
  assumes "bucket_ok b" "dir_ok d"
  shows "\<exists>c \<in> set (tmpstr_fit (d @ CHR ''/'' # b)). c \<noteq> CHR ''/''"
proof (cases "length d < 2040")
  case True
  obtain c cs where b: "b = c # cs" "c \<noteq> CHR ''/''" using assms(1) by (cases b) (auto simp: bucket_ok_def)
  have "2047 - length d = Suc (Suc (2045 - length d))" using True by simp
  then show ?thesis using True b by (simp add: tmpstr_fit_def TMPSTR_MAX_def)
next
  case False
  then obtain c where "c \<in> set (take 2047 d)" "c \<noteq> CHR ''/''" using assms(2) by (auto simp: dir_ok_def)
  then show ?thesis by (auto simp: tmpstr_fit_def TMPSTR_MAX_def)
qed

lemma length_rstrip: "length (rstrip s) \<le> length s"
  using length_dropWhile_le [of "\<lambda>c. c = CHR ''/''" "rev s"] by (simp add: rstrip_def)

lemma rstrip_dir_ok:
  assumes "c \<in> set s" "c \<noteq> CHR ''/''" "length s \<le> 2047" shows "dir_ok (rstrip s)" "dir_ok s"
proof -
  have "rstrip s \<noteq> []" using assms(1,2) rstrip_Nil [of s] by auto
  then have "last (rstrip s) \<noteq> CHR ''/''"
    using hd_dropWhile [of "\<lambda>c. c = CHR ''/''" "rev s"] by (simp add: rstrip_def last_rev)
  moreover have "last (rstrip s) \<in> set (take 2047 (rstrip s))"
    using length_rstrip [of s] assms(3) \<open>rstrip s \<noteq> []\<close> by simp
  ultimately show "dir_ok (rstrip s)" unfolding dir_ok_def by blast
  show "dir_ok s" using assms by (auto simp: dir_ok_def)
qed

lemma okay_set_full_cache_dir [okay_rule]:
  assumes "conf_step conf_inv s0 s" "allocs_ok E" "bucket_ok b"
    and "\<And>r t. conf_step conf_inv s0 t \<Longrightarrow> Q (r, t)"
  shows "okay (conf_set_full_cache_dir E b s) Q"
proof -
  have inv: "conf_inv (cfg s)" using assms(1) by (rule conf_stepD)
  then have c: "cache_dir (cfg s) \<noteq> CNull" "cstr_own (cache_dir (cfg s))" by (auto simp: conf_inv_def)
  define cache where "cache = tmpstr_fit (cstr_print (cache_dir (cfg s)) @ CHR ''/'' # b)"
  have len: "length cache \<le> 2047" by (simp add: cache_def tmpstr_fit_def TMPSTR_MAX_def)
  obtain x where x: "x \<in> set cache" "x \<noteq> CHR ''/''"
    using full_cache_dir [OF assms(3)] inv unfolding conf_inv_def cache_def by blast
  note dir = rstrip_dir_ok [OF x len]
  have new: "conf_inv ((cfg s)\<lparr>cache_dir := CHeap y\<rparr>)" if "dir_ok y" for y
    using inv that by (simp add: conf_inv_def)
  note weak = conf_step_weaken [OF assms(1)]
  show ?thesis
    unfolding conf_set_full_cache_dir_def Let_def
    using c dir
    by (auto intro!: okay_call_malloc [OF assms(2)] okay_call [where f = "s_mkdir E p" for p]
        okay_strip_slashes [OF x] assms(4) simp: weak new simp flip: cache_def split: sum.split)
qed

lemma okay_parse_str [okay_rule]:
  assumes "cstr_own f" "allocs_ok E" "conf_step P s0 s"
    and "\<And>t. conf_step P s0 t \<Longrightarrow> cfg t = cfg s \<Longrightarrow> Q (-1, f, t)"
    and "\<And>t. conf_step P s0 t \<Longrightarrow> cfg t = cfg s \<Longrightarrow> line_value l = Some [] \<Longrightarrow> Q (0, f, t)"
    and "\<And>p t. conf_step P s0 t \<Longrightarrow> cfg t = cfg s \<Longrightarrow> line_value l = Some p \<Longrightarrow> Q (0, CHeap p, t)"
  shows "okay (parse_str E f l s) Q"
proof -
  have free: "(if f \<noteq> CNull then cstr_free f else Ret ()) = Ret ()" using assms(1) by simp
  show ?thesis
    unfolding parse_str_def free using assms(3)
    by (auto intro!: okay_call_malloc [OF assms(2)] assms(4-) split: option.split)
qed

lemma line_value_length: "line_value l = Some p \<Longrightarrow> length p \<le> length l"
proof -
  assume p: "line_value l = Some p"
  have "p = dropWhile isspace (tl (dropWhile (\<lambda>x. x \<noteq> CHR ''='') l))"
    using p by (cases "dropWhile (\<lambda>x. x \<noteq> CHR ''='') l") (auto simp: line_value_def strchr_def)
  then show ?thesis
    by (metis diff_le_self length_dropWhile_le length_tl order_trans)
qed

section \<open>One line\<close>

text \<open>
  The lines the file may have. \<^verbatim>\<open>profiling_logfile\<close> must not be set: its default is a string
  literal, which \<^verbatim>\<open>parse_str\<close> passes to \<^verbatim>\<open>free\<close>. And \<^verbatim>\<open>log_level\<close> must have a value:
  without one, \<^verbatim>\<open>str_to_log_level\<close> compares a NULL pointer.
\<close>

definition token_ok :: "string \<Rightarrow> bool" where
  "token_ok t \<longleftrightarrow> length t < 2040 \<and> \<not> strncasecmp_eq t ''profiling_logfile'' (length ''profiling_logfile'') \<and>
     (strncasecmp_eq t ''log_level'' (length ''log_level'') \<longrightarrow> line_value t \<noteq> Some [])"

text \<open>A field that keeps the invariant on one token.\<close>

definition field_ok ::
  "('w, 'd) state \<Rightarrow> string \<Rightarrow> (string \<Rightarrow> ('w, 'd) state \<Rightarrow> (bool \<times> ('w, 'd) state) outcome) \<Rightarrow> bool"
where
  "field_ok s0 t f \<longleftrightarrow>
     (\<forall>s. conf_step conf_inv s0 s \<longrightarrow> okay (f t s) (\<lambda>(ok, s'). conf_step conf_inv s0 s'))"

lemma field_ok_int: "(\<And>v c. conf_inv c \<Longrightarrow> conf_inv (put v c)) \<Longrightarrow> field_ok s0 t (int_field put)"
  by (auto simp: field_ok_def int_field_def dest: conf_stepD conf_step_weaken split: option.split)

lemma field_ok_str:
  assumes "allocs_ok E" "\<And>c. conf_inv c \<Longrightarrow> cstr_own (get c)" "\<And>c. conf_inv c \<Longrightarrow> conf_inv (put (get c) c)"
    and "\<And>p c. conf_inv c \<Longrightarrow> conf_inv (put (CHeap p) c)"
  shows "field_ok s0 t (str_field E get put)"
  unfolding field_ok_def str_field_def okay_obind
proof (intro allI impI)
  fix s assume s: "conf_step conf_inv s0 s"
  then have i: "conf_inv (cfg s)" by (rule conf_stepD)
  show "okay (parse_str E (get (cfg s)) t s) (\<lambda>x. okay (case x of (r, v, s) \<Rightarrow>
      Ret (r \<noteq> -1, s\<lparr>cfg := put v (cfg s)\<rparr>)) (\<lambda>(ok, s'). conf_step conf_inv s0 s'))"
    by (rule okay_parse_str [OF assms(2) [OF i] assms(1) s])
      (simp_all add: assms(3,4) [OF i] conf_step_weaken)
qed

lemma field_ok_cache_dir:
  assumes "allocs_ok E" "bucket_ok b" "length t < 2040"
  shows "field_ok s0 t (cache_dir_field E b)"
  unfolding field_ok_def cache_dir_field_def str_field_def okay_obind
proof (intro allI impI)
  fix s assume s: "conf_step conf_inv s0 s"
  then have i: "conf_inv (cfg s)" by (rule conf_stepD)
  then have own: "cstr_own (cache_dir (cfg s))" by (simp add: conf_inv_def)
  have new: "conf_inv ((cfg s)\<lparr>cache_dir := CHeap p\<rparr>)" if "line_value t = Some p" for p
    using i line_value_length [OF that] assms(3) by (simp add: conf_inv_def dir_ok_def)
  show "okay (parse_str E (cache_dir (cfg s)) t s) (\<lambda>x. okay (case x of (r, v, s) \<Rightarrow>
      Ret (r \<noteq> -1, s\<lparr>cfg := (cfg s)\<lparr>cache_dir := v\<rparr>\<rparr>)) (\<lambda>x. okay (case x of (ok, s) \<Rightarrow>
      if \<not> ok then Ret (False, s) else obind (conf_set_full_cache_dir E b s) (\<lambda>(r, s). Ret (r \<noteq> -1, s)))
      (\<lambda>(ok, s'). conf_step conf_inv s0 s')))"
    by (rule okay_parse_str [OF own assms(1) s])
      (auto intro!: okay_set_full_cache_dir [OF _ assms(1,2)] simp: i new conf_step_weaken)
qed

lemma field_ok_log_level:
  assumes "allocs_ok E" "line_value t \<noteq> Some []"
  shows "field_ok s0 t (log_level_field E)"
  unfolding field_ok_def log_level_field_def okay_obind
proof (intro allI impI)
  fix s assume s: "conf_step conf_inv s0 s"
  then have i: "conf_inv (cfg s)" by (rule conf_stepD)
  then have new: "conf_inv ((cfg s)\<lparr>log_level := l\<rparr>)" if "0 \<le> sint l" "sint l \<le> 7" for l
    using that by (simp add: conf_inv_def)
  show "okay (parse_str E CNull t s) (\<lambda>x. okay (case x of (r, log, s) \<Rightarrow>
      if r = -1 then Ret (False, s) else obind (cstr_get log) (\<lambda>str.
       let l = str_to_log_level str; l = (if sint l > 7 \<or> sint l < 0 then 3 else l)
       in Ret (True, s\<lparr>cfg := (cfg s)\<lparr>log_level := l\<rparr>\<rparr>))) (\<lambda>(ok, s'). conf_step conf_inv s0 s'))"
    by (rule okay_parse_str [OF _ assms(1) s])
      (use assms(2) in \<open>auto simp: Let_def conf_step_weaken intro!: new\<close>)
qed

lemma conf_inv_log_level: "conf_inv c \<Longrightarrow> 0 \<le> sint l \<Longrightarrow> sint l \<le> 7 \<Longrightarrow> conf_inv (c\<lparr>log_level := l\<rparr>)"
  by (simp add: conf_inv_def)

lemma conf_inv_upd [simp]:
  assumes "conf_inv c"
  shows "conf_inv (c\<lparr>zlib_level := v\<rparr>)" "conf_inv (c\<lparr>max_retry := v\<rparr>)" "conf_inv (c\<lparr>gc_loop_delay := v\<rparr>)"
    "conf_inv (c\<lparr>gc_age_threshold := v\<rparr>)" "conf_inv (c\<lparr>sc_loop_delay := v\<rparr>)"
    "conf_inv (c\<lparr>sc_age_threshold := v\<rparr>)" "conf_inv (c\<lparr>cache_max_size := v\<rparr>)"
    "conf_inv (c\<lparr>profiling := v\<rparr>)" "conf_inv (c\<lparr>debug := v\<rparr>)"
    "conf_inv (c\<lparr>compression_method := CHeap p\<rparr>)" "conf_inv (c\<lparr>encryption_method := CHeap p\<rparr>)"
    "conf_inv (c\<lparr>regex := r\<rparr>) \<longleftrightarrow> cstr_own (re_str r)"
  using assms by (simp_all add: conf_inv_def)

lemma conf_inv_own [simp]:
  assumes "conf_inv c"
  shows "cstr_own (root_dir c)" "cstr_own (cache_dir c)" "cstr_own (compression_method c)"
    "cstr_own (encryption_method c)" "cstr_own (re_str (regex c))"
  using assms by (simp_all add: conf_inv_def)

lemma token_fields_ok:
  assumes "allocs_ok E" "bucket_ok b" "token_ok t" "(key, f) \<in> set (token_fields E b)"
    and "strncasecmp_eq t key (length key)"
  shows "field_ok s0 t f"
  using assms(3-5)
  by (auto simp: token_fields_def token_ok_def intro: field_ok_int field_ok_str [OF assms(1)]
      field_ok_cache_dir [OF assms(1,2)] field_ok_log_level [OF assms(1)])

lemma okay_run_fields:
  assumes "\<And>key f. (key, f) \<in> set fs \<Longrightarrow> strncasecmp_eq t key (length key) \<Longrightarrow> field_ok s0 t f"
    and "conf_step conf_inv s0 s"
  shows "okay (run_fields fs t s) (\<lambda>(r, s'). conf_step conf_inv s0 s')"
  using assms
proof (induction fs arbitrary: s)
  case (Cons a fs)
  obtain key f where a: "a = (key, f)" by (cases a)
  have f: "field_ok s0 t f" if "strncasecmp_eq t key (length key)" using Cons.prems(1) that a by auto
  have IH: "okay (run_fields fs t u) (\<lambda>(r, s'). conf_step conf_inv s0 s')" if "conf_step conf_inv s0 u" for u
    using Cons.prems(1) that by (intro Cons.IH) auto
  show ?case
  proof (cases "strncasecmp_eq t key (length key)")
    case True
    with f Cons.prems(2) have "okay (f t s) (\<lambda>(ok, s'). conf_step conf_inv s0 s')" by (simp add: field_ok_def)
    then have "okay (f t s) (\<lambda>x. okay (case x of (ok, s) \<Rightarrow> if ok then run_fields fs t s else Ret (-1, s))
        (\<lambda>(r, s'). conf_step conf_inv s0 s'))"
      by (rule okay_mono) (auto intro: IH)
    with True show ?thesis by (simp add: a)
  next
    case False
    then show ?thesis using IH [OF Cons.prems(2)] by (simp add: a)
  qed
qed simp

lemma okay_parse_token [okay_rule]:
  assumes "conf_step conf_inv s0 s" "allocs_ok E" "bucket_ok b" "token_ok t"
    and "\<And>r s'. conf_step conf_inv s0 s' \<Longrightarrow> Q (r, s')"
  shows "okay (parse_token E b t s) Q"
  unfolding parse_token_def
  by (rule okay_mono [OF okay_run_fields [OF token_fields_ok [OF assms(2-4)] assms(1)]]) (auto intro: assms(5))

text \<open>A line, as \<^verbatim>\<open>fgets\<close> reads it, whose newline is cut off.\<close>

definition line_ok :: "string \<Rightarrow> bool" where
  "line_ok l \<longleftrightarrow> token_ok (dropWhile isspace (butlast l))"

lemma okay_parse_lines [okay_rule]:
  assumes "conf_step conf_inv s0 s" "allocs_ok E" "bucket_ok b" "list_all line_ok ls"
    and "\<And>r s'. conf_step conf_inv s0 s' \<Longrightarrow> Q (r, s')"
  shows "okay (parse_lines E b ls s) Q"
  using assms(1,4)
proof (induction ls arbitrary: s)
  case Nil
  then show ?case by (auto intro: assms(5))
next
  case (Cons l ls)
  then have l: "token_ok (dropWhile isspace (butlast l))" by (simp add: line_ok_def)
  show ?case
    using Cons l
    by (auto simp: parse_line_def Let_def intro!: okay_parse_token [OF _ assms(2,3)] assms(5))
qed

definition file_ok :: "('w, 'd) env \<Rightarrow> bool" where
  "file_ok E \<longleftrightarrow> (case s_getenv E ''HOME'' of None \<Rightarrow> True | Some home \<Rightarrow>
     (case s_lines E (tmpstr_fit (home @ ''/.dplfsrc'')) of None \<Rightarrow> True | Some ls \<Rightarrow> list_all line_ok ls))"

section \<open>The environment\<close>

definition env_ok :: "('w, 'd) env \<Rightarrow> bool" where
  "env_ok E \<longleftrightarrow> s_getenv E ''DROPLETFS_PROFILING_LOGFILE'' \<in> {None, Some []} \<and>
     (case s_getenv E ''DROPLETFS_EXCLUSION_PATTERN'' of None \<Rightarrow> True | Some p \<Rightarrow> p \<noteq> [] \<and> s_regcomp E p)"

lemma env_int_step:
  assumes "conf_step conf_inv s0 s" "\<And>v c. conf_inv c \<Longrightarrow> conf_inv (put v c)"
  shows "conf_step conf_inv s0 (env_generic_set_int E put var s)"
  using assms by (auto simp: env_generic_set_int_def conf_step_weaken dest: conf_stepD split: option.split)

lemma okay_env_str:
  assumes "conf_step conf_inv s0 s" "allocs_ok E" "\<And>c. conf_inv c \<Longrightarrow> cstr_own (get c)"
    and "\<And>p c. conf_inv c \<Longrightarrow> conf_inv (put (CHeap p) c)" "\<And>s'. conf_step conf_inv s0 s' \<Longrightarrow> Q s'"
  shows "okay (env_generic_set_str E get put var s) Q"
proof -
  have i: "conf_inv (cfg s)" by (rule conf_stepD [OF assms(1)])
  have new: "conf_step conf_inv s0 (s\<lparr>world := w, cfg := put (CHeap p) (cfg s)\<rparr>)" for w p
    using assms(4) [OF i] conf_step_weaken [OF assms(1)] by simp
  show ?thesis
  proof (cases "s_getenv E var")
    case None
    then show ?thesis using assms(1,5) by (simp add: env_generic_set_str_def)
  next
    case (Some tmp)
    obtain w where w: "call (malloc_ok E) s k = k True (s\<lparr>world := w\<rparr>)"
      for k :: "bool \<Rightarrow> ('a, 'b) state \<Rightarrow> ('a, 'b) state outcome"
      using call_malloc [OF assms(2), of s] by blast
    show ?thesis using assms(1,5) assms(3) [OF i] new by (simp add: env_generic_set_str_def Some w)
  qed
qed

lemma str_to_log_level_bounds: "0 \<le> sint (str_to_log_level l)" "sint (str_to_log_level l) \<le> 7"
  by (simp_all add: str_to_log_level_def)

lemma env_log_level_step:
  assumes "conf_step conf_inv s0 s" shows "conf_step conf_inv s0 (env_set_log_level E s)"
proof -
  have "conf_inv ((cfg s)\<lparr>log_level := str_to_log_level l\<rparr>)" for l
    by (rule conf_inv_log_level [OF conf_stepD [OF assms] str_to_log_level_bounds])
  then show ?thesis
    using assms conf_step_weaken [OF assms] by (simp add: env_set_log_level_def split: option.split)
qed

lemma okay_env_exclusion:
  assumes "conf_step conf_inv s0 s" "allocs_ok E" "env_ok E" "\<And>s'. conf_step conf_inv s0 s' \<Longrightarrow> Q s'"
  shows "okay (env_set_exclusion_pattern E s) Q"
proof -
  have i: "conf_inv (cfg s)" by (rule conf_stepD [OF assms(1)])
  have w: "conf_step (\<lambda>_. True) s0 s" by (rule conf_step_weaken [OF assms(1)])
  have free: "(if re_str (regex (cfg s)) \<noteq> CNull then cstr_free (re_str (regex (cfg s))) else Ret ()) = Ret ()"
    using i by simp
  show ?thesis
  proof (cases "s_getenv E ''DROPLETFS_EXCLUSION_PATTERN''")
    case None
    then show ?thesis using assms(1) by (auto simp: env_set_exclusion_pattern_def intro: assms(4))
  next
    case (Some p)
    then have p: "p \<noteq> []" "s_regcomp E p" using assms(3) by (auto simp: env_ok_def)
    define r where "r = (regex (cfg s))\<lparr>re_str := (if re_str (regex (cfg s)) \<noteq> CNull then CFreed else CNull), re_rx := None\<rparr>"
    obtain v where v: "malloc_ok E (world s) = (True, v)"
      using assms(2) unfolding allocs_ok_def by (metis prod.collapse)
    have ctor: "re_ctor E r (Some p) s = ((0, r\<lparr>re_set := False, re_rx := Some p, re_str := CHeap p, re_set := True\<rparr>), s\<lparr>world := v\<rparr>)"
      using p by (simp add: re_ctor_def Let_def call_def v)
    have dtor: "re_dtor (regex (cfg s)) = Ret r" by (simp add: re_dtor_def free r_def)
    show ?thesis
      using i w by (simp add: env_set_exclusion_pattern_def Some dtor ctor assms(4))
  qed
qed

lemmas env_int_defs = env_set_compression_level_def env_set_max_retry_def env_set_gc_loop_delay_def
  env_set_gc_age_threshold_def env_set_sc_loop_delay_def env_set_sc_age_threshold_def
  env_set_cache_max_size_def env_set_profiling_def

lemmas env_str_defs = env_set_compression_method_def env_set_encryption_method_def
  env_set_profiling_logfile_def

lemma env_int_steps:
  assumes "conf_step conf_inv s0 s"
  shows "conf_step conf_inv s0 (env_set_compression_level E s)" "conf_step conf_inv s0 (env_set_max_retry E s)"
    "conf_step conf_inv s0 (env_set_gc_loop_delay E s)" "conf_step conf_inv s0 (env_set_gc_age_threshold E s)"
    "conf_step conf_inv s0 (env_set_sc_loop_delay E s)" "conf_step conf_inv s0 (env_set_sc_age_threshold E s)"
    "conf_step conf_inv s0 (env_set_cache_max_size E s)" "conf_step conf_inv s0 (env_set_profiling E s)"
  unfolding env_int_defs by (intro env_int_step [OF assms], simp)+

lemma okay_env_override [okay_rule]:
  assumes "conf_step conf_inv s0 s" "allocs_ok E" "env_ok E" "\<And>s'. conf_step conf_inv s0 s' \<Longrightarrow> Q s'"
  shows "okay (env_override_conf E s) Q"
proof -
  have log: "env_set_profiling_logfile E t = Ret t" for t :: "('a, 'b) state"
    using assms(3) by (auto simp: env_set_profiling_logfile_def env_generic_set_str_def env_ok_def)
  show ?thesis
    unfolding env_override_conf_def Let_def okay_obind log env_set_compression_method_def
      env_set_encryption_method_def
    by (rule okay_env_str [OF assms(1,2)];
        (intro okay_env_exclusion [OF _ assms(2,3)] okay_env_str [OF _ assms(2)] env_log_level_step env_int_steps)?)
      (auto intro!: assms(4) env_int_steps)
qed

section \<open>The constructor\<close>

definition root_ok :: "string option \<Rightarrow> bool" where
  "root_ok root \<longleftrightarrow> (case root of None \<Rightarrow> True | Some r \<Rightarrow> r \<noteq> [] \<and> (\<exists>c \<in> set r. c \<noteq> CHR ''/''))"

lemma okay_conf_ctor_default [okay_rule]:
  assumes "allocs_ok E" "root_ok root" "cfg s = conf_zero"
    and "\<And>t. conf_step conf_inv s t \<Longrightarrow> cfg t = conf_defaults ((cfg s)\<lparr>
      root_dir := (case root of None \<Rightarrow> CNull | Some r \<Rightarrow> CHeap (rstrip r)), cache_dir := CHeap ''/tmp'',
      compression_method := CHeap ''NONE'', encryption_method := CHeap ''NONE''\<rparr>) \<Longrightarrow> Q (0, t)"
  shows "okay (conf_ctor_default E root s) Q"
proof (cases root)
  case None
  then show ?thesis
    using assms(3)
    by (auto simp: conf_ctor_default_def conf_set_root_dir_def Let_def conf_zero_def conf_defaults_def
        conf_inv_def dir_ok_def intro!: okay_call_malloc [OF assms(1)] assms(4))
next
  case (Some r)
  then obtain c where c: "c \<in> set r" "c \<noteq> CHR ''/''" using assms(2) by (auto simp: root_ok_def)
  from Some show ?thesis
    using assms(3)
    by (auto simp: conf_ctor_default_def conf_set_root_dir_def Let_def conf_zero_def conf_defaults_def
        conf_inv_def dir_ok_def intro!: okay_call_malloc [OF assms(1)] okay_strip_slashes [OF c] assms(4))
qed

lemma okay_conf_ctor [okay_rule]:
  assumes "allocs_ok E" "bucket_ok b" "file_ok E" "env_ok E" "root_ok root" "cfg s = conf_zero"
    and "\<And>t. conf_step conf_inv s t \<Longrightarrow> debug (cfg t) = dbg \<Longrightarrow> Q (0, t)"
  shows "okay (conf_ctor E b root dbg s) Q"
proof -
  have lines: "list_all line_ok ls"
    if "s_getenv E ''HOME'' = Some home" "s_lines E (tmpstr_fit (home @ ''/.dplfsrc'')) = Some ls" for home ls
    using assms(3) that by (simp add: file_ok_def)
  have fin: "Q (0, t\<lparr>cfg := (cfg t)\<lparr>debug := dbg\<rparr>\<rparr>)" if "conf_step conf_inv s t" for t
    using conf_stepD [OF that] conf_step_weaken [OF that] by (intro assms(7)) simp_all
  show ?thesis
    unfolding conf_ctor_def Let_def parse_file_def
    by (auto intro!: okay_conf_ctor_default [OF assms(1,5,6)] okay_set_full_cache_dir [OF _ assms(1,2)]
        okay_parse_lines [OF _ assms(1,2)] okay_env_override [OF _ assms(1,4)] fin
        simp: lines split: option.split)
qed

section \<open>What the environment changes\<close>

definition env_int :: "('w, 'd) env \<Rightarrow> string \<Rightarrow> u32 \<Rightarrow> u32" where
  "env_int E var old =
     (case s_getenv E var of None \<Rightarrow> old | Some t \<Rightarrow> if t = [] then old else ucast (strtoul t))"

definition env_str :: "('w, 'd) env \<Rightarrow> string \<Rightarrow> cstr \<Rightarrow> cstr" where
  "env_str E var old =
     (case s_getenv E var of None \<Rightarrow> old | Some t \<Rightarrow> if t = [] then old else CHeap t)"

definition env_regex :: "('w, 'd) env \<Rightarrow> re \<Rightarrow> re" where
  "env_regex E r = (case s_getenv E ''DROPLETFS_EXCLUSION_PATTERN'' of None \<Rightarrow> r
     | Some p \<Rightarrow> \<lparr>re_str = CHeap p, re_rx = Some p, re_set = True\<rparr>)"

definition env_level :: "('w, 'd) env \<Rightarrow> u32 \<Rightarrow> u32" where
  "env_level E old = (case s_getenv E ''DROPLETFS_LOG_LEVEL'' of None \<Rightarrow> old
     | Some t \<Rightarrow> if t = [] then old else str_to_log_level t)"

definition env_conf :: "('w, 'd) env \<Rightarrow> conf \<Rightarrow> conf" where
  "env_conf E c =
     c\<lparr>compression_method := env_str E ''DROPLETFS_COMPRESSION_METHOD'' (compression_method c),
       zlib_level := env_int E ''DROPLETFS_ZLIB_LEVEL'' (zlib_level c),
       max_retry := env_int E ''DROPLETFS_MAX_RETRY'' (max_retry c),
       gc_loop_delay := env_int E ''DROPLETFS_GC_LOOP_DELAY'' (gc_loop_delay c),
       gc_age_threshold := env_int E ''DROPLETFS_GC_AGE_THRESHOLD'' (gc_age_threshold c),
       sc_loop_delay := env_int E ''DROPLETFS_SC_LOOP_DELAY'' (sc_loop_delay c),
       sc_age_threshold := env_int E ''DROPLETFS_SC_AGE_THRESHOLD'' (sc_age_threshold c),
       regex := env_regex E (regex c),
       cache_max_size := env_int E ''DROPLETFS_CACHE_MAX_SIZE'' (cache_max_size c),
       log_level := env_level E (log_level c),
       encryption_method := env_str E ''DROPLETFS_ENCRYPTION_METHOD'' (encryption_method c),
       profiling := env_int E ''DROPLETFS_PROFILING'' (profiling c)\<rparr>"

lemma cfg_env_int:
  "put (get (cfg s)) (cfg s) = cfg s \<Longrightarrow>
    cfg (env_generic_set_int E put var s) = put (env_int E var (get (cfg s))) (cfg s)"
  by (simp add: env_generic_set_int_def env_int_def split: option.split)

lemma okay_env_str_cfg:
  assumes "cstr_own (get (cfg s))" "allocs_ok E" "put (get (cfg s)) (cfg s) = cfg s"
    and "\<And>s'. cfg s' = put (env_str E var (get (cfg s))) (cfg s) \<Longrightarrow> Q s'"
  shows "okay (env_generic_set_str E get put var s) Q"
proof (cases "s_getenv E var")
  case None
  then show ?thesis using assms(3,4) by (simp add: env_generic_set_str_def env_str_def)
next
  case (Some tmp)
  obtain w where w: "call (malloc_ok E) s k = k True (s\<lparr>world := w\<rparr>)"
    for k :: "bool \<Rightarrow> ('a, 'b) state \<Rightarrow> ('a, 'b) state outcome"
    using call_malloc [OF assms(2), of s] by blast
  show ?thesis using assms(1,3,4) by (simp add: env_generic_set_str_def env_str_def Some w)
qed

lemma okay_env_exclusion_cfg:
  assumes "cstr_own (re_str (regex (cfg s)))" "allocs_ok E" "env_ok E"
    and "\<And>s'. cfg s' = (cfg s)\<lparr>regex := env_regex E (regex (cfg s))\<rparr> \<Longrightarrow> Q s'"
  shows "okay (env_set_exclusion_pattern E s) Q"
proof (cases "s_getenv E ''DROPLETFS_EXCLUSION_PATTERN''")
  case None
  then show ?thesis by (cases "cfg s") (simp add: env_set_exclusion_pattern_def env_regex_def assms(4))
next
  case (Some p)
  then have p: "p \<noteq> []" "s_regcomp E p" using assms(3) by (auto simp: env_ok_def)
  obtain v where v: "malloc_ok E (world s) = (True, v)"
    using assms(2) unfolding allocs_ok_def by (metis prod.collapse)
  obtain r where dtor: "re_dtor (regex (cfg s)) = Ret r"
    using assms(1) by (simp add: re_dtor_def)
  have ctor: "re_ctor E r (Some p) s = ((0, \<lparr>re_str = CHeap p, re_rx = Some p, re_set = True\<rparr>), s\<lparr>world := v\<rparr>)"
    using p by (cases r) (simp add: re_ctor_def Let_def call_def v)
  show ?thesis by (simp add: env_set_exclusion_pattern_def env_regex_def Some dtor ctor assms(4))
qed

lemma cfg_env_log_level:
  "cfg (env_set_log_level E s) = (cfg s)\<lparr>log_level := env_level E (log_level (cfg s))\<rparr>"
  by (simp add: env_set_log_level_def env_level_def split: option.split)

lemma cfg_env_ints:
  "cfg (env_set_compression_level E s) = (cfg s)\<lparr>zlib_level := env_int E ''DROPLETFS_ZLIB_LEVEL'' (zlib_level (cfg s))\<rparr>"
  "cfg (env_set_max_retry E s) = (cfg s)\<lparr>max_retry := env_int E ''DROPLETFS_MAX_RETRY'' (max_retry (cfg s))\<rparr>"
  "cfg (env_set_gc_loop_delay E s) = (cfg s)\<lparr>gc_loop_delay := env_int E ''DROPLETFS_GC_LOOP_DELAY'' (gc_loop_delay (cfg s))\<rparr>"
  "cfg (env_set_gc_age_threshold E s) = (cfg s)\<lparr>gc_age_threshold := env_int E ''DROPLETFS_GC_AGE_THRESHOLD'' (gc_age_threshold (cfg s))\<rparr>"
  "cfg (env_set_sc_loop_delay E s) = (cfg s)\<lparr>sc_loop_delay := env_int E ''DROPLETFS_SC_LOOP_DELAY'' (sc_loop_delay (cfg s))\<rparr>"
  "cfg (env_set_sc_age_threshold E s) = (cfg s)\<lparr>sc_age_threshold := env_int E ''DROPLETFS_SC_AGE_THRESHOLD'' (sc_age_threshold (cfg s))\<rparr>"
  "cfg (env_set_cache_max_size E s) = (cfg s)\<lparr>cache_max_size := env_int E ''DROPLETFS_CACHE_MAX_SIZE'' (cache_max_size (cfg s))\<rparr>"
  "cfg (env_set_profiling E s) = (cfg s)\<lparr>profiling := env_int E ''DROPLETFS_PROFILING'' (profiling (cfg s))\<rparr>"
  unfolding env_int_defs by (intro cfg_env_int, simp)+

section \<open>Properties\<close>


definition home_env :: "(nat, sample_dict) env" where
  "home_env = (sample DPL_SUCCESS)\<lparr>
     s_getenv := map_of [(''HOME'', ''/root''), (''DROPLETFS_MAX_RETRY'', ''7'')],
     s_lines := (\<lambda>p. if p = ''/root/.dplfsrc'' then Some [''max_retry = 9.'', ''cache_dir = /var/tmp.''] else None)\<rparr>"

lemma home_env_ok [simp]: "allocs_ok home_env" "env_ok home_env" "file_ok home_env"
  by (simp_all add: allocs_ok_def env_ok_def file_ok_def home_env_def tmpstr_fit_def TMPSTR_MAX_def line_ok_def
      token_ok_def strncasecmp_eq_def tolower_def isspace_def)

definition mounted_conf :: conf where
  "mounted_conf = (conf_defaults conf_zero)\<lparr>cache_dir := CHeap ''/tmp/bucket'',
     compression_method := CHeap ''NONE'', encryption_method := CHeap ''NONE''\<rparr>"

lemma mounted_conf_inv [simp]: "conf_inv mounted_conf"
  by (simp add: conf_inv_def mounted_conf_def conf_defaults_def conf_zero_def dir_ok_def)




text \<open>
  Two lines of a configuration file that crash the program: any value for
  \<^verbatim>\<open>profiling_logfile\<close> makes \<^verbatim>\<open>parse_str\<close> free the default, which is a string literal, and
  \<^verbatim>\<open>log_level\<close> without a value makes \<^verbatim>\<open>str_to_log_level\<close> compare a NULL pointer.
\<close>

theorem conf_lines_crash:
  assumes "profiling_logfile (cfg s) = CLit d" "\<not> isspace c"
  shows "parse_token E b (''profiling_logfile='' @ c # v) s = Stuck BadFree \<and>
    parse_token E b ''log_level='' s = Stuck NullDeref"
  using assms
  by (simp add: parse_token_def token_fields_def strncasecmp_eq_def tolower_def int_field_def parse_int_def
      line_value_def strchr_def str_field_def parse_str_def log_level_field_def)

theorem conf_lines_crash_witness:
  "parse_token home_env ''bucket'' ''profiling_logfile=/log'' (sample_state\<lparr>cfg := mounted_conf\<rparr>) = Stuck BadFree \<and>
   parse_token home_env ''bucket'' ''log_level='' (sample_state\<lparr>cfg := mounted_conf\<rparr>) = Stuck NullDeref"
  using conf_lines_crash [of "sample_state\<lparr>cfg := mounted_conf\<rparr>" "''/tmp/dplfs_trace.log''" "CHR ''/''" home_env
      "''bucket''" "''log''"]
  by (simp add: mounted_conf_def conf_defaults_def isspace_def)

text \<open>
  The names of the log levels are read back to the level they were printed for, and every string
  is read to a level that has a name, so that \<^verbatim>\<open>log_level_to_str\<close> does not reach its assertion on
  a level that came from the file or the environment.
\<close>

theorem log_level_roundtrip:
  assumes "n < 8"
  shows "(\<exists>m. log_level_to_str (int n) = Ret m \<and> str_to_log_level m = of_nat n) \<and>
    (\<exists>m. log_level_to_str (sint (str_to_log_level str)) = Ret m)"
proof -
  have "n \<in> {0, 1, 2, 3, 4, 5, 6, 7}" using assms by auto
  then have "\<exists>m. log_level_to_str (int n) = Ret m \<and> str_to_log_level m = of_nat n"
    by (auto simp: log_level_to_str_def str_to_log_level_def)
  then show ?thesis by (simp add: log_level_to_str_def str_to_log_level_def)
qed

theorem log_level_roundtrip_witness:
  "(\<exists>m. log_level_to_str 5 = Ret m \<and> str_to_log_level m = 5) \<and>
   (\<exists>m. log_level_to_str (sint (str_to_log_level ''nonsense'')) = Ret m)"
  using log_level_roundtrip [of 5 "''nonsense''"] by simp

end
