(* ===== verification/Zip_Data.thy ===== *)
theory Zip_Data
  imports Sample Zip "HOL-Library.Sublist"
begin

text \<open>
  What \<^verbatim>\<open>zip\<close> and \<^verbatim>\<open>unzip\<close> of \<^verbatim>\<open>src/zip.c\<close> do to the data: on a disk that does not fail, \<^verbatim>\<open>zip\<close>
  writes a complete compressed stream of what it reads, whatever pieces zlib takes and gives, and \<^verbatim>\<open>unzip\<close> restores
  it. The contents of the files and of the streams are known through an observation of the world, and zlib through laws
  on it: how far a stream is, and which compressed data stand for which data. The fuel of the loops is enough as
  soon as it covers the data in pieces of \<open>CHUNK\<close> bytes.
\<close>

section \<open>Observations\<close>

text \<open>A stream of zlib: whether it compresses, what it has consumed and produced, and whether it has ended.\<close>

record zstream =
  z_deflates :: bool
  z_in :: "byte list"
  z_out :: "byte list"
  z_done :: bool

definition zfresh :: "bool \<Rightarrow> zstream" where
  "zfresh c = \<lparr>z_deflates = c, z_in = [], z_out = [], z_done = False\<rparr>"

text \<open>What is left to read of every file, what was written to it, and the streams.\<close>

record disk =
  unread :: "int \<Rightarrow> byte list"
  written :: "int \<Rightarrow> byte list"
  streams :: "nat \<Rightarrow> zstream"

text \<open>
  The observation of a world; which bytes are the complete compressed form of which; how many bytes a stream that
  has consumed some number of bytes can have produced; the streams that zlib can be in.
\<close>

record 'w zmodel =
  obs :: "'w \<Rightarrow> disk"
  codec :: "byte list \<Rightarrow> byte list \<Rightarrow> bool"
  zbound :: "nat \<Rightarrow> nat"
  zvalid :: "zstream \<Rightarrow> bool"

abbreviation contents :: "'w zmodel \<Rightarrow> int \<Rightarrow> ('w, 'd) state \<Rightarrow> byte list" where
  "contents Z f s \<equiv> unread (obs Z (world s)) f"

abbreviation sent :: "'w zmodel \<Rightarrow> int \<Rightarrow> ('w, 'd) state \<Rightarrow> byte list" where
  "sent Z f s \<equiv> written (obs Z (world s)) f"

text \<open>\<^verbatim>\<open>fread\<close> and \<^verbatim>\<open>fwrite\<close> on a disk that does not fail; the end of a file is seen by a short read.\<close>

definition files_law :: "('w, 'd) env \<Rightarrow> 'w zmodel \<Rightarrow> bool" where
  "files_law E Z \<longleftrightarrow>
     (\<forall>f n w. let (r, w') = s_fread E f n w; d = obs Z w in
        r = (take n (unread d f), False, length (unread d f) < n) \<and>
        obs Z w' = d\<lparr>unread := (unread d)(f := drop n (unread d f))\<rparr>) \<and>
     (\<forall>f bs w. let (ok, w') = s_fwrite E f bs w; d = obs Z w in
        ok \<and> obs Z w' = d\<lparr>written := (written d)(f := written d f @ bs)\<rparr>)"

text \<open>
  One call of \<^verbatim>\<open>deflate\<close> or \<^verbatim>\<open>inflate\<close>: it consumes a prefix of the input, appends to the output at most what
  fits into the buffer, and leaves room there only when it has consumed all the input; so does the end of compression.
\<close>

definition z_moves :: "byte list \<Rightarrow> zstream \<Rightarrow> zret \<times> byte list \<times> byte list \<Rightarrow> zstream \<Rightarrow> bool" where
  "z_moves inp st = (\<lambda>(ret, left, out) st'.
     (\<exists>used. inp = used @ left \<and>
        st' = st\<lparr>z_in := z_in st @ used, z_out := z_out st @ out, z_done := z_done st \<or> ret = Z_STREAM_END\<rparr>) \<and>
     length out \<le> CHUNK \<and> (length out < CHUNK \<or> z_deflates st \<and> ret = Z_STREAM_END \<longrightarrow> left = []))"

text \<open>
  \<^verbatim>\<open>deflate\<close> ends the stream only when it is told to finish, and then, if there is room for the rest, at
  once; the output is then the compressed form of all that it consumed.
\<close>

definition deflate_law :: "'w zmodel \<Rightarrow> zflush \<Rightarrow> zret \<Rightarrow> byte list \<Rightarrow> zstream \<Rightarrow> bool" where
  "deflate_law Z fl ret out st' \<longleftrightarrow>
     ret \<noteq> Z_STREAM_ERROR \<and> length (z_out st') \<le> zbound Z (length (z_in st')) \<and>
     (length out < CHUNK \<longrightarrow> fl = Z_FINISH \<longrightarrow> ret = Z_STREAM_END) \<and>
     (ret = Z_STREAM_END \<longrightarrow> fl = Z_FINISH \<and> codec Z (z_out st') (z_in st'))"

text \<open>
  \<^verbatim>\<open>inflate\<close>, as long as what it is given is a prefix \<open>cs\<close> of the compressed form of \<open>bs\<close>: it reports
  no error, produces a prefix of \<open>bs\<close>, and ends the stream when it has consumed all and there is room for the
  rest.
\<close>

definition inflate_law :: "byte list \<Rightarrow> byte list \<Rightarrow> zret \<Rightarrow> byte list \<Rightarrow> zstream \<Rightarrow> bool" where
  "inflate_law cs bs ret out st' \<longleftrightarrow>
     ret \<in> {Z_OK, Z_BUF_ERROR, Z_STREAM_END} \<and> prefix (z_out st') bs \<and>
     (length out < CHUNK \<longrightarrow> z_in st' = cs \<longrightarrow> ret = Z_STREAM_END) \<and>
     (ret = Z_STREAM_END \<longrightarrow> z_in st' = cs \<and> z_out st' = bs)"

definition streams_law :: "('w, 'd) env \<Rightarrow> 'w zmodel \<Rightarrow> bool" where
  "streams_law E Z \<longleftrightarrow>
     (\<forall>z fl inp w. let (x, w') = z_step E z fl inp CHUNK w; d = obs Z w; st = streams d z in
        zvalid Z st \<longrightarrow> (z_deflates st \<longrightarrow> z_done st \<longrightarrow> inp = []) \<longrightarrow>
        (\<exists>st'. obs Z w' = d\<lparr>streams := (streams d)(z := st')\<rparr> \<and> zvalid Z st' \<and> z_moves inp st x st' \<and>
           (z_deflates st \<longrightarrow> deflate_law Z fl (fst x) (snd (snd x)) st') \<and>
           (\<not> z_deflates st \<longrightarrow> (\<forall>cs bs. codec Z cs bs \<longrightarrow> prefix (z_in st @ inp) cs \<longrightarrow> prefix (z_out st) bs \<longrightarrow>
              inflate_law cs bs (fst x) (snd (snd x)) st')))) \<and>
     (\<forall>c l w. let ((ret, z), w') = z_init E c l w; d = obs Z w in
        ret = Z_OK \<and> obs Z w' = d\<lparr>streams := (streams d)(z := zfresh c)\<rparr>) \<and>
     (\<forall>z w. \<exists>st. obs Z (snd (z_end E z w)) = (obs Z w)\<lparr>streams := (streams (obs Z w))(z := st)\<rparr>) \<and>
     (\<forall>c. zvalid Z (zfresh c)) \<and> (\<forall>cs bs. codec Z cs bs \<longrightarrow> cs \<noteq> []) \<and> mono (zbound Z)"

lemma read_law:
  assumes "files_law E Z" "s_fread E f n w = (r, w')"
  shows "r = (take n (unread (obs Z w) f), False, length (unread (obs Z w) f) < n)"
    and "obs Z w' = (obs Z w)\<lparr>unread := (unread (obs Z w))(f := drop n (unread (obs Z w) f))\<rparr>"
proof -
  have "let (r, w') = s_fread E f n w; d = obs Z w in
      r = (take n (unread d f), False, length (unread d f) < n) \<and>
      obs Z w' = d\<lparr>unread := (unread d)(f := drop n (unread d f))\<rparr>"
    using assms(1) unfolding files_law_def by blast
  then show "r = (take n (unread (obs Z w) f), False, length (unread (obs Z w) f) < n)"
    "obs Z w' = (obs Z w)\<lparr>unread := (unread (obs Z w))(f := drop n (unread (obs Z w) f))\<rparr>"
    unfolding assms(2) by (simp_all add: Let_def)
qed

lemma write_law:
  assumes "files_law E Z" "s_fwrite E f bs w = (ok, w')"
  shows "ok" "obs Z w' = (obs Z w)\<lparr>written := (written (obs Z w))(f := written (obs Z w) f @ bs)\<rparr>"
proof -
  have "let (ok, w') = s_fwrite E f bs w; d = obs Z w in
      ok \<and> obs Z w' = d\<lparr>written := (written d)(f := written d f @ bs)\<rparr>"
    using assms(1) unfolding files_law_def by blast
  then show "ok" "obs Z w' = (obs Z w)\<lparr>written := (written (obs Z w))(f := written (obs Z w) f @ bs)\<rparr>"
    unfolding assms(2) by (simp_all add: Let_def)
qed

lemma stream_law:
  assumes "streams_law E Z" "z_step E z fl inp CHUNK w = ((ret, left, out), w')" "streams (obs Z w) z = st" "zvalid Z st"
    and "z_deflates st \<Longrightarrow> z_done st \<Longrightarrow> inp = []"
  obtains st' where "obs Z w' = (obs Z w)\<lparr>streams := (streams (obs Z w))(z := st')\<rparr>" "zvalid Z st'"
    "z_moves inp st (ret, left, out) st'" "z_deflates st \<Longrightarrow> deflate_law Z fl ret out st'"
    "\<And>cs bs. \<not> z_deflates st \<Longrightarrow> codec Z cs bs \<Longrightarrow> prefix (z_in st @ inp) cs \<Longrightarrow> prefix (z_out st) bs \<Longrightarrow>
      inflate_law cs bs ret out st'"
proof -
  have "let (x, w') = z_step E z fl inp CHUNK w; d = obs Z w; st = streams d z in
      zvalid Z st \<longrightarrow> (z_deflates st \<longrightarrow> z_done st \<longrightarrow> inp = []) \<longrightarrow>
      (\<exists>st'. obs Z w' = d\<lparr>streams := (streams d)(z := st')\<rparr> \<and> zvalid Z st' \<and> z_moves inp st x st' \<and>
         (z_deflates st \<longrightarrow> deflate_law Z fl (fst x) (snd (snd x)) st') \<and>
         (\<not> z_deflates st \<longrightarrow> (\<forall>cs bs. codec Z cs bs \<longrightarrow> prefix (z_in st @ inp) cs \<longrightarrow> prefix (z_out st) bs \<longrightarrow>
            inflate_law cs bs (fst x) (snd (snd x)) st')))"
    using assms(1) unfolding streams_law_def by blast
  then show thesis using assms(3-5) that unfolding assms(2) by (auto simp: Let_def)
qed

lemma init_law:
  assumes "streams_law E Z" "z_init E c l w = ((ret, z), w')"
  shows "ret = Z_OK" "obs Z w' = (obs Z w)\<lparr>streams := (streams (obs Z w))(z := zfresh c)\<rparr>"
proof -
  have "let ((ret, z), w') = z_init E c l w; d = obs Z w in
      ret = Z_OK \<and> obs Z w' = d\<lparr>streams := (streams d)(z := zfresh c)\<rparr>"
    using assms(1) unfolding streams_law_def by blast
  then show "ret = Z_OK" "obs Z w' = (obs Z w)\<lparr>streams := (streams (obs Z w))(z := zfresh c)\<rparr>"
    unfolding assms(2) by (simp_all add: Let_def)
qed

lemma end_law:
  assumes "streams_law E Z"
  obtains st where "obs Z (snd (z_end E z w)) = (obs Z w)\<lparr>streams := (streams (obs Z w))(z := st)\<rparr>"
  using assms unfolding streams_law_def by blast

lemma codec_law:
  assumes "streams_law E Z"
  shows "zvalid Z (zfresh c)" "codec Z cs bs \<Longrightarrow> cs \<noteq> []" "m \<le> n \<Longrightarrow> zbound Z m \<le> zbound Z n"
  using assms unfolding streams_law_def by (blast, blast, metis monoD)

section \<open>Compressing\<close>

text \<open>A stream moved to a new state, and so many bytes were written.\<close>

definition pumped :: "'w zmodel \<Rightarrow> nat \<Rightarrow> zstream \<Rightarrow> int \<Rightarrow> byte list \<Rightarrow> 'w \<Rightarrow> 'w \<Rightarrow> bool" where
  "pumped Z z st f bs w w' \<longleftrightarrow> obs Z w' = (obs Z w)\<lparr>written := (written (obs Z w))(f := written (obs Z w) f @ bs),
     streams := (streams (obs Z w))(z := st)\<rparr>"

lemma pumped_trans: "pumped Z z st f bs w w' \<Longrightarrow> pumped Z z st' f bs' w' w'' \<Longrightarrow> pumped Z z st' f (bs @ bs') w w''"
  by (simp add: pumped_def)

lemma pumped_sel:
  assumes "pumped Z z st f bs w w'"
  shows "streams (obs Z w') z = st" "unread (obs Z w') = unread (obs Z w)" "written (obs Z w') f = written (obs Z w) f @ bs"
  using assms by (simp_all add: pumped_def)

text \<open>One call of zlib and the write of what it produced.\<close>

lemma pump:
  assumes "files_law E Z" "streams_law E Z" "streams (obs Z w) z = st" "zvalid Z st"
    and "z_deflates st \<Longrightarrow> z_done st \<Longrightarrow> inp = []"
  obtains ret left out w1 w2 st' where "z_step E z fl inp CHUNK w = ((ret, left, out), w1)" "s_fwrite E f out w1 = (True, w2)"
    "pumped Z z st' f out w w2" "zvalid Z st'" "z_moves inp st (ret, left, out) st'"
    "z_deflates st \<Longrightarrow> deflate_law Z fl ret out st'"
    "\<And>cs bs. \<not> z_deflates st \<Longrightarrow> codec Z cs bs \<Longrightarrow> prefix (z_in st @ inp) cs \<Longrightarrow> prefix (z_out st) bs \<Longrightarrow>
      inflate_law cs bs ret out st'"
proof -
  obtain ret left out w1 where 1: "z_step E z fl inp CHUNK w = ((ret, left, out), w1)"
    by (metis prod.collapse)
  obtain ok w2 where 2: "s_fwrite E f out w1 = (ok, w2)" by (metis prod.collapse)
  note w = write_law [OF assms(1) 2]
  show thesis
    by (rule stream_law [OF assms(2) 1 assms(3-5)], assumption+)
      (rule that [OF 1 2 [unfolded eqTrueI [OF w(1)]]], simp_all add: pumped_def w(2))
qed

text \<open>What the inner loop leaves: all the input is consumed, and the stream is ended if it was told to finish.\<close>

definition deflated ::
  "'w zmodel \<Rightarrow> nat \<Rightarrow> zflush \<Rightarrow> byte list \<Rightarrow> int \<Rightarrow> zstream \<Rightarrow> 'w \<Rightarrow> zret \<Rightarrow> byte list \<Rightarrow> zstream \<Rightarrow> 'w \<Rightarrow> bool"
where
  "deflated Z z fl inp f st w ret out st' w' \<longleftrightarrow>
     pumped Z z st' f out w w' \<and> zvalid Z st' \<and> z_deflates st' \<and> z_in st' = z_in st @ inp \<and> z_out st' = z_out st @ out \<and>
     length (z_out st') \<le> zbound Z (length (z_in st')) \<and>
     (if fl = Z_FINISH then ret = Z_STREAM_END \<and> codec Z (z_out st') (z_in st') else z_done st' = z_done st)"

lemma deflated_trans:
  assumes "pumped Z z st1 f out w w1" "z_in st1 = z_in st @ used" "z_out st1 = z_out st @ out"
    and "fl \<noteq> Z_FINISH \<Longrightarrow> z_done st1 = z_done st" "deflated Z z fl left f st1 w1 ret out' st' w'"
  shows "deflated Z z fl (used @ left) f st w ret (out @ out') st' w'"
  using assms pumped_trans [OF assms(1)] by (auto simp: deflated_def)

lemma zip_inner_total:
  assumes laws: "files_law E Z" "streams_law E Z"
    and "streams (obs Z (world s)) z = st" "zvalid Z st" "z_deflates st" "z_done st \<Longrightarrow> inp = []"
    and "length (z_out st) \<le> zbound Z (length (z_in st))"
    and "zbound Z (length (z_in st @ inp)) < length (z_out st) + n * CHUNK"
  shows "\<exists>ret out st' w. zip_inner n E z fl inp f s = Ret (Inr (ret, []), s\<lparr>world := w\<rparr>) \<and>
    deflated Z z fl inp f st (world s) ret out st' w"
  using assms(3-8)
proof (induction n arbitrary: inp st s)
  case 0
  have "zbound Z (length (z_in st)) \<le> zbound Z (length (z_in st @ inp))" by (rule codec_law(3) [OF laws(2)]) simp
  then show ?case using 0 by simp
next
  case (Suc n)
  obtain ret left out w1 w2 st1 where 1: "z_step E z fl inp CHUNK (world s) = ((ret, left, out), w1)"
    "s_fwrite E f out w1 = (True, w2)" "pumped Z z st1 f out (world s) w2" "zvalid Z st1"
    "z_moves inp st (ret, left, out) st1" "deflate_law Z fl ret out st1"
    by (rule pump [OF laws Suc.prems(1,2) Suc.prems(4), of fl f]) (use Suc.prems(3) in auto)
  obtain used where used: "inp = used @ left" "z_in st1 = z_in st @ used" "z_out st1 = z_out st @ out" "z_deflates st1"
    "z_done st1 \<longleftrightarrow> z_done st \<or> ret = Z_STREAM_END" "length out \<le> CHUNK"
    "length out < CHUNK \<or> ret = Z_STREAM_END \<Longrightarrow> left = []"
    using 1(5) Suc.prems(3) unfolding z_moves_def by auto
  have d: "ret \<noteq> Z_STREAM_ERROR" "length (z_out st1) \<le> zbound Z (length (z_in st1))"
    "length out < CHUNK \<Longrightarrow> fl = Z_FINISH \<Longrightarrow> ret = Z_STREAM_END"
    "ret = Z_STREAM_END \<Longrightarrow> fl = Z_FINISH \<and> codec Z (z_out st1) (z_in st1)"
    using 1(6) unfolding deflate_law_def by blast+
  have quiet: "fl \<noteq> Z_FINISH \<Longrightarrow> z_done st1 = z_done st" using used(5) d(4) by blast
  have run: "zip_inner (Suc n) E z fl inp f s =
      (if length out = CHUNK then zip_inner n E z fl left f (s\<lparr>world := w2\<rparr>) else Ret (Inr (ret, left), s\<lparr>world := w2\<rparr>))"
    using d(1) by (simp add: call_def 1(1,2))
  show ?case
  proof (cases "length out = CHUNK")
    case False
    then have full: "length out < CHUNK" using used(6) by simp
    have "deflated Z z fl inp f st (world s) ret out st1 w2"
      unfolding deflated_def using 1(3,4) used(1-4) used(7) d(2-4) full quiet by simp
    then show ?thesis using used(7) full unfolding run by auto
  next
    case True
    have fin: "z_done st1 \<Longrightarrow> left = []" using used(1,5,7) Suc.prems(4) by auto
    obtain ret' out' st' w where rest: "zip_inner n E z fl left f (s\<lparr>world := w2\<rparr>) = Ret (Inr (ret', []), s\<lparr>world := w\<rparr>)"
      "deflated Z z fl left f st1 w2 ret' out' st' w"
      using Suc.IH [of "s\<lparr>world := w2\<rparr>" st1 left] pumped_sel(1) [OF 1(3)] 1(4) used(1-4) fin d(2) Suc.prems(6) True
      by auto
    have "deflated Z z fl inp f st (world s) ret' (out @ out') st' w"
      using deflated_trans [OF 1(3) used(2,3) quiet rest(2)] used(1) by simp
    then show ?thesis using rest(1) True unfolding run by auto
  qed
qed

lemma zip_outer_total:
  assumes laws: "files_law E Z" "streams_law E Z"
    and "streams (obs Z (world s)) z = st" "zvalid Z st" "z_deflates st" "\<not> z_done st"
    and "length (z_out st) \<le> zbound Z (length (z_in st))"
    and "zbound Z (length (z_in st @ contents Z src s)) < loop_fuel E * CHUNK" "length (contents Z src s) < n * CHUNK"
  shows "\<exists>w out. zip_outer n E z src f s = Ret (Z_OK, s\<lparr>world := w\<rparr>) \<and>
    written (obs Z w) f = sent Z f s @ out \<and> codec Z (z_out st @ out) (z_in st @ contents Z src s) \<and>
    length (z_out st @ out) \<le> zbound Z (length (z_in st @ contents Z src s))"
  using assms(3-9)
proof (induction n arbitrary: st s)
  case (Suc n)
  let ?bs = "contents Z src s"
  obtain r w1 where 1: "s_fread E src CHUNK (world s) = (r, w1)" by (cases "s_fread E src CHUNK (world s)")
  note rd = read_law [OF laws(1) 1]
  let ?fl = "if length ?bs < CHUNK then Z_FINISH else Z_NO_FLUSH"
  have bound: "zbound Z (length (z_in st @ take CHUNK ?bs)) \<le> zbound Z (length (z_in st @ ?bs))"
    by (rule codec_law(3) [OF laws(2)]) simp
  obtain ret out st' w2 where 2: "zip_inner (loop_fuel E) E z ?fl (take CHUNK ?bs) f (s\<lparr>world := w1\<rparr>) =
      Ret (Inr (ret, []), s\<lparr>world := w2\<rparr>)" "deflated Z z ?fl (take CHUNK ?bs) f st w1 ret out st' w2"
    using zip_inner_total [OF laws, of "s\<lparr>world := w1\<rparr>" z st "take CHUNK ?bs" "loop_fuel E" ?fl f] Suc.prems bound
    by (auto simp: rd(2))
  have st': "streams (obs Z w2) z = st'" "unread (obs Z w2) src = drop CHUNK ?bs" "written (obs Z w2) f = sent Z f s @ out"
    using 2(2) pumped_sel [of Z z st' f out w1 w2] by (simp_all add: deflated_def rd(2))
  note facts = 2(2) [unfolded deflated_def]
  show ?case
  proof (cases "length ?bs < CHUNK")
    case True
    obtain st2 where "obs Z (snd (z_end E z w2)) = (obs Z w2)\<lparr>streams := (streams (obs Z w2))(z := st2)\<rparr>"
      by (rule end_law [OF laws(2)])
    then have "written (obs Z (snd (z_end E z w2))) f = sent Z f s @ out" by (simp add: st'(3))
    moreover have "zip_outer (Suc n) E z src f s = Ret (Z_OK, s\<lparr>world := snd (z_end E z w2)\<rparr>)"
      using 2(1) facts True by (simp add: call_def 1 rd(1) split: prod.split)
    ultimately show ?thesis using facts True by auto
  next
    case False
    have run: "zip_outer (Suc n) E z src f s = zip_outer n E z src f (s\<lparr>world := w2\<rparr>)"
      using 2(1) False by (simp add: call_def 1 rd(1))
    have less: "length ?bs - CHUNK < n * CHUNK" using False Suc.prems(7) by simp
    obtain w out' where "zip_outer n E z src f (s\<lparr>world := w2\<rparr>) = Ret (Z_OK, s\<lparr>world := w\<rparr>)"
      "written (obs Z w) f = (sent Z f s @ out) @ out'" "codec Z (z_out st' @ out') (z_in st' @ drop CHUNK ?bs)"
      "length (z_out st' @ out') \<le> zbound Z (length (z_in st' @ drop CHUNK ?bs))"
      using Suc.IH [of "s\<lparr>world := w2\<rparr>" st'] st' facts False Suc.prems less by auto
    then show ?thesis using facts unfolding run by auto
  qed
qed simp

lemma zip_total:
  assumes "files_law E Z" "streams_law E Z"
    and "length (contents Z src s) < loop_fuel E * CHUNK" "zbound Z (length (contents Z src s)) < loop_fuel E * CHUNK"
  shows "\<exists>w cs. zip E src f level s = Ret (Z_OK, s\<lparr>world := w\<rparr>) \<and> written (obs Z w) f = sent Z f s @ cs \<and>
    codec Z cs (contents Z src s) \<and> length cs \<le> zbound Z (length (contents Z src s))"
proof -
  obtain ret z w where 1: "z_init E True level (world s) = ((ret, z), w)" by (metis prod.collapse)
  note init = init_law [OF assms(2) 1]
  have "\<exists>v cs. zip_outer (loop_fuel E) E z src f (s\<lparr>world := w\<rparr>) = Ret (Z_OK, s\<lparr>world := v\<rparr>) \<and>
      written (obs Z v) f = sent Z f s @ cs \<and> codec Z cs (contents Z src s) \<and>
      length cs \<le> zbound Z (length (contents Z src s))"
    using zip_outer_total [OF assms(1,2), of "s\<lparr>world := w\<rparr>" z "zfresh True" src "loop_fuel E" f] assms(3,4)
      codec_law(1) [OF assms(2)]
    by (simp add: init(2) zfresh_def)
  then show ?thesis by (auto simp: zip_def call_def 1 init(1))
qed

section \<open>Decompressing\<close>

definition inflated ::
  "'w zmodel \<Rightarrow> nat \<Rightarrow> byte list \<Rightarrow> byte list \<Rightarrow> byte list \<Rightarrow> int \<Rightarrow> zstream \<Rightarrow> 'w \<Rightarrow> zret \<Rightarrow> byte list \<Rightarrow> zstream \<Rightarrow> 'w \<Rightarrow> bool"
where
  "inflated Z z cs bs inp f st w ret out st' w' \<longleftrightarrow>
     pumped Z z st' f out w w' \<and> zvalid Z st' \<and> \<not> z_deflates st' \<and> z_in st' = z_in st @ inp \<and> z_out st' = z_out st @ out \<and>
     prefix (z_out st') bs \<and> (ret = Z_STREAM_END \<longleftrightarrow> z_in st' = cs) \<and> (ret = Z_STREAM_END \<longrightarrow> z_out st' = bs)"

lemma inflated_trans:
  assumes "pumped Z z st1 f out w w1" "z_in st1 = z_in st @ used" "z_out st1 = z_out st @ out"
    and "inflated Z z cs bs left f st1 w1 ret out' st' w'"
  shows "inflated Z z cs bs (used @ left) f st w ret (out @ out') st' w'"
  using assms pumped_trans [OF assms(1)] by (auto simp: inflated_def)

lemma unzip_inner_total:
  assumes laws: "files_law E Z" "streams_law E Z" and codec: "codec Z cs bs"
    and "streams (obs Z (world s)) z = st" "zvalid Z st" "\<not> z_deflates st"
    and "prefix (z_in st @ inp) cs" "prefix (z_out st) bs" "length bs < length (z_out st) + n * CHUNK"
  shows "\<exists>ret out st' w. unzip_inner n E z inp f s = Ret (Inr ret, s\<lparr>world := w\<rparr>) \<and>
    inflated Z z cs bs inp f st (world s) ret out st' w"
  using assms(4-9)
proof (induction n arbitrary: inp st s)
  case 0
  then show ?case using prefix_length_le [of "z_out st" bs] by simp
next
  case (Suc n)
  obtain ret left out w1 w2 st1 where 1: "z_step E z Z_NO_FLUSH inp CHUNK (world s) = ((ret, left, out), w1)"
    "s_fwrite E f out w1 = (True, w2)" "pumped Z z st1 f out (world s) w2" "zvalid Z st1"
    "z_moves inp st (ret, left, out) st1" "inflate_law cs bs ret out st1"
    by (rule pump [OF laws Suc.prems(1,2), of inp Z_NO_FLUSH f]) (use Suc.prems(3-5) codec in auto)
  obtain used where used: "inp = used @ left" "z_in st1 = z_in st @ used" "z_out st1 = z_out st @ out" "\<not> z_deflates st1"
    "length out \<le> CHUNK" "length out < CHUNK \<Longrightarrow> left = []"
    using 1(5) Suc.prems(3) unfolding z_moves_def by auto
  have i: "ret \<in> {Z_OK, Z_BUF_ERROR, Z_STREAM_END}" "prefix (z_out st1) bs"
    "length out < CHUNK \<Longrightarrow> z_in st1 = cs \<Longrightarrow> ret = Z_STREAM_END"
    "ret = Z_STREAM_END \<Longrightarrow> z_in st1 = cs \<and> z_out st1 = bs"
    using 1(6) unfolding inflate_law_def by blast+
  have run: "unzip_inner (Suc n) E z inp f s =
      (if length out = CHUNK then unzip_inner n E z left f (s\<lparr>world := w2\<rparr>) else Ret (Inr ret, s\<lparr>world := w2\<rparr>))"
    using i(1) by (auto simp: call_def 1(1,2) inflate_fatal_def)
  show ?case
  proof (cases "length out = CHUNK")
    case False
    then have full: "length out < CHUNK" using used(5) by simp
    have "inflated Z z cs bs inp f st (world s) ret out st1 w2"
      unfolding inflated_def using 1(3,4) used full i(2-4) by auto
    then show ?thesis using full unfolding run by auto
  next
    case True
    obtain ret' out' st' w where rest: "unzip_inner n E z left f (s\<lparr>world := w2\<rparr>) = Ret (Inr ret', s\<lparr>world := w\<rparr>)"
      "inflated Z z cs bs left f st1 w2 ret' out' st' w"
      using Suc.IH [of "s\<lparr>world := w2\<rparr>" st1 left] pumped_sel(1) [OF 1(3)] 1(4) used(1-4) i(2) Suc.prems(4,6) True
      by auto
    have "inflated Z z cs bs inp f st (world s) ret' (out @ out') st' w"
      using inflated_trans [OF 1(3) used(2,3) rest(2)] used(1) by simp
    then show ?thesis using rest(1) True unfolding run by auto
  qed
qed

lemma unzip_outer_total:
  assumes laws: "files_law E Z" "streams_law E Z" and codec: "codec Z cs bs"
    and "streams (obs Z (world s)) z = st" "zvalid Z st" "\<not> z_deflates st"
    and "z_in st @ contents Z src s = cs" "contents Z src s \<noteq> []" "prefix (z_out st) bs"
    and "length bs < loop_fuel E * CHUNK" "length (contents Z src s) < n * CHUNK"
  shows "\<exists>w out. unzip_outer n E z ret src f s = Ret (Z_OK, s\<lparr>world := w\<rparr>) \<and>
    written (obs Z w) f = sent Z f s @ out \<and> z_out st @ out = bs"
  using assms(4-11)
proof (induction n arbitrary: st s ret)
  case (Suc n)
  let ?cs = "contents Z src s"
  obtain r w1 where 1: "s_fread E src CHUNK (world s) = (r, w1)" by (cases "s_fread E src CHUNK (world s)")
  note rd = read_law [OF laws(1) 1]
  have inp: "take CHUNK ?cs \<noteq> []" using Suc.prems(5) by (simp add: CHUNK_def)
  obtain ret' out st' w2 where 2: "unzip_inner (loop_fuel E) E z (take CHUNK ?cs) f (s\<lparr>world := w1\<rparr>) =
      Ret (Inr ret', s\<lparr>world := w2\<rparr>)" "inflated Z z cs bs (take CHUNK ?cs) f st w1 ret' out st' w2"
    using unzip_inner_total [OF laws codec, of "s\<lparr>world := w1\<rparr>" z st "take CHUNK ?cs" "loop_fuel E" f] Suc.prems
    by (auto simp: rd(2) take_is_prefix)
  have st': "streams (obs Z w2) z = st'" "unread (obs Z w2) src = drop CHUNK ?cs" "written (obs Z w2) f = sent Z f s @ out"
    using 2(2) pumped_sel [of Z z st' f out w1 w2] by (simp_all add: inflated_def rd(2))
  note facts = 2(2) [unfolded inflated_def]
  have whole: "z_in st' @ drop CHUNK ?cs = cs" using facts Suc.prems(4) by auto
  show ?case
  proof (cases "ret' = Z_STREAM_END")
    case True
    obtain st2 where "obs Z (snd (z_end E z w2)) = (obs Z w2)\<lparr>streams := (streams (obs Z w2))(z := st2)\<rparr>"
      by (rule end_law [OF laws(2)])
    then have "written (obs Z (snd (z_end E z w2))) f = sent Z f s @ out" by (simp add: st'(3))
    moreover have "unzip_outer (Suc n) E z ret src f s = Ret (Z_OK, s\<lparr>world := snd (z_end E z w2)\<rparr>)"
      using 2(1) True inp by (simp add: call_def 1 rd(1) Let_def split: prod.split)
    ultimately show ?thesis using facts True by auto
  next
    case False
    have run: "unzip_outer (Suc n) E z ret src f s = unzip_outer n E z ret' src f (s\<lparr>world := w2\<rparr>)"
      using 2(1) False inp by (simp add: call_def 1 rd(1) Let_def)
    have more: "drop CHUNK ?cs \<noteq> []" using facts False whole by auto
    then have "length ?cs - CHUNK < n * CHUNK" using Suc.prems(8) by simp
    then obtain w out' where "unzip_outer n E z ret' src f (s\<lparr>world := w2\<rparr>) = Ret (Z_OK, s\<lparr>world := w\<rparr>)"
      "written (obs Z w) f = (sent Z f s @ out) @ out'" "z_out st' @ out' = bs"
      using Suc.IH [of "s\<lparr>world := w2\<rparr>" st' ret'] st' facts more whole Suc.prems(7) by auto
    then show ?thesis using facts unfolding run by auto
  qed
qed simp

lemma unzip_total:
  assumes "files_law E Z" "streams_law E Z" "codec Z (contents Z src s) bs"
    and "length bs < loop_fuel E * CHUNK" "length (contents Z src s) < loop_fuel E * CHUNK"
  shows "\<exists>w. unzip E src f s = Ret (Z_OK, s\<lparr>world := w\<rparr>) \<and> written (obs Z w) f = sent Z f s @ bs"
proof -
  obtain ret z w where 1: "z_init E False 0 (world s) = ((ret, z), w)" by (metis prod.collapse)
  note init = init_law [OF assms(2) 1]
  have "\<exists>v. unzip_outer (loop_fuel E) E z ret src f (s\<lparr>world := w\<rparr>) = Ret (Z_OK, s\<lparr>world := v\<rparr>) \<and>
      written (obs Z v) f = sent Z f s @ bs"
    using unzip_outer_total [OF assms(1-3), of "s\<lparr>world := w\<rparr>" z "zfresh False" src "loop_fuel E" ret f] assms(4,5)
      codec_law(1,2) [OF assms(2)] assms(3)
    by (auto simp: init(2) zfresh_def)
  then show ?thesis by (auto simp: unzip_def call_def 1 init(1))
qed

text \<open>A file that is cut short.\<close>

lemma unzip_outer_short:
  assumes laws: "files_law E Z" "streams_law E Z" and codec: "codec Z cs bs"
    and "streams (obs Z (world s)) z = st" "zvalid Z st" "\<not> z_deflates st"
    and "strict_prefix (z_in st @ contents Z src s) cs" "prefix (z_out st) bs" "ret \<noteq> Z_STREAM_END"
    and "length bs < loop_fuel E * CHUNK" "length (contents Z src s) + CHUNK \<le> n * CHUNK"
  shows "\<exists>w. unzip_outer n E z ret src f s = Ret (Z_DATA_ERROR, s\<lparr>world := w\<rparr>)"
  using assms(4-11)
proof (induction n arbitrary: st s ret)
  case (Suc n)
  let ?cs = "contents Z src s"
  obtain r w1 where 1: "s_fread E src CHUNK (world s) = (r, w1)" by (cases "s_fread E src CHUNK (world s)")
  note rd = read_law [OF laws(1) 1]
  show ?case
  proof (cases "take CHUNK ?cs = []")
    case True
    then have "unzip_outer (Suc n) E z ret src f s = Ret (Z_DATA_ERROR, s\<lparr>world := snd (z_end E z w1)\<rparr>)"
      using Suc.prems(6) by (simp add: call_def 1 rd(1) Let_def split: prod.split)
    then show ?thesis by blast
  next
    case False
    have inp: "prefix (z_in st @ take CHUNK ?cs) cs"
      using Suc.prems(4) by (meson prefix_order.less_imp_le prefix_order.trans same_prefix_prefix take_is_prefix)
    obtain ret' out st' w2 where 2: "unzip_inner (loop_fuel E) E z (take CHUNK ?cs) f (s\<lparr>world := w1\<rparr>) =
        Ret (Inr ret', s\<lparr>world := w2\<rparr>)" "inflated Z z cs bs (take CHUNK ?cs) f st w1 ret' out st' w2"
      using unzip_inner_total [OF laws codec, of "s\<lparr>world := w1\<rparr>" z st "take CHUNK ?cs" "loop_fuel E" f] Suc.prems inp
      by (auto simp: rd(2))
    have st': "streams (obs Z w2) z = st'" "unread (obs Z w2) src = drop CHUNK ?cs"
      using 2(2) pumped_sel [of Z z st' f out w1 w2] by (simp_all add: inflated_def rd(2))
    note facts = 2(2) [unfolded inflated_def]
    have rest: "z_in st' @ drop CHUNK ?cs = z_in st @ ?cs" using facts by auto
    have "length (z_in st') \<le> length (z_in st @ ?cs)" using facts by simp
    moreover have "length (z_in st @ ?cs) < length cs" by (rule prefix_length_less [OF Suc.prems(4)])
    ultimately have ret': "ret' \<noteq> Z_STREAM_END" using facts by auto
    have run: "unzip_outer (Suc n) E z ret src f s = unzip_outer n E z ret' src f (s\<lparr>world := w2\<rparr>)"
      using 2(1) ret' False by (simp add: call_def 1 rd(1) Let_def)
    have "0 < CHUNK" "?cs \<noteq> []" using False by auto
    then have "length ?cs - CHUNK + CHUNK \<le> n * CHUNK" using Suc.prems(8) by (cases n) auto
    then show ?thesis
      using Suc.IH [of "s\<lparr>world := w2\<rparr>" st' ret'] st' facts rest ret' Suc.prems(4,7) unfolding run by auto
  qed
qed (simp add: CHUNK_def)

lemma unzip_short:
  assumes "files_law E Z" "streams_law E Z" "codec Z cs bs" "strict_prefix (contents Z src s) cs"
    and "length bs < loop_fuel E * CHUNK" "length (contents Z src s) + CHUNK \<le> loop_fuel E * CHUNK"
  shows "\<exists>w. unzip E src f s = Ret (Z_DATA_ERROR, s\<lparr>world := w\<rparr>)"
proof -
  obtain ret z w where 1: "z_init E False 0 (world s) = ((ret, z), w)" by (metis prod.collapse)
  note init = init_law [OF assms(2) 1]
  have "\<exists>v. unzip_outer (loop_fuel E) E z ret src f (s\<lparr>world := w\<rparr>) = Ret (Z_DATA_ERROR, s\<lparr>world := v\<rparr>)"
    using unzip_outer_short [OF assms(1-3), of "s\<lparr>world := w\<rparr>" z "zfresh False" src ret "loop_fuel E" f] assms(4-6)
      codec_law(1) [OF assms(2)]
    by (simp add: init zfresh_def)
  then show ?thesis by (auto simp: unzip_def call_def 1 init(1))
qed

section \<open>Properties\<close>


text \<open>
  A file that is cut short, at whatever byte, is not taken for a whole one: \<^verbatim>\<open>unzip\<close> answers
  \<^verbatim>\<open>Z_DATA_ERROR\<close>.
\<close>

theorem unzip_truncated:
  assumes "files_law E Z" "streams_law E Z" "codec Z cs bs" "contents Z src s = take n cs" "n < length cs"
    and "length bs < loop_fuel E * CHUNK" "n + CHUNK \<le> loop_fuel E * CHUNK"
  shows "\<exists>w. unzip E src f s = Ret (Z_DATA_ERROR, s\<lparr>world := w\<rparr>)"
proof (rule unzip_short [OF assms(1-3) _ assms(6)])
  have "take n cs \<noteq> cs" using assms(5) by (metis length_take min.strict_order_iff min.commute less_irrefl)
  then show "strict_prefix (contents Z src s) cs" unfolding assms(4) strict_prefix_def by (simp add: take_is_prefix)
qed (use assms(4,5,7) in simp)

section \<open>A codec that keeps the promises\<close>

text \<open>Every byte is marked, and a zero ends the stream; the output is held back until the buffer has room.\<close>

definition marked :: "byte list \<Rightarrow> byte list" where
  "marked bs = concat (map (\<lambda>b. [1, b]) bs)"

fun unmarked :: "byte list \<Rightarrow> byte list" where
  "unmarked (m # b # cs) = (if m = 1 then b # unmarked cs else [])"
| "unmarked cs = []"

lemma marked_simps [simp]: "marked [] = []" "marked (b # bs) = 1 # b # marked bs" "marked (as @ bs) = marked as @ marked bs"
  "length (marked bs) = 2 * length bs"
  by (simp_all add: marked_def) (induction bs, simp_all)

lemma unmarked_marked [simp]: "unmarked (marked bs @ [0]) = bs"
  by (induction bs) simp_all

lemma unmarked_mono: "prefix cs ds \<Longrightarrow> prefix (unmarked cs) (unmarked ds)"
proof (induction cs arbitrary: ds rule: unmarked.induct)
  case (1 m b cs)
  from 1(2) obtain es where "ds = (m # b # cs) @ es" by (rule prefixE)
  then show ?case using 1(1) [of "cs @ es"] by simp
qed simp_all

lemma marked_ends: "prefix (marked xs @ [0]) (marked ys @ [0]) \<Longrightarrow> xs = ys"
proof (induction xs arbitrary: ys)
  case Nil
  then show ?case by (cases ys) simp_all
next
  case (Cons x xs)
  then show ?case by (cases ys) simp_all
qed

definition toy_model :: "disk zmodel" where
  "toy_model = \<lparr>obs = (\<lambda>d. d), codec = (\<lambda>cs bs. cs = marked bs @ [0]), zbound = (\<lambda>n. 2 * n + 1),
     zvalid = (\<lambda>st. if \<not> z_deflates st then prefix (z_out st) (unmarked (z_in st))
       else if z_done st then z_out st = marked (z_in st) @ [0] else prefix (z_out st) (marked (z_in st)))\<rparr>"

definition toy_step :: "zflush \<Rightarrow> byte list \<Rightarrow> nat \<Rightarrow> zstream \<Rightarrow> (zret \<times> byte list \<times> byte list) \<times> zstream" where
  "toy_step fl inp n st =
     (let taken = z_in st @ inp;
          whole = (if z_deflates st then marked taken @ (if fl = Z_FINISH then [0] else []) else unmarked taken);
          rest = drop (length (z_out st)) whole;
          ends = (length rest \<le> n \<and> (if z_deflates st then fl = Z_FINISH else taken = marked whole @ [0]));
          ret = (if ends then Z_STREAM_END else Z_OK)
      in ((ret, [], take n rest),
          st\<lparr>z_in := taken, z_out := z_out st @ take n rest, z_done := z_done st \<or> ends\<rparr>))"

definition toy_env :: "(disk, sample_dict) env" where
  "toy_env = (still (\<lambda>_ d. ((), d)) DPL_SUCCESS)\<lparr>
     s_fread := \<lambda>f n d. ((take n (unread d f), False, length (unread d f) < n),
       d\<lparr>unread := (unread d)(f := drop n (unread d f))\<rparr>),
     s_fwrite := \<lambda>f bs d. (True, d\<lparr>written := (written d)(f := written d f @ bs)\<rparr>),
     z_init := \<lambda>c l d. ((Z_OK, 0), d\<lparr>streams := (streams d)(0 := zfresh c)\<rparr>),
     z_step := \<lambda>z fl inp n d. (let (x, st) = toy_step fl inp n (streams d z) in (x, d\<lparr>streams := (streams d)(z := st)\<rparr>)),
     z_end := \<lambda>z d. ((), d)\<rparr>"

lemma toy_deflate:
  assumes "zvalid toy_model st" "z_deflates st" "z_done st \<Longrightarrow> inp = []" "toy_step fl inp CHUNK st = (x, st')"
  shows "zvalid toy_model st' \<and> z_moves inp st x st' \<and> deflate_law toy_model fl (fst x) (snd (snd x)) st'"
proof -
  define fin :: "byte list" where "fin = (if fl = Z_FINISH then [0] else [])"
  define rest where "rest = drop (length (z_out st)) (marked (z_in st @ inp) @ fin)"
  define ends where "ends \<longleftrightarrow> length rest \<le> CHUNK \<and> fl = Z_FINISH"
  have step: "x = (if ends then Z_STREAM_END else Z_OK, [], take CHUNK rest)"
    "st' = st\<lparr>z_in := z_in st @ inp, z_out := z_out st @ take CHUNK rest, z_done := z_done st \<or> ends\<rparr>"
    using assms(2,4) unfolding ends_def rest_def fin_def
    by (simp_all add: toy_step_def Let_def del: marked_simps drop_append take_append length_drop length_append)
  show ?thesis
  proof (cases "z_done st")
    case True
    then have "inp = []" "z_out st = marked (z_in st) @ [0]" using assms(1-3) by (simp_all add: toy_model_def)
    moreover from this have "rest = []" by (simp add: rest_def fin_def)
    ultimately show ?thesis
      using assms(2) True by (simp add: step ends_def toy_model_def z_moves_def deflate_law_def)
  next
    case False
    then have "prefix (z_out st) (marked (z_in st))" using assms(1,2) by (simp add: toy_model_def)
    then obtain r where r: "marked (z_in st) = z_out st @ r" by (auto elim: prefixE)
    have rest: "rest = (r @ marked inp) @ fin" by (simp add: rest_def r)
    have whole: "z_out st @ r @ marked inp = marked (z_in st @ inp)" by (simp add: r)
    show ?thesis
    proof (cases ends)
      case True
      then have "z_out st @ take CHUNK rest = marked (z_in st @ inp) @ [0]"
        using whole unfolding ends_def rest by (auto simp: fin_def)
      moreover from this have "length (z_out st @ take CHUNK rest) = 2 * length (z_in st @ inp) + 1" by simp
      ultimately show ?thesis
        using assms(2) True unfolding step by (simp add: ends_def toy_model_def z_moves_def deflate_law_def)
    next
      case not: False
      have "take CHUNK rest = take CHUNK (r @ marked inp)"
        using not unfolding ends_def rest fin_def by auto
      then have out: "prefix (z_out st @ take CHUNK rest) (marked (z_in st @ inp))"
        using whole by (metis same_prefix_prefix take_is_prefix)
      then have "length (z_out st @ take CHUNK rest) \<le> 2 * length (z_in st @ inp)"
        using prefix_length_le [OF out] by simp
      moreover have "fl = Z_FINISH \<Longrightarrow> length (take CHUNK rest) = CHUNK" using not unfolding ends_def by auto
      ultimately show ?thesis
        using assms(2) not False out unfolding step by (auto simp: toy_model_def z_moves_def deflate_law_def)
    qed
  qed
qed

lemma toy_inflate:
  assumes "zvalid toy_model st" "\<not> z_deflates st" "toy_step fl inp CHUNK st = (x, st')"
  shows "zvalid toy_model st' \<and> z_moves inp st x st'"
    and "codec toy_model cs bs \<Longrightarrow> prefix (z_in st @ inp) cs \<Longrightarrow> inflate_law cs bs (fst x) (snd (snd x)) st'"
proof -
  define taken whole where "taken = z_in st @ inp" and "whole = unmarked taken"
  define rest where "rest = drop (length (z_out st)) whole"
  define ends where "ends \<longleftrightarrow> length rest \<le> CHUNK \<and> taken = marked whole @ [0]"
  have step: "x = (if ends then Z_STREAM_END else Z_OK, [], take CHUNK rest)"
    "st' = st\<lparr>z_in := taken, z_out := z_out st @ take CHUNK rest, z_done := z_done st \<or> ends\<rparr>"
    using assms(2,3) unfolding ends_def rest_def whole_def taken_def by (auto simp: toy_step_def Let_def)
  have "prefix (z_out st) (unmarked (z_in st))" using assms(1,2) by (simp add: toy_model_def)
  moreover have "prefix (unmarked (z_in st)) whole" unfolding whole_def taken_def by (rule unmarked_mono) simp
  ultimately have "prefix (z_out st) whole" by (rule prefix_order.trans)
  then have whole: "whole = z_out st @ rest" unfolding rest_def by (auto elim: prefixE)
  have out: "prefix (z_out st @ take CHUNK rest) whole" unfolding whole by (simp add: take_is_prefix)
  then show "zvalid toy_model st' \<and> z_moves inp st x st'"
    using assms(2) unfolding step by (simp add: toy_model_def z_moves_def whole_def taken_def)
  show "inflate_law cs bs (fst x) (snd (snd x)) st'" if codec: "codec toy_model cs bs" "prefix (z_in st @ inp) cs"
  proof -
    have cs: "cs = marked bs @ [0]" using codec(1) by (simp add: toy_model_def)
    have bs: "prefix whole bs" using unmarked_mono [OF codec(2)] by (simp add: cs whole_def taken_def)
    have pre: "prefix (z_out st @ take CHUNK rest) bs" using out bs by (rule prefix_order.trans)
    show ?thesis
    proof (cases ends)
      case True
      then have "whole = bs" using marked_ends [of whole bs] codec(2) by (simp add: ends_def cs taken_def)
      moreover from this have "taken = cs" using True by (simp add: ends_def cs)
      moreover have "z_out st @ take CHUNK rest = whole" using True whole by (simp add: ends_def)
      ultimately show ?thesis using True unfolding step inflate_law_def by simp
    next
      case False
      have "taken \<noteq> cs" if "length (take CHUNK rest) < CHUNK"
      proof
        assume "taken = cs"
        then have "whole = bs" by (simp add: whole_def cs)
        then show False using False that \<open>taken = cs\<close> by (simp add: ends_def cs)
      qed
      then show ?thesis using False pre unfolding step inflate_law_def by auto
    qed
  qed
qed

lemma toy_laws: "files_law toy_env toy_model" "streams_law toy_env toy_model"
proof -
  have obs: "obs toy_model = (\<lambda>d. d)" by (simp add: toy_model_def)
  show "files_law toy_env toy_model" by (simp add: files_law_def toy_env_def obs Let_def)
  have "zvalid toy_model (zfresh c)" for c by (simp add: toy_model_def zfresh_def)
  moreover have "codec toy_model cs bs \<longrightarrow> cs \<noteq> []" for cs bs by (simp add: toy_model_def)
  moreover have "mono (zbound toy_model)" by (simp add: toy_model_def mono_def)
  moreover have "\<exists>st. d = d\<lparr>streams := (streams d)(z := st)\<rparr>" for d and z :: nat
    by (rule exI [of _ "streams d z"]) simp
  moreover have step: "zvalid toy_model (snd y) \<and> z_moves inp st (fst y) (snd y) \<and>
      (z_deflates st \<longrightarrow> deflate_law toy_model fl (fst (fst y)) (snd (snd (fst y))) (snd y)) \<and>
      (\<not> z_deflates st \<longrightarrow> (\<forall>cs bs. codec toy_model cs bs \<longrightarrow> prefix (z_in st @ inp) cs \<longrightarrow> prefix (z_out st) bs \<longrightarrow>
        inflate_law cs bs (fst (fst y)) (snd (snd (fst y))) (snd y)))"
    if "toy_step fl inp CHUNK st = y" "zvalid toy_model st" "z_deflates st \<longrightarrow> z_done st \<longrightarrow> inp = []" for y fl inp st
    using toy_deflate [of st inp fl "fst y" "snd y"] toy_inflate [of st fl inp "fst y" "snd y"] that
    by (cases "z_deflates st") simp_all
  ultimately show "streams_law toy_env toy_model"
    unfolding streams_law_def
    apply (intro conjI allI)
    subgoal for z fl inp d
      using step [OF refl, of "streams d z" inp fl]
      by (auto simp: toy_env_def obs Let_def case_prod_unfold intro!: exI [of _ "snd (toy_step fl inp CHUNK (streams d z))"])
    by (simp_all add: toy_env_def obs Let_def)
qed

definition toy_state :: "(disk, sample_dict) state" where
  "toy_state = \<lparr>hash = [], pes = Map.empty, dicts = Map.empty, nxt = 1, cfg = sample_conf,
     world = \<lparr>unread = (\<lambda>_. [7, 8, 9]), written = (\<lambda>_. []), streams = (\<lambda>_. zfresh True)\<rparr>\<rparr>"


end
