(* ===== verification/Dirops.thy ===== *)
theory Dirops
  imports Getattr
begin

text \<open>
  The handlers of directories and links: \<^verbatim>\<open>mkdir.c\<close>, \<^verbatim>\<open>mknod.c\<close>, \<^verbatim>\<open>rmdir.c\<close>,
  \<^verbatim>\<open>opendir.c\<close>, \<^verbatim>\<open>readdir.c\<close>, \<^verbatim>\<open>unlink.c\<close>, \<^verbatim>\<open>symlink.c\<close> and \<^verbatim>\<open>readlink.c\<close>.
\<close>

section \<open>Creating and removing\<close>

definition dfs_mkdir ::
  "('w, 'd) env \<Rightarrow> string \<Rightarrow> ('w, 'd) state \<Rightarrow> (int \<times> ('w, 'd) state) outcome"
where
  "dfs_mkdir E pth s =
     obind (dfs_mkdir_timeout E pth s) (\<lambda>(rc, _, s).
     Ret (if rc \<noteq> DPL_SUCCESS \<and> rc \<noteq> DPL_ENOENT then -1 else 0, s))"

definition dfs_mknod ::
  "('w, 'd) env \<Rightarrow> string \<Rightarrow> ('w, 'd) state \<Rightarrow> (int \<times> ('w, 'd) state) outcome"
where
  "dfs_mknod E pth s =
     obind (dfs_mknod_timeout E pth s) (\<lambda>(rc, _, s). Ret (if rc \<noteq> DPL_SUCCESS then -1 else 0, s))"

definition dfs_rmdir ::
  "('w, 'd) env \<Rightarrow> string \<Rightarrow> ('w, 'd) state \<Rightarrow> (int \<times> ('w, 'd) state) outcome"
where
  "dfs_rmdir E pth s =
     obind (dfs_rmdir_timeout E pth s) (\<lambda>(rc, _, s).
     if rc \<noteq> DPL_SUCCESS then Ret (-1, s)
     else let pe = g_hash_table_lookup pth s in
       if pe = NULL then Ret (0, s)
       else obind (pentry_remove_dirent pe pth s) (\<lambda>(_, s). Ret (0, s)))"

text \<open>\<^verbatim>\<open>dfs_unlink\<close> from the lookup of the entry on.\<close>

definition unlink_entry ::
  "('w, 'd) env \<Rightarrow> string \<Rightarrow> ('w, 'd) state \<Rightarrow> (int \<times> ('w, 'd) state) outcome"
where
  "unlink_entry E pth s =
     (if g_hash_table_lookup pth s = NULL then Ret (0, s)
      else obind (g_hash_table_remove E pth s) (\<lambda>(_, s).
        case strrchr pth (CHR ''/'') of
          None \<Rightarrow> Ret (0, s)
        | Some i \<Rightarrow>
            let pe_dir = g_hash_table_lookup (cut_at pth i) s in
            if pe_dir = NULL then Ret (0, s)
            else obind (pentry_remove_dirent pe_dir pth s) (\<lambda>(_, s). Ret (0, s))))"

definition dfs_unlink ::
  "('w, 'd) env \<Rightarrow> string \<Rightarrow> ('w, 'd) state \<Rightarrow> (int \<times> ('w, 'd) state) outcome"
where
  "dfs_unlink E pth s =
     obind (dfs_unlink_timeout E pth s) (\<lambda>(rc, _, s).
     if rc \<noteq> DPL_SUCCESS then Ret (1, s)
     else let local = tmpstr_fit (cstr_print (cache_dir (cfg s)) @ ''/'' @ pth) in
       call (s_unlink E local) s (\<lambda>_ s. unlink_entry E pth s))"

section \<open>Reading a directory\<close>

text \<open>The handle that \<^verbatim>\<open>dfs_opendir_timeout\<close> stores is a temporary of the call and is lost.\<close>

definition dfs_opendir ::
  "('w, 'd) env \<Rightarrow> string \<Rightarrow> ('w, 'd) state \<Rightarrow> (int \<times> ('w, 'd) state) outcome"
where
  "dfs_opendir E pth s =
     obind (dfs_opendir_timeout E pth NULL s) (\<lambda>(rc, _, s).
     if rc \<noteq> DPL_SUCCESS then Ret (status_code E rc, s)
     else obind (find_or_add E (Some FILE_DIR) pth s) (\<lambda>(pe, s).
       Ret (if pe = NULL then -1 else 0, s)))"

text \<open>\<open>fill\<close> is FUSE's callback on its buffer \<open>b\<close>; it says whether the buffer is full.\<close>

fun readdir_loop ::
  "nat \<Rightarrow> ('w, 'd) env \<Rightarrow> ('b \<Rightarrow> string \<Rightarrow> bool \<times> 'b) \<Rightarrow> nat \<Rightarrow> 'b \<Rightarrow> ('w, 'd) state \<Rightarrow>
    ('b \<times> ('w, 'd) state) outcome"
where
  "readdir_loop 0 E fill h b s = Stuck Diverges"
| "readdir_loop (Suc n) E fill h b s =
     call (dpl_readdir E h) s (\<lambda>r s.
     case r of None \<Rightarrow> Ret (b, s)
     | Some name \<Rightarrow> (case fill b name of (full, b) \<Rightarrow>
         if full then Ret (b, s) else readdir_loop n E fill h b s))"

definition dfs_readdir ::
  "('w, 'd) env \<Rightarrow> string \<Rightarrow> ('b \<Rightarrow> string \<Rightarrow> bool \<times> 'b) \<Rightarrow> 'b \<Rightarrow> ('w, 'd) state \<Rightarrow>
    (int \<times> 'b \<times> ('w, 'd) state) outcome"
where
  "dfs_readdir E pth fill b s =
     (if g_hash_table_lookup pth s = NULL then Ret (-1, b, s)
      else obind (dfs_chdir_timeout E pth s) (\<lambda>(rc, _, s).
        if rc \<noteq> DPL_SUCCESS then Ret (status_code E rc, b, s)
        else obind (dfs_opendir_timeout E ''.'' NULL s) (\<lambda>(rc, h, s).
          if rc \<noteq> DPL_SUCCESS then Ret (status_code E rc, b, s)
          else obind (readdir_loop (loop_fuel E) E fill h b s) (\<lambda>(b, s).
               call (dpl_closedir E h) s (\<lambda>_ s. Ret (0, b, s))))))"

section \<open>Links\<close>

text \<open>The target that is stored: what follows the mount point and a slash, when the old path
  contains the mount point. A path that ends with it leaves a pointer past the end of the string.\<close>

definition symlink_target :: "conf \<Rightarrow> string \<Rightarrow> string outcome" where
  "symlink_target c old =
     obind (cstr_get (root_dir c)) (\<lambda>root.
     case strstr old root of
       None \<Rightarrow> Ret old
     | Some r \<Rightarrow> if length r = length root then Stuck OutOfBounds
                 else Ret (drop (Suc (length root)) r))"

definition symlink_dict ::
  "('w, 'd) env \<Rightarrow> string \<Rightarrow> string \<Rightarrow> addr \<Rightarrow> ('w, 'd) state \<Rightarrow> (int \<times> ('w, 'd) state) outcome"
where
  "symlink_dict E new opath dict s =
     obind (dict_at dict s) (\<lambda>c.
     call (dict_add E c ''symlink'' opath) s (\<lambda>(rc, c) s.
     obind (dict_set dict c s) (\<lambda>s.
     if rc \<noteq> DPL_SUCCESS then Ret (-1, s)
     else call (dict_add E c ''size'' (tmpstr_fit (dec (length opath)))) s (\<lambda>(rc, c) s.
       obind (dict_set dict c s) (\<lambda>s.
       if rc \<noteq> DPL_SUCCESS then Ret (-1, s)
       else obind (dfs_setattr_timeout E new dict s) (\<lambda>(rc, _, s).
            Ret (if rc \<noteq> DPL_SUCCESS then -1 else 0, s)))))))"

definition dfs_symlink ::
  "('w, 'd) env \<Rightarrow> string \<Rightarrow> string \<Rightarrow> ('w, 'd) state \<Rightarrow> (int \<times> ('w, 'd) state) outcome"
where
  "dfs_symlink E old new s =
     obind (dfs_mknod_timeout E new s) (\<lambda>(rc, _, s).
     if rc \<noteq> DPL_SUCCESS then Ret (status_code E rc, s)
     else obind (symlink_target (cfg s) old) (\<lambda>opath.
          dpl_dict_new E s (\<lambda>dict s.
          if dict = NULL then Ret (-1, s)
          else obind (symlink_dict E new opath dict s) (\<lambda>(ret, s).
               obind (dpl_dict_free dict s) (\<lambda>s. Ret (ret, s))))))"

text \<open>\<open>buf\<close> is FUSE's buffer of \<open>length buf\<close> bytes. \<^verbatim>\<open>strncpy\<close> of at most the length of the
  target writes no NUL. The computed \<^verbatim>\<open>ret\<close> is dropped: the function returns 0.\<close>

definition dfs_readlink ::
  "('w, 'd) env \<Rightarrow> string \<Rightarrow> string \<Rightarrow> ('w, 'd) state \<Rightarrow> (int \<times> string \<times> ('w, 'd) state) outcome"
where
  "dfs_readlink E pth buf s =
     obind (dfs_getattr_timeout E pth NULL s) (\<lambda>(rc, dict, s).
     obind (if rc \<noteq> DPL_SUCCESS then Ret buf
            else if dict = NULL then Ret buf
            else obind (dict_at dict s) (\<lambda>c.
              case dict_get E c ''symlink'' of
                None \<Rightarrow> Ret buf
              | Some dest \<Rightarrow>
                  let n = (if length dest > length buf then length buf else length dest)
                  in Ret (take n dest @ drop n buf))) (\<lambda>buf.
     obind (dict_free_opt dict s) (\<lambda>s. Ret (0, buf, s))))"

section \<open>Rules\<close>

lemma okay_dfs_mkdir [okay_rule]:
  "(\<And>r w. Q (r, s\<lparr>world := w\<rparr>)) \<Longrightarrow> okay (dfs_mkdir E p s) Q"
  "(\<And>r w. Q (r, s\<lparr>world := w\<rparr>)) \<Longrightarrow> okay (dfs_mknod E p s) Q"
  unfolding dfs_mkdir_def dfs_mknod_def by (auto intro!: okay_world_timeouts)

lemma okay_dirent_opt:
  assumes "heap_inv s" "\<And>s'. heap_inv s' \<Longrightarrow> view s' = view s \<Longrightarrow> Q (0, s')"
  shows "okay (let pe = g_hash_table_lookup k s in
    if pe = NULL then Ret (0, s) else obind (pentry_remove_dirent pe n s) (\<lambda>(_, s). Ret (0, s))) Q"
  using assms(1)
  by (cases rule: lookup_cases [where k = k])
    (use assms in \<open>auto intro!: okay_remove_dirent\<close>)

lemma okay_dfs_rmdir [okay_rule]:
  assumes "heap_inv s" "\<And>r s'. heap_inv s' \<Longrightarrow> view s' = view s \<Longrightarrow> Q (r, s')"
  shows "okay (dfs_rmdir E p s) Q"
  unfolding dfs_rmdir_def
  using assms by (auto intro!: okay_world_timeouts okay_dirent_opt)

text \<open>Removing a path drops its entry, if there is one.\<close>

lemma okay_unlink_entry:
  assumes "heap_inv s" "\<And>s'. heap_inv s' \<Longrightarrow> view s' = v_drop p (view s) \<Longrightarrow> Q (0, s')"
  shows "okay (unlink_entry E p s) Q"
  using assms(1)
proof (cases rule: lookup_cases [where k = p])
  case 1
  then show ?thesis using assms by (auto simp: unlink_entry_def intro!: assms(2))
next
  case (2 a)
  then show ?thesis
    using assms by (auto simp: unlink_entry_def intro!: okay_hash_remove okay_dirent_opt split: option.split)
qed

lemma okay_dfs_unlink [okay_rule]:
  assumes "heap_inv s"
    and "\<And>s'. heap_inv s' \<Longrightarrow> view s' = view s \<Longrightarrow> Q (1, s')"
    and "\<And>s'. heap_inv s' \<Longrightarrow> view s' = v_drop p (view s) \<Longrightarrow> Q (0, s')"
  shows "okay (dfs_unlink E p s) Q"
  unfolding dfs_unlink_def
  using assms by (auto intro!: okay_world_timeouts okay_call okay_unlink_entry)

lemma okay_dfs_opendir [okay_rule]:
  assumes "heap_inv s" "inits_ok E"
    and "\<And>r s'. heap_inv s' \<Longrightarrow> view s' = view s \<or> (\<exists>a. entry_for p a (view s) (view s')) \<Longrightarrow> Q (r, s')"
  shows "okay (dfs_opendir E p s) Q"
proof -
  have fin: "Q (0, s')" if "heap_inv s'" "entry_for p a (view s) (view s')" for a s'
    using that by (intro assms(3)) auto
  show ?thesis
    unfolding dfs_opendir_def
    using assms by (auto intro!: okay_opendir_timeout okay_find_or_add fin)
qed

lemma okay_readdir_loop [okay_rule]:
  "(\<And>b w. Q (b, s\<lparr>world := w\<rparr>)) \<Longrightarrow> okay (readdir_loop n E fill h b s) Q"
proof (induction n arbitrary: b s)
  case (Suc n)
  have "okay (readdir_loop n E fill h c (s\<lparr>world := v\<rparr>)) Q" for c v
    by (rule Suc.IH) (simp add: Suc.prems)
  then show ?case using Suc.prems by (auto intro!: okay_call split: option.split prod.split)
qed simp

lemma okay_dfs_readdir [okay_rule]:
  assumes "\<And>r b w. Q (r, b, s\<lparr>world := w\<rparr>)" shows "okay (dfs_readdir E p fill b s) Q"
proof -
  have same: "Q (r, b, s)" for r b using assms [of r b "world s"] by simp
  show ?thesis
    unfolding dfs_readdir_def
    using assms same by (auto intro!: okay_world_timeouts okay_opendir_timeout okay_readdir_loop okay_call)
qed

lemma strstr_Some: "strstr s p = Some r \<Longrightarrow> take (length p) r = p \<and> length r \<le> length s"
  by (induction s) (auto split: if_splits)

lemma okay_symlink_target [okay_rule]:
  assumes "root_dir c = CLit root \<or> root_dir c = CHeap root" "strstr old root \<noteq> Some root" "\<And>t. Q t"
  shows "okay (symlink_target c old) Q"
proof -
  have "length r \<noteq> length root" if "strstr old root = Some r" for r
    using strstr_Some [OF that] assms(2) that by auto
  then show ?thesis
    using assms(1,3) by (auto simp: symlink_target_def split: option.split)
qed

lemma okay_symlink_dict [okay_rule]:
  assumes "heap_inv s" "d \<in> v_loose (view s)"
    and "\<And>r s'. heap_inv s' \<Longrightarrow> view s' = view s \<Longrightarrow> Q (r, s')"
  shows "okay (symlink_dict E new opath d s) Q"
  unfolding symlink_dict_def
  using assms by (auto intro!: okay_dict_at okay_dict_set okay_call okay_setattr_timeout)

lemma okay_dfs_readlink [okay_rule]:
  assumes "heap_inv s" "dpl_clean E"
    and "\<And>b s'. heap_inv s' \<Longrightarrow> view s' = view s \<Longrightarrow> Q (0, b, s')"
  shows "okay (dfs_readlink E p buf s) Q"
  unfolding dfs_readlink_def
  using assms by (auto intro!: okay_getattr_timeout okay_dict_at okay_dict_free_opt split: option.split simp: Let_def)

section \<open>Properties\<close>



text \<open>The names a directory handle answers, from one world to another.\<close>

inductive listing :: "('w, 'd) env \<Rightarrow> nat \<Rightarrow> 'w \<Rightarrow> string list \<Rightarrow> 'w \<Rightarrow> bool" for E h where
  listing_Nil: "dpl_readdir E h w = (None, w') \<Longrightarrow> listing E h w [] w'"
| listing_Cons: "dpl_readdir E h w = (Some x, v) \<Longrightarrow> listing E h v xs w' \<Longrightarrow> listing E h w (x # xs) w'"

inductive_simps listing_simps: "listing E h w [] w'" "listing E h w (x # xs) w'"

text \<open>Filling a buffer until it is full.\<close>

primrec fill_until :: "('b \<Rightarrow> string \<Rightarrow> bool \<times> 'b) \<Rightarrow> string list \<Rightarrow> 'b \<Rightarrow> 'b" where
  "fill_until fill [] b = b"
| "fill_until fill (x # xs) b = (case fill b x of (full, c) \<Rightarrow> if full then c else fill_until fill xs c)"

lemma readdir_loop_listing:
  "listing E h (world s) ns w' \<Longrightarrow> length ns < n \<Longrightarrow>
    \<exists>w. readdir_loop n E fill h b s = Ret (fill_until fill ns b, s\<lparr>world := w\<rparr>)"
proof (induction ns arbitrary: n b s)
  case Nil
  then show ?case by (cases n) (auto simp: listing_simps call_def)
next
  case (Cons x xs)
  then obtain m v where m: "n = Suc m" "length xs < m" "dpl_readdir E h (world s) = (Some x, v)"
      "listing E h v xs w'" by (cases n) (auto simp: listing_simps)
  obtain full c where c: "fill b x = (full, c)" by (cases "fill b x")
  have "\<exists>w. readdir_loop m E fill h c (s\<lparr>world := v\<rparr>) = Ret (fill_until fill xs c, s\<lparr>world := w\<rparr>)"
    using Cons.IH [of "s\<lparr>world := v\<rparr>" m c] m by simp
  then show ?case by (auto simp: m c call_def)
qed

text \<open>
  C31: when the directory can be entered and opened, \<^verbatim>\<open>dfs_readdir\<close> hands the names that the
  store lists to FUSE, in their order and until its buffer is full, closes its handle and returns 0;
  a path that has no entry is refused.
\<close>

theorem readdir_correct:
  assumes "dfs_chdir_timeout E p s = Ret (DPL_SUCCESS, u, s1)"
    and "dfs_opendir_timeout E ''.'' NULL s1 = Ret (DPL_SUCCESS, h, s2)"
    and "listing E h (world s2) ns w'" "length ns < loop_fuel E"
  shows "if g_hash_table_lookup p s = NULL then dfs_readdir E p fill b s = Ret (-1, b, s)
    else \<exists>w. dfs_readdir E p fill b s = Ret (0, fill_until fill ns b, s2\<lparr>world := snd (dpl_closedir E h w)\<rparr>)"
proof -
  obtain w where w: "readdir_loop (loop_fuel E) E fill h b s2 = Ret (fill_until fill ns b, s2\<lparr>world := w\<rparr>)"
    using readdir_loop_listing [OF assms(3,4), of fill b] by (rule exE)
  show ?thesis
    using assms(1,2) w
    by (auto simp: dfs_readdir_def call_def split: prod.split intro!: exI [of _ w])
qed

definition sample_dir :: "(nat, sample_dict) env" where
  "sample_dir = (sample DPL_SUCCESS)\<lparr>dpl_readdir := \<lambda>h w. (if w = 0 then Some ''a'' else if w = 1 then Some ''b'' else None, Suc w)\<rparr>"

theorem readdir_correct_witness:
  "\<exists>w. dfs_readdir sample_dir ''/f'' (\<lambda>b x. (False, b @ [x])) [] sample_open =
     Ret (0, [''a'', ''b''], sample_open\<lparr>world := w\<rparr>)"
proof -
  have w: "world sample_open = 0" "sample_open\<lparr>world := 0\<rparr> = sample_open" by (simp_all add: sample_open_def)
  have c: "dfs_chdir_timeout sample_dir ''/f'' sample_open = Ret (DPL_SUCCESS, (), sample_open)"
    using w by (intro chdir_r.success) (simp add: plain_def call_def sample_dir_def)
  have o: "dfs_opendir_timeout sample_dir ''.'' NULL sample_open = Ret (DPL_SUCCESS, 1, sample_open)"
    using w by (intro opendir_r.success) (simp add: plain_def call_def sample_dir_def)
  have l: "listing sample_dir 1 (world sample_open) [''a'', ''b''] 3"
    by (simp add: listing_simps sample_dir_def w)
  have t: "g_hash_table_lookup ''/f'' sample_open \<noteq> NULL"
    by (simp add: g_hash_table_lookup_def sample_open_def)
  show ?thesis
    using readdir_correct [OF c o l, of "\<lambda>b x. (False, b @ [x])" "[]"] t
    by (auto simp: sample_dir_def)
qed

text \<open>
  A failing \<^verbatim>\<open>dpl_getattr\<close> is hidden from the caller: \<^verbatim>\<open>dfs_readlink\<close> returns 0 and
  leaves the buffer as it was, although it computed -1.
\<close>

theorem readlink_hides_errors:
  assumes "dpl_getattr E p (world s) = ((DPL_ENOENT, None), w)"
  shows "dfs_readlink E p buf s = Ret (0, buf, s\<lparr>world := w\<rparr>)"
proof -
  have "dfs_getattr_timeout E p NULL s = Ret (DPL_ENOENT, NULL, s\<lparr>world := w\<rparr>)"
    using assms by (intro getattr_r.stops) (simp_all add: plain_dict_def call_def retry_getattr_def)
  then show ?thesis by (simp add: dfs_readlink_def dict_free_opt_def)
qed

theorem readlink_hides_errors_witness:
  "dfs_readlink (sample DPL_ENOENT) ''/gone'' ''....'' sample_open = Ret (0, ''....'', sample_open)"
  using readlink_hides_errors [of "sample DPL_ENOENT" "''/gone''" sample_open 0 "''....''"]
  by (simp add: sample_open_def)

text \<open>
  What a link needs of libdroplet: an added key has its value and leaves the others alone, and an object
  whose metadata was set answers it.
\<close>

definition link_laws :: "('w, 'd) env \<Rightarrow> string \<Rightarrow> bool" where
  "link_laws E p \<longleftrightarrow>
     (\<forall>c k v w d w'. dict_add E c k v w = ((DPL_SUCCESS, d), w') \<longrightarrow>
        dict_get E d = (dict_get E c)(k \<mapsto> v)) \<and>
     (\<forall>c w w'. dpl_setattr E p c w = ((DPL_SUCCESS, ()), w') \<longrightarrow>
        (\<exists>d w''. dpl_getattr E p w' = ((DPL_SUCCESS, Some d), w'') \<and> dict_get E d = dict_get E c))"

lemma link_add:
  "link_laws E p \<Longrightarrow> dict_add E c k v w = ((DPL_SUCCESS, d), w') \<Longrightarrow> dict_get E d = (dict_get E c)(k \<mapsto> v)"
  unfolding link_laws_def by blast

lemma link_set:
  "link_laws E p \<Longrightarrow> dpl_setattr E p c w = ((DPL_SUCCESS, ()), w') \<Longrightarrow>
    \<exists>d w''. dpl_getattr E p w' = ((DPL_SUCCESS, Some d), w'') \<and> dict_get E d = dict_get E c"
  unfolding link_laws_def by blast

lemma dict_at_world [simp]: "dict_at d (s\<lparr>world := w\<rparr>) = dict_at d s"
  by (simp add: dict_at_def)

lemma setattr_success:
  assumes "dfs_setattr_timeout E p d s = Ret (DPL_SUCCESS, u, t)" "dict_at d s = Ret c"
  shows "\<exists>w w'. dpl_setattr E p c w = ((DPL_SUCCESS, ()), w') \<and> t = s\<lparr>world := w'\<rparr>"
proof -
  have "okay (dfs_setattr_timeout E p d s) (\<lambda>(rc, u, t). rc = DPL_SUCCESS \<longrightarrow>
    (\<exists>w w'. dpl_setattr E p c w = ((DPL_SUCCESS, ()), w') \<and> t = s\<lparr>world := w'\<rparr>))"
    unfolding dfs_setattr_timeout_def
  proof (rule okay_retry [where P = "\<lambda>_ t. \<exists>w. t = s\<lparr>world := w\<rparr>"])
    show "\<exists>w. s = s\<lparr>world := w\<rparr>" by (rule exI [of _ "world s"]) simp
    fix x :: unit and t
    assume "\<exists>w. t = s\<lparr>world := w\<rparr>"
    then obtain w where t: "t = s\<lparr>world := w\<rparr>" by blast
    obtain rc w' where r: "dpl_setattr E p c w = ((rc, ()), w')" by (cases "dpl_setattr E p c w") auto
    show "okay (setattr_attempt E p d x t) (\<lambda>(rc, y, t). if retry_setattr rc then \<exists>w. t = s\<lparr>world := w\<rparr>
      else (case (rc, y, t) of (rc, u, t) \<Rightarrow> rc = DPL_SUCCESS \<longrightarrow>
        (\<exists>w w'. dpl_setattr E p c w = ((DPL_SUCCESS, ()), w') \<and> t = s\<lparr>world := w'\<rparr>)))"
      using r assms(2) by (auto simp: t setattr_attempt_def plain_def call_def)
  qed (auto simp: retry_setattr_def)
  then show ?thesis using assms(1) by simp
qed

lemma getattr_first:
  assumes "dpl_getattr E p (world s) = ((DPL_SUCCESS, Some d), w)"
  shows "dfs_getattr_timeout E p NULL s =
    Ret (DPL_SUCCESS, nxt s, s\<lparr>world := w, dicts := (dicts s)(nxt s \<mapsto> d), nxt := Suc (nxt s)\<rparr>)"
  using assms by (intro getattr_r.success) (simp add: plain_dict_def call_def dict_receive_def dict_store_def)

lemma readlink_target:
  assumes "dpl_getattr E p (world s) = ((DPL_SUCCESS, Some d), w)" "dict_get E d ''symlink'' = Some dest"
    and "nxt s \<noteq> NULL" "length dest \<le> length buf"
  shows "\<exists>t. dfs_readlink E p buf s = Ret (0, dest @ drop (length dest) buf, t)"
  using assms
  by (simp add: dfs_readlink_def getattr_first [OF assms(1)] dict_at_def dict_free_opt_def dpl_dict_free_def)

lemma dict_set_rule:
  assumes "heap_inv s" "d \<in> v_loose (view s)"
  shows "\<exists>t. dict_set d c s = Ret t \<and> heap_inv t \<and> view t = view s \<and> dict_at d t = Ret c \<and> world t = world s"
proof -
  have d: "d \<noteq> NULL" "d \<in> dom (dicts s)" using assms loose_not_null by (auto simp: view_simps)
  then show ?thesis
    using dicts_upd_rule [OF assms(1), of d c] by (auto simp: dict_set_def dict_at_def)
qed

definition linked :: "('w, 'd) env \<Rightarrow> string \<Rightarrow> string \<Rightarrow> 'w \<Rightarrow> bool" where
  "linked E p target w \<longleftrightarrow> (\<exists>m w'. dpl_getattr E p w = ((DPL_SUCCESS, Some m), w') \<and>
     dict_get E m ''symlink'' = Some target \<and>
     dict_get E m ''size'' = Some (tmpstr_fit (dec (length target))))"

lemma okay_symlink_stored:
  assumes "link_laws E new" "heap_inv s" "d \<in> v_loose (view s)"
    and "\<And>r s'. heap_inv s' \<Longrightarrow> view s' = view s \<Longrightarrow> (r = 0 \<Longrightarrow> linked E new opath (world s')) \<Longrightarrow> Q (r, s')"
  shows "okay (symlink_dict E new opath d s) Q"
proof -
  have "d \<noteq> NULL" "d \<in> dom (dicts s)" using assms(2,3) loose_not_null by (auto simp: view_simps)
  then obtain c0 where c0: "dict_at d s = Ret c0" by (auto simp: dict_at_def)
  obtain r1 c1 w1 where a1: "dict_add E c0 ''symlink'' opath (world s) = ((r1, c1), w1)"
    by (metis surj_pair)
  obtain s1 where s1: "dict_set d c1 (s\<lparr>world := w1\<rparr>) = Ret s1" "heap_inv s1" "view s1 = view s"
      "dict_at d s1 = Ret c1"
    using dict_set_rule [of "s\<lparr>world := w1\<rparr>" d c1] assms(2,3) by auto
  let ?size = "tmpstr_fit (dec (length opath))"
  obtain r2 c2 w2 where a2: "dict_add E c1 ''size'' ?size (world s1) = ((r2, c2), w2)"
    by (metis surj_pair)
  obtain s2 where s2: "dict_set d c2 (s1\<lparr>world := w2\<rparr>) = Ret s2" "heap_inv s2" "view s2 = view s"
      "dict_at d s2 = Ret c2"
    using dict_set_rule [of "s1\<lparr>world := w2\<rparr>" d c2] s1(2,3) assms(3) by auto
  have got: "dict_get E c2 ''symlink'' = Some opath \<and> dict_get E c2 ''size'' = Some ?size"
    if "r1 = DPL_SUCCESS" "r2 = DPL_SUCCESS"
    using link_add [OF assms(1), of c0 _ _ _ c1] link_add [OF assms(1), of c1 _ _ _ c2] a1 a2 that by simp
  have "okay (dfs_setattr_timeout E new d s2) (\<lambda>(rc, _, t). Q (if rc \<noteq> DPL_SUCCESS then -1 else 0, t))"
    if "r1 = DPL_SUCCESS" "r2 = DPL_SUCCESS"
  proof (rule okay_mono_Ret [where P = "\<lambda>(rc, _, t). heap_inv t \<and> view t = view s"])
    show "okay (dfs_setattr_timeout E new d s2) (\<lambda>(rc, _, t). heap_inv t \<and> view t = view s)"
      using s2 assms(3) by (intro okay_setattr_timeout) auto
    fix x assume x: "dfs_setattr_timeout E new d s2 = Ret x" "case x of (rc, _, t) \<Rightarrow> heap_inv t \<and> view t = view s"
    obtain rc u t where xx: "x = (rc, u, t)" by (cases x)
    have "linked E new opath (world t)" if "rc = DPL_SUCCESS"
    proof -
      note rc = that
      obtain w w' where "dpl_setattr E new c2 w = ((DPL_SUCCESS, ()), w')" "t = s2\<lparr>world := w'\<rparr>"
        using setattr_success [of E new d s2 u t c2] x(1) xx s2(4) rc by auto
      then show ?thesis
        using link_set [OF assms(1)] got \<open>r1 = DPL_SUCCESS\<close> \<open>r2 = DPL_SUCCESS\<close>
        by (fastforce simp: linked_def)
    qed
    then show "case x of (rc, _, t) \<Rightarrow> Q (if rc \<noteq> DPL_SUCCESS then -1 else 0, t)"
      using x(2) by (auto simp: xx intro!: assms(4))
  qed
  then have "okay (dfs_setattr_timeout E new d s2) (\<lambda>x. (fst x \<noteq> DPL_SUCCESS \<longrightarrow> Q (-1, snd (snd x))) \<and>
      (fst x = DPL_SUCCESS \<longrightarrow> Q (0, snd (snd x))))" if "r1 = DPL_SUCCESS" "r2 = DPL_SUCCESS"
    using that by (auto elim!: okay_mono split: if_splits)
  then show ?thesis
    using s1(2,3) s2(2,3)
    by (auto simp: symlink_dict_def c0 call_def a1 a2 s1(1) s2(1) split_beta intro!: assms(4))
qed

lemma okay_dict_free_world:
  assumes "heap_inv s" "d \<in> v_loose (view s)"
    and "\<And>s'. heap_inv s' \<Longrightarrow> view s' = v_disown d (view s) \<Longrightarrow> world s' = world s \<Longrightarrow> Q s'"
  shows "okay (dpl_dict_free d s) Q"
proof (rule okay_mono_Ret)
  show "okay (dpl_dict_free d s) (\<lambda>t. heap_inv t \<and> view t = v_disown d (view s))"
    using assms(1,2) by (intro okay_dict_free) simp_all
qed (auto simp: dpl_dict_free_def split: if_splits option.splits intro!: assms(3))

text \<open>Only success has the code 0.\<close>

definition codes_ok :: "('w, 'd) env \<Rightarrow> bool" where
  "codes_ok E \<longleftrightarrow> (\<forall>rc. status_code E rc = 0 \<longrightarrow> rc = DPL_SUCCESS)"

lemma okay_dfs_symlink [okay_rule]:
  assumes "heap_inv s" "root_dir (cfg s) = CLit root \<or> root_dir (cfg s) = CHeap root"
    and "strstr old root \<noteq> Some root" "link_laws E new" "codes_ok E"
    and "\<And>r s'. heap_inv s' \<Longrightarrow> view s' = view s \<Longrightarrow>
      (r = 0 \<Longrightarrow> \<exists>t. symlink_target (cfg s) old = Ret t \<and> linked E new t (world s')) \<Longrightarrow> Q (r, s')"
  shows "okay (dfs_symlink E old new s) Q"
proof -
  obtain t where t: "symlink_target (cfg s) old = Ret t"
    using okay_symlink_target [OF assms(2,3), of "\<lambda>_. True"] assms(2)
    by (cases "symlink_target (cfg s) old") (auto simp: symlink_target_def split: option.splits if_splits)
  have fin: "Q (r, s')" if "heap_inv s'" "view s' = view s" "r = 0 \<Longrightarrow> linked E new t (world s')" for r s'
    using that t by (intro assms(6)) auto
  have nz: "status_code E rc \<noteq> 0" if "rc \<noteq> DPL_SUCCESS" for rc
    using assms(5) that by (auto simp: codes_ok_def)
  show ?thesis
    unfolding dfs_symlink_def
    using assms(1)
    by (auto intro!: okay_world_timeouts okay_dict_new okay_symlink_stored [OF assms(4)] okay_dict_free_world
        fin simp: t nz)
qed

text \<open>
  C32: a link that \<^verbatim>\<open>dfs_symlink\<close> reported as made reads back as the target it stored: the
  old path without the mount point. \<^verbatim>\<open>dfs_readlink\<close> copies it to the front of the buffer, and
  writes no NUL behind it.
\<close>

theorem symlink_roundtrip:
  assumes "heap_inv s" "root_dir (cfg s) = CHeap root" "strstr old root \<noteq> Some root"
    and "link_laws E new" "codes_ok E" "length old \<le> length buf"
  shows "okay (dfs_symlink E old new s) (\<lambda>(r, t). heap_inv t \<and> view t = view s \<and>
    (r = 0 \<longrightarrow> (\<exists>target u. symlink_target (cfg s) old = Ret target \<and>
       dfs_readlink E new buf t = Ret (0, target @ drop (length target) buf, u))))"
proof -
  have len: "length t \<le> length buf" if "symlink_target (cfg s) old = Ret t" for t
    using that assms(2,6) strstr_Some [of old root]
    by (fastforce simp: symlink_target_def split: option.splits if_splits)
  have nz: "nxt t \<noteq> NULL" if "heap_inv t" for t :: "('a, 'b) state"
    using that by (auto simp: heap_inv_def heap_ok_def)
  have "\<exists>u. dfs_readlink E new buf t = Ret (0, target @ drop (length target) buf, u)"
    if "heap_inv t" "symlink_target (cfg s) old = Ret target" "linked E new target (world t)" for t target
    using that readlink_target [of E new t] len [OF that(2)] nz [OF that(1)]
    by (fastforce simp: linked_def)
  then show ?thesis
    using assms(1-5) by (intro okay_dfs_symlink) auto
qed

definition sample_link :: "(nat, sample_dict) env" where
  "sample_link = (sample DPL_SUCCESS)\<lparr>
     dpl_setattr := \<lambda>p d w. ((if d = [(''symlink'', ''a''), (''size'', ''1'')] then DPL_SUCCESS else DPL_FAILURE, ()), w),
     dpl_getattr := \<lambda>p w. ((DPL_SUCCESS, Some [(''symlink'', ''a''), (''size'', ''1'')]), w)\<rparr>"

definition sample_mounted :: "(nat, sample_dict) state" where
  "sample_mounted = sample_state\<lparr>cfg := sample_conf\<lparr>root_dir := CHeap ''/mnt''\<rparr>\<rparr>"

lemma sample_mounted_inv [simp]: "heap_inv sample_mounted"
  by (simp add: heap_inv_def table_ok_def heap_ok_def metadata_ok_def md_of_def path_of_def
      sample_mounted_def sample_state_def)

lemma sample_mounted_root [simp]: "root_dir (cfg sample_mounted) = CHeap ''/mnt''"
  by (simp add: sample_mounted_def)

lemma sample_link_laws [simp]: "link_laws sample_link p" "codes_ok sample_link"
  by (auto simp: link_laws_def codes_ok_def sample_link_def split: dpl_status.splits if_splits)

theorem symlink_roundtrip_witness:
  "\<exists>t u. dfs_symlink sample_link ''/mnt/a'' ''/l'' sample_mounted = Ret (0, t) \<and>
     dfs_readlink sample_link ''/l'' ''........'' t = Ret (0, ''a.......'', u)"
proof -
  have target: "symlink_target (cfg sample_mounted) ''/mnt/a'' = Ret ''a''"
    by (simp add: symlink_target_def)
  have "okay (dfs_symlink sample_link ''/mnt/a'' ''/l'' sample_mounted) (\<lambda>(r, t). heap_inv t \<and>
      view t = view sample_mounted \<and>
      (r = 0 \<longrightarrow> (\<exists>target u. symlink_target (cfg sample_mounted) ''/mnt/a'' = Ret target \<and>
       dfs_readlink sample_link ''/l'' ''........'' t = Ret (0, target @ drop (length target) ''........'', u))))"
    by (rule symlink_roundtrip [where root = "''/mnt''"]) simp_all
  moreover have "\<exists>t. dfs_symlink sample_link ''/mnt/a'' ''/l'' sample_mounted = Ret (0, t)"
  proof -
    have mk: "dfs_mknod_timeout sample_link ''/l'' sample_mounted = Ret (DPL_SUCCESS, (), sample_mounted)"
      by (intro mknod_r.success) (simp add: plain_def call_def sample_link_def sample_mounted_def sample_state_def)
    have set: "dfs_setattr_timeout sample_link ''/l'' d s = Ret (DPL_SUCCESS, (), s)"
      if "dict_at d s = Ret [(''symlink'', ''a''), (''size'', ''1'')]" for d s
      using that by (intro setattr_r.success) (simp add: setattr_attempt_def plain_def call_def sample_link_def)
    have size: "tmpstr_fit (dec (Suc 0)) = ''1''"
      by (subst dec.simps) (simp add: digit_def tmpstr_fit_def TMPSTR_MAX_def char_of_def bit_0)
    have sel: "malloc_ok sample_link = (\<lambda>w. (True, w))" "dict_new sample_link = []"
      "dict_add sample_link = (\<lambda>d k v w. ((DPL_SUCCESS, AList.update k v d), w))"
      by (simp_all add: sample_link_def)
    let ?m = "[(''symlink'', ''a''), (''size'', ''1'')]"
    have dict: "symlink_dict sample_link ''/l'' ''a'' d s = Ret (0, s\<lparr>dicts := (dicts s)(d \<mapsto> ?m)\<rparr>)"
      if "dict_at d s = Ret []" for d s
    proof -
      have "d \<noteq> NULL" using that by (auto simp: dict_at_def split: if_splits)
      then show ?thesis
        by (simp add: symlink_dict_def that sel call_def dict_set_def size) (simp add: dict_at_def set)
    qed
    have "dfs_symlink sample_link ''/mnt/a'' ''/l'' sample_mounted = Ret (0, sample_mounted\<lparr>nxt := 2\<rparr>)"
      by (simp add: dfs_symlink_def mk target sel dpl_dict_new_def dict_store_def call_def)
        (simp add: dict dict_at_def dpl_dict_free_def sample_mounted_def sample_state_def)
    then show ?thesis by blast
  qed
  ultimately show ?thesis by (fastforce simp: target)
qed

end
