(* ===== verification/Create.thy ===== *)
theory Create
  imports Dirops Regex
begin

text \<open>
  \<^verbatim>\<open>src/create.c\<close>: \<^verbatim>\<open>dfs_create\<close> opens the file, stores its attributes as the
  metadata of its entry and makes the remote object. The metadata it passes to
  \<^verbatim>\<open>pentry_set_metadata\<close> is the entry's own when there is one, and this call frees it before it
  reads it. So the handler is safe for a path whose entry has no metadata yet, and not otherwise; both are
  proved.
\<close>

section \<open>The handler\<close>

text \<open>From the label \<^verbatim>\<open>err\<close> on; FUSE passes \<^verbatim>\<open>info\<close> with a zeroed \<^verbatim>\<open>fh\<close>.\<close>

definition create_end ::
  "addr \<Rightarrow> int \<Rightarrow> addr \<Rightarrow> ('w, 'd) state \<Rightarrow> (int \<times> addr \<times> ('w, 'd) state) outcome"
where
  "create_end meta ret fh s = obind (dict_free_opt meta s) (\<lambda>s. Ret (ret, fh, s))"

definition create_mknod ::
  "('w, 'd) env \<Rightarrow> string \<Rightarrow> bool \<Rightarrow> addr \<Rightarrow> addr \<Rightarrow> ('w, 'd) state \<Rightarrow>
    (int \<times> addr \<times> ('w, 'd) state) outcome"
where
  "create_mknod E pth excl pe meta s =
     (if excl then create_end meta 0 pe s
      else obind (dfs_mknod_timeout E pth s) (\<lambda>(rc, _, s).
        create_end meta (if rc \<noteq> DPL_SUCCESS then -1 else 0) pe s))"

definition create_metadata ::
  "('w, 'd) env \<Rightarrow> string \<Rightarrow> u32 \<Rightarrow> bool \<Rightarrow> addr \<Rightarrow> stat \<Rightarrow> addr \<Rightarrow> ('w, 'd) state \<Rightarrow>
    (int \<times> addr \<times> ('w, 'd) state) outcome"
where
  "create_metadata E pth mode excl pe st meta s =
     obind (fill_metadata_from_stat E meta st s) (\<lambda>s.
     obind (assign_meta_to_dict E meta ''mode'' (ucast mode) s) (\<lambda>s.
     obind (pentry_set_metadata E pe meta s) (\<lambda>(_, s).
     create_mknod E pth excl pe meta s)))"

definition create_entry ::
  "('w, 'd) env \<Rightarrow> string \<Rightarrow> u32 \<Rightarrow> bool \<Rightarrow> addr \<Rightarrow> ('w, 'd) state \<Rightarrow>
    (int \<times> addr \<times> ('w, 'd) state) outcome"
where
  "create_entry E pth mode excl pe s =
     obind (pentry_set_exclude pe excl s) (\<lambda>s.
     obind (pentry_get_fd pe s) (\<lambda>f.
     if f = -1 then create_end NULL (-1) pe s
     else call (s_fstat E f) s (\<lambda>r s.
       case r of
         Inl e \<Rightarrow> create_end NULL (- e) pe s
       | Inr st \<Rightarrow> call (s_fchmod E f mode) s (\<lambda>_ s.
           obind (pentry_get_metadata pe s) (\<lambda>meta.
           if meta = NULL then dpl_dict_new E s (create_metadata E pth mode excl pe st)
           else create_metadata E pth mode excl pe st meta s)))))"

definition dfs_create ::
  "('w, 'd) env \<Rightarrow> string \<Rightarrow> u32 \<Rightarrow> u32 \<Rightarrow> ('w, 'd) state \<Rightarrow> (int \<times> addr \<times> ('w, 'd) state) outcome"
where
  "dfs_create E pth mode flags s =
     obind (log_flags flags s) (\<lambda>_.
     if mode AND S_IFMT \<noteq> S_IFREG then create_end NULL (-1) NULL s
     else let excl = re_matcher E (regex (cfg s)) pth in
       obind (if excl then Ret (DPL_SUCCESS, s)
              else obind (dfs_namei_timeout E pth (dpl_cwd E) True (DPL_FTYPE_OTHER, junk_ino E) s)
                     (\<lambda>(rc, _, s). Ret (rc, s))) (\<lambda>(rc, s).
       if rc \<noteq> DPL_SUCCESS \<and> rc \<noteq> DPL_ENOENT then create_end NULL (-1) NULL s
       else obind (dfs_open E pth flags s) (\<lambda>(_, pe, s).
         if pe = NULL then create_end NULL (-1) NULL s
         else create_entry E pth mode excl pe s)))"

section \<open>Opening for creation leaves the metadata alone\<close>

definition same_md :: "('w, 'd) state \<Rightarrow> ('w, 'd) state \<Rightarrow> bool" where
  "same_md s t \<longleftrightarrow> md_of t = md_of s \<and> hash t = hash s"

lemma same_md_world [simp]: "same_md s (t\<lparr>world := w\<rparr>) = same_md s t"
  by (simp add: same_md_def)

lemma keeps_pe_upd:
  assumes "\<And>p. metadata (f p) = metadata p" "same_md s t" "\<And>t'. same_md s t' \<Longrightarrow> Q t'"
  shows "keeps (pe_upd a f t) Q"
proof -
  have "same_md s (t\<lparr>pes := (pes t)(a \<mapsto> f p)\<rparr>)" if "pes t a = Some p" for p
    using assms(1) [of p] assms(2) that fields_pe_upd(1) [OF that, of "f p"] by (simp add: same_md_def)
  then show ?thesis
    using assms(3) by (auto simp: pe_upd_def pe_at_def split: option.split)
qed

lemma keeps_accessors:
  assumes "same_md s t"
  shows "(\<And>t'. same_md s t' \<Longrightarrow> Q t') \<Longrightarrow> keeps (pentry_set_fd a f t) Q"
    and "(\<And>t'. same_md s t' \<Longrightarrow> Q t') \<Longrightarrow> keeps (pentry_set_flag a fl t) Q"
    and "(\<And>t'. same_md s t' \<Longrightarrow> Q t') \<Longrightarrow> keeps (pentry_set_placeholder a ph t) Q"
    and "(\<And>t'. same_md s t' \<Longrightarrow> Q t') \<Longrightarrow> keeps (pentry_inc_refcount a t) Q"
    and "(\<And>t'. same_md s t' \<Longrightarrow> Q t') \<Longrightarrow> keeps (pentry_dec_refcount a t) Q"
    and "(\<And>t'. same_md s t' \<Longrightarrow> Q t') \<Longrightarrow> keeps (pentry_set_path E a n t) Q"
    and "(\<And>t'. same_md s t' \<Longrightarrow> Q t') \<Longrightarrow> keeps (pentry_set_exclude a x t) Q"
    and "(\<And>r t'. same_md s t' \<Longrightarrow> R (r, t')) \<Longrightarrow> keeps (pentry_lock E a t) R"
  using assms
  unfolding pentry_set_exclude_def pentry_set_fd_def pentry_set_flag_def pentry_set_placeholder_def pentry_inc_refcount_def
    pentry_dec_refcount_def pentry_set_path_def pentry_lock_def pentry_gen_lock_def
  by (auto simp: pe_at_def intro!: keeps_pe_upd [where s = s] keeps_call split: option.split)

lemma keeps_world:
  "(\<And>r w. Q (r, s\<lparr>world := w\<rparr>)) \<Longrightarrow> keeps (build_cache_tree E p s) Q"
proof -
  have "\<exists>w. mkdir_loop E d cs s = s\<lparr>world := w\<rparr>" for d cs and s :: "('a, 'b) state"
    by (rule mkdir_loop_world)
  assume q: "\<And>r w. Q (r, s\<lparr>world := w\<rparr>)"
  have "okay (build_cache_tree E p s) Q" by (rule okay_build_cache_tree) (rule q)
  then show ?thesis by (cases "build_cache_tree E p s") simp_all
qed

lemma keeps_open_creat:
  assumes "same_md s t" "\<And>r t'. same_md s t' \<Longrightarrow> Q (r, t')"
  shows "keeps (open_creat E p pe flags t) Q"
  unfolding open_creat_def
  using assms
  by (auto intro!: keeps_world keeps_call keeps_accessors [where s = s] split: option.split sum.split)

text \<open>A new entry has no metadata, so allocating it and putting it into the table changes none.\<close>

lemma pentry_inits_world: "pentry_inits n E s = (ok, t) \<Longrightarrow> \<exists>w. t = s\<lparr>world := w\<rparr>"
proof (induction n arbitrary: s)
  case 0
  then have "t = s\<lparr>world := world s\<rparr>" by simp
  then show ?case by blast
next
  case (Suc n)
  obtain rc w where w: "init_rc E (world s) = (rc, w)" by (cases "init_rc E (world s)")
  show ?case
    using Suc.prems Suc.IH [of "s\<lparr>world := w\<rparr>"] by (auto simp: call_def w split: if_splits)
qed

lemma keeps_pentry_new:
  assumes "heap_inv s" "\<And>t. same_md s t \<Longrightarrow> Q (NULL, t)"
    and "\<And>a t. same_md s t \<Longrightarrow> a \<noteq> NULL \<Longrightarrow> md_of s a = NULL \<Longrightarrow> Q (a, t)"
  shows "keeps (pentry_new E s) Q"
proof -
  have nx: "md_of s (nxt s) = NULL" "nxt s \<noteq> NULL"
    using nxt_fresh [OF assms(1)] by (auto simp: md_of_def domIff)
  have new: "same_md s (s\<lparr>world := w, pes := (pes s)(nxt s \<mapsto> q), nxt := n\<rparr>)" if "metadata q = NULL" for w q n
    using nx that by (auto simp: same_md_def md_of_def fun_eq_iff)
  have fin: "Q (nxt s, s\<lparr>world := w, pes := (pes s)(nxt s \<mapsto> q), nxt := n\<rparr>)" if "metadata q = NULL" for w q n
    by (rule assms(3) [OF new [OF that]]) (simp_all add: nx)
  show ?thesis
    unfolding pentry_new_def
  proof (rule keeps_call)
    fix ok w
    obtain ok' t where i: "pentry_inits 5 E (s\<lparr>world := w\<rparr>) = (ok', t)" by (cases "pentry_inits 5 E (s\<lparr>world := w\<rparr>)")
    obtain w' where "t = s\<lparr>world := w'\<rparr>" using pentry_inits_world [OF i] by auto
    then show "keeps (if \<not> ok then Ret (NULL, s\<lparr>world := w\<rparr>)
      else case pentry_inits 5 E (s\<lparr>world := w\<rparr>) of (ok, s) \<Rightarrow>
        if \<not> ok then Stuck UninitUse
        else let pe = (junk E (world s))\<lparr>refcount := 0, mutex := False, md_mutex := False,
               metadata := NULL, ondisk := FILE_UNSET, fd := -1, dirent := [], path := None,
               exclude := False, flag := FLAG_DIRTY\<rparr>
          in Ret (nxt s, s\<lparr>pes := (pes s)(nxt s \<mapsto> pe), nxt := Suc (nxt s)\<rparr>)) Q"
      using assms(2) [of "s\<lparr>world := w\<rparr>"] fin by (simp add: i Let_def same_md_def)
  qed
qed

lemma keeps_pentry_free:
  assumes "md_of t a = NULL" "\<And>t'. md_of t' = md_of t \<Longrightarrow> Q t'"
  shows "keeps (pentry_free E a t) Q"
proof -
  have "md_of (t\<lparr>world := w, pes := (pes t)(a := None)\<rparr>) = md_of t" for w
    using assms(1) by (auto simp: md_of_def fun_eq_iff)
  moreover have "md_of (t\<lparr>pes := (pes t)(a := None)\<rparr>) = md_of t"
    using assms(1) by (auto simp: md_of_def fun_eq_iff)
  ultimately show ?thesis
    using assms by (auto simp: pentry_free_def pe_at_def md_of_def intro!: keeps_call assms(2) split: option.splits)
qed

lemma keeps_populate_hash:
  assumes "heap_inv s" "map_of (hash s) p = None" "\<And>r a t. md_of t = md_of s \<Longrightarrow> Q (r, a, t)"
  shows "keeps (populate_hash E p s) Q"
proof -
  have upd: "md_of (t\<lparr>hash := h\<rparr>) = md_of t" for t :: "('a, 'b) state" and h
    by (simp add: md_of_def fun_eq_iff)
  show ?thesis
    unfolding populate_hash_def
    using assms
    by (auto intro!: keeps_pentry_new keeps_accessors [where s = s] keeps_call keeps_pentry_free
        simp: same_md_def g_hash_table_insert_def upd)
qed

lemma keeps_dfs_open:
  assumes "heap_inv s" "get_mode_from_flags flags = MODE_CREAT" "\<And>r a t. md_of t = md_of s \<Longrightarrow> Q (r, a, t)"
  shows "keeps (dfs_open E p flags s) Q"
proof -
  have entry: "keeps (open_entry E p flags pe t) Q" if "md_of t = md_of s" for pe t
    unfolding open_entry_def assms(2) log_fd_def pentry_get_fd_def
    using that
    by (auto intro!: keeps_accessors [where s = t] keeps_open_creat [where s = t] assms(3)
        simp: same_md_def pe_at_def split: option.split)
  have err: "keeps (log_fd pe t) (\<lambda>_. Q (r, a, t))" if "md_of t = md_of s" for pe t r a
    using that by (cases "log_fd pe t") (auto intro: assms(3))
  show ?thesis
    using assms(1)
  proof (cases rule: lookup_cases [where k = p])
    case 1
    then have "map_of (hash s) p = None" by (simp add: view_simps)
    then show ?thesis
      using assms(1) 1
      by (cases "log_flags flags s") (auto simp: dfs_open_def open_lookup_def intro!: keeps_populate_hash entry err)
  next
    case (2 a)
    then show ?thesis
      by (cases "log_flags flags s")
        (auto simp: dfs_open_def open_lookup_def pentry_get_fd_def pentry_get_placeholder_def pe_at_def
          intro!: entry err split: option.split)
  qed
qed

section \<open>Rules\<close>

lemma okay_create_end [okay_rule]:
  assumes "heap_inv s" "md = NULL \<and> view s = v \<or> md \<noteq> NULL \<and> md \<notin> v_loose v \<and> view s = v_own md v"
    and "\<And>s'. heap_inv s' \<Longrightarrow> view s' = v \<Longrightarrow> Q (r, fh, s')"
  shows "okay (create_end md r fh s) Q"
  unfolding create_end_def using assms by (auto intro!: okay_dict_free_opt)

lemma okay_create_metadata [okay_rule]:
  assumes "heap_inv s" "pe \<in> v_ent v" "md \<noteq> NULL" "md \<notin> v_loose v" "view s = v_own md v"
    and "\<And>r s'. heap_inv s' \<Longrightarrow> view s' = v \<Longrightarrow> Q (r, pe, s')"
  shows "okay (create_metadata E p mode excl pe st md s) Q"
  unfolding create_metadata_def create_mknod_def
  using assms
  by (auto intro!: okay_fill_metadata okay_assign_meta okay_set_metadata okay_world_timeouts
      okay_create_end [where v = v])

lemma okay_set_exclude_md:
  assumes "heap_inv s" "a \<in> v_ent (view s)" "\<And>s'. heap_inv s' \<Longrightarrow> view s' = view s \<Longrightarrow> md_of s' = md_of s \<Longrightarrow> Q s'"
  shows "okay (pentry_set_exclude a x s) Q"
proof (rule okay_keeps)
  show "okay (pentry_set_exclude a x s) (\<lambda>t. heap_inv t \<and> view t = view s)"
    using assms(1,2) by (intro okay_setters) simp_all
  show "keeps (pentry_set_exclude a x s) (same_md s)"
    by (rule keeps_accessors [where s = s]) (simp_all add: same_md_def)
qed (auto simp: same_md_def intro: assms(3))

lemma okay_create_entry [okay_rule]:
  assumes "heap_inv s" "pe \<in> v_ent (view s)" "md_of s pe = NULL" "allocs_ok E"
    and "\<And>r s'. heap_inv s' \<Longrightarrow> view s' = view s \<Longrightarrow> Q (r, pe, s')"
  shows "okay (create_entry E p mode excl pe s) Q"
proof -
  have none: "metadata q = NULL" if "md_of t = md_of s" "pes t pe = Some q" for t :: "('a, 'b) state" and q
    using that assms(3) by (metis md_of_def option.simps(5))
  show ?thesis
    unfolding create_entry_def
    using assms(1,2)
    by (auto intro!: okay_set_exclude_md okay_getters okay_call okay_create_end [where v = "view s"]
        okay_dict_new_ok [OF _ assms(4)] okay_create_metadata [where v = "view s"] assms(5)
        simp: none split: sum.split)
qed

definition create_post :: "('w, 'd) env \<Rightarrow> string \<Rightarrow> u32 \<Rightarrow> view \<Rightarrow> int \<Rightarrow> addr \<Rightarrow> view \<Rightarrow> bool" where
  "create_post E p flags v r fh w \<longleftrightarrow>
     (if fh = NULL then r = -1 \<and> w = v else \<exists>ret. open_post E p flags v ret fh w)"

lemma open_post_ent:
  assumes "heap_inv s" "open_post E p flags (view s) r a v" "a \<noteq> NULL" shows "a \<in> v_ent v"
proof -
  obtain v1 where v1: "entry_for p a (view s) v1" and "v = v1 \<or> grown (v_setref a (Suc (v_ref v1 a)) v1) v \<or>
      grown (v_setlock a True (v_setref a (Suc (v_ref v1 a)) v1)) v"
    using assms(2,3) unfolding open_post_def by blast
  then have "v_ent v = v_ent v1" using grown_sel(2) by fastforce
  moreover have "a \<in> v_ent v1" using v1 heap_inv_tbl_ent [OF assms(1)] by (auto simp: entry_for_def)
  ultimately show ?thesis by simp
qed

lemma okay_dfs_open_md:
  assumes "heap_inv s" "remote_ok E" "conf_ready (v_cfg (view s))" "get_mode_from_flags flags = MODE_CREAT"
    and "\<And>r fh s'. heap_inv s' \<Longrightarrow> md_of s' = md_of s \<Longrightarrow> open_post E p flags (view s) r fh (view s') \<Longrightarrow> Q (r, fh, s')"
  shows "okay (dfs_open E p flags s) Q"
proof (rule okay_keeps)
  show "okay (dfs_open E p flags s) (\<lambda>(r, fh, t). heap_inv t \<and> open_post E p flags (view s) r fh (view t))"
    using assms(1-3) by (intro okay_dfs_open) auto
  show "keeps (dfs_open E p flags s) (\<lambda>(r, fh, t). md_of t = md_of s)"
    using assms(1,4) by (intro keeps_dfs_open) auto
qed (auto intro: assms(5))

lemma create_end_none [simp]: "create_end NULL r fh s = Ret (r, fh, s)"
  by (simp add: create_end_def dict_free_opt_def)

lemma okay_create_opened:
  assumes "heap_inv t" "open_post E p flags v ret fh (view t)" "md_of t fh = NULL" "allocs_ok E"
    and "fh \<noteq> NULL \<Longrightarrow> fh \<in> v_ent (view t)"
    and "\<And>r s'. heap_inv s' \<Longrightarrow> create_post E p flags v r fh (view s') \<Longrightarrow> Q (r, fh, s')"
  shows "okay (if fh = NULL then create_end NULL (-1) NULL t else create_entry E p mode excl fh t) Q"
proof (cases "fh = NULL")
  case True
  then have "view t = v" using assms(2) by (auto simp: open_post_def)
  then show ?thesis using True assms(1) assms(6) [of t "-1"] by (simp add: create_post_def)
next
  case False
  then show ?thesis
    using assms(1-5)
    by (auto intro!: okay_create_entry assms(6) simp: create_post_def)
qed

lemma okay_dfs_create [okay_rule]:
  assumes "heap_inv s" "remote_ok E" "conf_ready (v_cfg (view s))" "allocs_ok E"
    and "get_mode_from_flags flags = MODE_CREAT" "\<And>a. v_tbl (view s) p = Some a \<Longrightarrow> md_of s a = NULL"
    and "\<And>r fh s'. heap_inv s' \<Longrightarrow> create_post E p flags (view s) r fh (view s') \<Longrightarrow> Q (r, fh, s')"
  shows "okay (dfs_create E p mode flags s) Q"
proof -
  have early: "Q (-1, NULL, t)" if "heap_inv t" "view t = view s" for t
    using that by (intro assms(7)) (simp_all add: create_post_def)
  have none: "md_of s a = NULL" if "open_post E p flags (view s) r a w" for a r w
  proof -
    have "a = NULL \<or> v_tbl (view s) p = Some a \<or> a \<notin> v_ent (view s)"
      using that by (auto simp: open_post_def entry_for_def)
    moreover have "md_of s NULL = NULL"
      using assms(1) by (auto simp: md_of_def heap_inv_def heap_ok_def split: option.split)
    ultimately show ?thesis using assms(6) by (auto simp: md_of_def view_simps domIff)
  qed
  have opened: "okay (dfs_open E p flags t) (\<lambda>x. okay (case x of (_, pe, s) \<Rightarrow>
        if pe = NULL then create_end NULL (-1) NULL s else create_entry E p mode excl pe s) Q)"
    if t: "t = s\<lparr>world := w\<rparr>" for t w excl
    unfolding t
    using assms(1-3) open_post_ent [OF assms(1)]
    by (auto intro!: okay_dfs_open_md [OF _ _ _ assms(5)] okay_create_opened assms(4,7) simp: none
        simp del: create_end_none split del: if_split)
  show ?thesis
    unfolding dfs_create_def Let_def
    using assms(1,3) opened [of s "world s"] opened
    by (auto intro!: okay_log okay_namei_timeout early)
qed

section \<open>Properties\<close>


lemma sample_remote_allocs [simp]: "allocs_ok (sample_remote rc)"
  by (simp add: allocs_ok_def sample_remote_def)

lemma sample_open_sel [simp]:
  "cfg sample_open = sample_conf" "hash sample_open = [(''/f'', 1)]" "world sample_open = 0"
  "cfg (sample_open\<lparr>pes := q\<rparr>) = sample_conf"
  by (simp_all add: sample_open_def)


lemma fill_metadata_Ret:
  assumes "dict_laws E" "dicts s d = Some c" "d \<noteq> NULL"
  obtains c' w where "fill_metadata_from_stat E d st s = Ret (s\<lparr>dicts := (dicts s)(d \<mapsto> c'), world := w\<rparr>)"
proof -
  let ?l = "[(''mode'', ucast (st_mode st)), (''size'', st_size st), (''uid'', ucast (st_uid st)),
    (''gid'', ucast (st_gid st)), (''atime'', st_atime st), (''mtime'', st_mtime st), (''ctime'', st_ctime st)]"
  have "distinct (map fst ?l)" by simp
  from assign_all_Ret [OF assms this] show thesis
    unfolding fill_metadata_all by (elim exE conjE) (rule that [unfolded fill_metadata_all])
qed

lemma set_own_metadata:
  assumes "heap_inv s" "pes s a = Some p" "a \<noteq> NULL" "metadata p \<noteq> NULL" "allocs_ok E"
  shows "pentry_set_metadata E a (metadata p) s = Stuck UseAfterFree"
proof -
  have md: "md_of s a = metadata p" using assms(2) by (simp add: md_of_def)
  then have "metadata p \<in> dom (dicts s)" using assms(1,4) unfolding heap_inv_def metadata_ok_def by metis
  moreover have "nxt s \<noteq> metadata p" using calculation nxt_fresh(1) [OF assms(1)] by auto
  moreover obtain w where "malloc_ok E (world s) = (True, w)"
    using assms(5) unfolding allocs_ok_def by (metis prod.collapse)
  ultimately show ?thesis
    using assms(2-4) nxt_fresh(3) [OF assms(1)]
    by (auto simp: pentry_set_metadata_def pe_at_def dpl_dict_free_def dpl_dict_new_def call_def dict_store_def
        pe_upd_def dict_at_def)
qed

text \<open>
  C29: creating a file whose entry already has metadata, a file that was opened before for instance,
  passes the entry's own dictionary to \<^verbatim>\<open>pentry_set_metadata\<close>, which frees it and then copies from
  it.
\<close>

theorem create_existing_crash:
  assumes "heap_inv t" "pes t pe = Some q" "pe \<noteq> NULL" "metadata q \<noteq> NULL" "fd q \<noteq> -1"
    and "allocs_ok E" "dict_laws E" "\<And>w. \<exists>st v. s_fstat E (fd q) w = (Inr st, v)"
    and "\<not> log_debug s" "mode AND S_IFMT = S_IFREG" "\<not> re_matcher E (regex (cfg s)) p"
    and "dfs_open E p flags s0 = Ret (r, pe, t)"
    and "dfs_namei_timeout E p (dpl_cwd E) True (DPL_FTYPE_OTHER, junk_ino E) s = Ret (DPL_SUCCESS, x, s0)"
  shows "dfs_create E p mode flags s = Stuck UseAfterFree"
proof -
  let ?d = "metadata q"
  have md: "md_of t pe = ?d" using assms(2) by (simp add: md_of_def)
  then have "?d \<in> dom (dicts t)" using assms(1,4) unfolding heap_inv_def metadata_ok_def by metis
  then obtain c where c: "dicts t ?d = Some c" by blast
  obtain st v where st: "s_fstat E (fd q) (world t) = (Inr st, v)" using assms(8) by blast
  obtain u v' where ch: "s_fchmod E (fd q) mode v = (u, v')" by fastforce
  let ?q = "q\<lparr>exclude := False\<rparr>"
  let ?t = "t\<lparr>pes := (pes t)(pe \<mapsto> ?q), world := v'\<rparr>"
  have inv: "heap_inv (t\<lparr>pes := (pes t)(pe \<mapsto> ?q)\<rparr>)"
    using assms(1,2) by (intro pe_upd_heap_inv) auto
  have dt: "dicts ?t ?d = Some c" using c by simp
  obtain v1 where f: "fill_metadata_from_stat E ?d st ?t = Ret v1" and v1: "\<exists>c1 w1. v1 = ?t\<lparr>dicts := (dicts ?t)(?d \<mapsto> c1), world := w1\<rparr>"
    using fill_metadata_Ret [OF assms(7) dt assms(4)] by blast
  then obtain c1 where c1: "dicts v1 ?d = Some c1" by auto
  obtain c2 w2 where a: "assign_meta_to_dict E ?d ''mode'' (ucast mode) v1 = Ret (v1\<lparr>dicts := (dicts v1)(?d \<mapsto> c2), world := w2\<rparr>)"
    using assign_meta_Ret [OF assms(7) c1 assms(4)] by blast
  let ?u = "v1\<lparr>dicts := (dicts v1)(?d \<mapsto> c2), world := w2\<rparr>"
  have u: "?u = (t\<lparr>pes := (pes t)(pe \<mapsto> ?q)\<rparr>)\<lparr>dicts := (dicts t)(?d \<mapsto> c2), world := w2\<rparr>"
    using v1 by auto
  have "heap_inv ?u"
    unfolding u using dicts_upd_rule(1) [OF inv, of ?d c2] c by (simp add: domIff)
  moreover have "pes ?u pe = Some ?q" using v1 by auto
  ultimately have "pentry_set_metadata E pe ?d ?u = Stuck UseAfterFree"
    using set_own_metadata [of ?u pe ?q] assms(3,4,6) by simp
  then show ?thesis
    using assms(2-5,9-13)
    by (simp add: dfs_create_def log_flags_def create_entry_def pentry_set_exclude_def pe_upd_def pe_at_def
        pentry_get_fd_def pentry_get_metadata_def call_def st ch create_metadata_def f a)
qed

text \<open>A file that was opened and closed before: unlocked, no references, with metadata.\<close>

definition sample_closed :: "(nat, sample_dict) state" where
  "sample_closed = sample_open\<lparr>pes := [1 \<mapsto> sample_pentry\<lparr>fd := 3, path := Some ''/f'', metadata := 2,
     mutex := False, refcount := 0, ondisk := FILE_LOCAL\<rparr>]\<rparr>"

lemma sample_closed_cfg [simp]: "cfg sample_closed = sample_conf"
  by (simp add: sample_closed_def)

lemma sample_closed_inv [simp]: "heap_inv sample_closed"
  by (auto simp: heap_inv_def table_ok_def heap_ok_def metadata_ok_def md_of_def path_of_def
    sample_closed_def sample_open_def sample_pentry_def split: if_splits)

theorem create_existing_crash_witness:
  "dfs_create (sample DPL_SUCCESS) ''/f'' 0x81A4 (O_CREAT OR O_WRONLY) sample_closed = Stuck UseAfterFree"
proof -
  let ?E = "sample DPL_SUCCESS"
  have n: "dfs_namei_timeout ?E ''/f'' (dpl_cwd ?E) True (DPL_FTYPE_OTHER, junk_ino ?E) sample_closed
      = Ret (DPL_SUCCESS, (DPL_FTYPE_REG, ''obj''), sample_closed)"
    by (intro namei_r.success) (simp add: namei_attempt_def plain_def call_def sample_closed_def sample_open_def)
  have o: "\<exists>r t q. dfs_open ?E ''/f'' (O_CREAT OR O_WRONLY) sample_closed = Ret (r, 1, t) \<and> heap_inv t \<and>
      pes t 1 = Some q \<and> metadata q \<noteq> NULL \<and> fd q \<noteq> -1"
  proof -
    have look: "open_lookup ?E ''/f'' sample_closed = Ret (0, 1, sample_closed)"
      by (simp add: open_lookup_def g_hash_table_lookup_def pentry_get_fd_def pentry_get_placeholder_def pe_at_def
          sample_closed_def)
    have tree: "build_cache_tree ?E ''/f'' s = Ret (Some ''/tmp/f'', s)" if "cfg s = sample_conf" for s
      using that by (simp add: build_cache_tree_def call_def sample_conf_def tmpstr_fit_def TMPSTR_MAX_def)
    let ?q = "sample_pentry\<lparr>fd := 3, path := Some ''/f'', metadata := 2, mutex := True, refcount := 1,
      flag := FLAG_DIRTY, ondisk := FILE_LOCAL\<rparr>"
    let ?t = "sample_open\<lparr>pes := [1 \<mapsto> ?q]\<rparr>"
    have "open_entry ?E ''/f'' (O_CREAT OR O_WRONLY) 1 sample_closed = Ret (0, 1, ?t)"
      by (simp add: log_fd_def LOG_def log_debug_def LOG_DEBUG_def open_entry_def Let_def
          get_mode_from_flags_def pentry_inc_refcount_def pe_upd_def pe_at_def pentry_lock_def pentry_gen_lock_def
          call_def open_creat_def sample_closed_def sample_pentry_def pentry_set_fd_def pentry_set_flag_def
          pentry_set_placeholder_def tree del: obind_eq_Ret)
        (simp add: sample_conf_def sample_open_def)
    then have "dfs_open ?E ''/f'' (O_CREAT OR O_WRONLY) sample_closed = Ret (0, 1, ?t)"
      by (simp add: dfs_open_def log_flags_def LOG_def log_debug_def LOG_DEBUG_def look del: obind_eq_Ret)
        (simp add: sample_conf_def)
    moreover have "heap_inv ?t"
      by (auto simp: heap_inv_def table_ok_def heap_ok_def metadata_ok_def md_of_def path_of_def
        sample_open_def sample_pentry_def split: if_splits)
    ultimately show ?thesis by (intro exI [of _ 0] exI [of _ ?t] exI [of _ ?q]) simp
  qed
  then obtain r t q where "dfs_open ?E ''/f'' (O_CREAT OR O_WRONLY) sample_closed = Ret (r, 1, t)" "heap_inv t"
      "pes t 1 = Some q" "metadata q \<noteq> NULL" "fd q \<noteq> -1" by blast
  then show ?thesis
    using n by (intro create_existing_crash [where t = t and pe = 1 and q = q])
      (simp_all add: allocs_ok_def log_debug_def LOG_DEBUG_def sample_closed_def sample_conf_def re_matcher_def)
qed

end
