(* ===== verification/Gc.thy ===== *)
theory Gc
  imports Create
begin

text \<open>
  \<^verbatim>\<open>src/gc.c\<close>: the collector visits every entry of the table and removes the ones whose file in
  the cache is old. glib iterates over the table while the callback removes the current entry; the model
  of \<open>g_hash_table_foreach\<close> visits what was there at the start. A file's times and the clock are
  signed, and the threshold is an \<^verbatim>\<open>int\<close> that is multiplied by 10 for excluded files.
\<close>

section \<open>The callback and the thread\<close>

definition gc_remove :: "('w, 'd) env \<Rightarrow> string \<Rightarrow> ('w, 'd) state \<Rightarrow> ('w, 'd) state outcome" where
  "gc_remove E key s =
     (let local = tmpstr_fit (cstr_print (cache_dir (cfg s)) @ ''/'' @ key) in
      call (s_unlink E local) s (\<lambda>_ s.
      obind (g_hash_table_remove E key s) (\<lambda>(_, s). Ret s)))"

definition gc_release :: "('w, 'd) env \<Rightarrow> addr \<Rightarrow> ('w, 'd) state \<Rightarrow> ('w, 'd) state outcome" where
  "gc_release E pe s = obind (pentry_unlock E pe s) (\<lambda>(_, s). Ret s)"

text \<open>The file is younger than the threshold by all its times.\<close>

definition gc_young :: "int \<Rightarrow> int \<Rightarrow> stat \<Rightarrow> bool" where
  "gc_young t threshold st \<longleftrightarrow> t < sint (st_atime st) + threshold \<and>
     t < sint (st_mtime st) + threshold \<and> t < sint (st_ctime st) + threshold"

definition gc_locked ::
  "('w, 'd) env \<Rightarrow> string \<Rightarrow> addr \<Rightarrow> ('w, 'd) state \<Rightarrow> ('w, 'd) state outcome"
where
  "gc_locked E key pe s =
     obind (pentry_get_fd pe s) (\<lambda>f.
     if f = -1 then gc_release E pe s
     else if f < 0 then gc_remove E key s
     else call (s_fstat E f) s (\<lambda>r s.
       case r of
         Inl e \<Rightarrow> gc_remove E key s
       | Inr st \<Rightarrow>
           obind (pentry_get_exclude pe s) (\<lambda>excl.
           let threshold = sint (if excl then gc_age_threshold (cfg s) * 10 else gc_age_threshold (cfg s)) in
           call (s_time E) s (\<lambda>t s.
           if gc_young t threshold st then gc_release E pe s else gc_remove E key s))))"

definition gc_callback ::
  "('w, 'd) env \<Rightarrow> string \<Rightarrow> addr \<Rightarrow> ('w, 'd) state \<Rightarrow> ('w, 'd) state outcome"
where
  "gc_callback E key pe s =
     (if pe = NULL then Stuck AssertFail
      else obind (pentry_get_refcount pe s) (\<lambda>n.
        if n \<noteq> 0 then Ret s
        else obind (pentry_trylock E pe s) (\<lambda>(rc, s).
          if rc \<noteq> 0 then Ret s else gc_locked E key pe s)))"

text \<open>The loop never ends; \<open>n\<close> is the number of its iterations.\<close>

fun gc_loop :: "nat \<Rightarrow> ('w, 'd) env \<Rightarrow> ('w, 'd) state \<Rightarrow> ('w, 'd) state outcome" where
  "gc_loop 0 E s = Stuck Diverges"
| "gc_loop (Suc n) E s =
     call (s_sleep E (gc_loop_delay (cfg s))) s (\<lambda>_ s.
     obind (g_hash_table_foreach (gc_callback E) (hash s) s) (gc_loop n E))"

definition thread_gc :: "nat \<Rightarrow> ('w, 'd) env \<Rightarrow> ('w, 'd) state \<Rightarrow> ('w, 'd) state outcome" where
  "thread_gc n E s =
     (if gc_loop_delay (cfg s) \<noteq> 0 \<and> gc_age_threshold (cfg s) \<noteq> 0 then gc_loop n E s else Ret s)"

section \<open>Rules\<close>

text \<open>
  What a visit does to the view: nothing, when the entry is in use or locked; or the lock that it took
  stays, when unlocking fails; or the entry goes.
\<close>

definition gc_post :: "string \<Rightarrow> addr \<Rightarrow> view \<Rightarrow> view \<Rightarrow> bool" where
  "gc_post k a v w \<longleftrightarrow> w = v \<or>
     v_ref v a = 0 \<and> \<not> v_lock v a \<and> (w = v_setlock a True v \<or> w = v_drop k v)"

lemma okay_gc_remove [okay_rule]:
  assumes "heap_inv s" "\<And>s'. heap_inv s' \<Longrightarrow> view s' = v_drop k (view s) \<Longrightarrow> Q s'"
  shows "okay (gc_remove E k s) Q"
  unfolding gc_remove_def Let_def using assms by (auto intro!: okay_call okay_hash_remove)

lemma okay_gc_release [okay_rule]:
  assumes "heap_inv s" "a \<in> v_ent (view s)"
    and "\<And>s'. heap_inv s' \<Longrightarrow> view s' = view s \<or> view s' = v_setlock a False (view s) \<Longrightarrow> Q s'"
  shows "okay (gc_release E a s) Q"
  unfolding gc_release_def using assms by (auto intro!: okay_mutex)

lemma v_drop_setlock: "v_tbl v k = Some a \<Longrightarrow> v_drop k (v_setlock a b v) = v_drop k v"
  by (simp add: v_drop_def v_free_def v_setlock_def)

lemma okay_gc_locked:
  assumes "heap_inv s" "a \<in> v_ent (view s)" "view s = v_setlock a True v" "v_tbl v k = Some a" "\<not> v_lock v a"
    and "\<And>s'. heap_inv s' \<Longrightarrow> view s' = v \<or> view s' = v_setlock a True v \<or> view s' = v_drop k v \<Longrightarrow> Q s'"
  shows "okay (gc_locked E k a s) Q"
  unfolding gc_locked_def Let_def
  using assms
  by (auto intro!: okay_getters okay_gc_release okay_gc_remove okay_call split: sum.split
      simp: v_drop_setlock)

lemma okay_gc_callback [okay_rule]:
  assumes "heap_inv s" "v_tbl (view s) k = Some a"
    and "\<And>s'. heap_inv s' \<Longrightarrow> gc_post k a (view s) (view s') \<Longrightarrow> Q s'"
  shows "okay (gc_callback E k a s) Q"
proof -
  have a: "a \<in> v_ent (view s)" "a \<noteq> NULL"
    using heap_inv_tbl_ent [OF assms(1,2)] heap_inv_not_null [OF assms(1)] by auto
  have fin: "Q s'" if "heap_inv s'" "view s' = view s \<or> v_ref (view s) a = 0 \<and> \<not> v_lock (view s) a \<and>
      (view s' = v_setlock a True (view s) \<or> view s' = v_drop k (view s))" for s'
    using that by (intro assms(3)) (auto simp: gc_post_def)
  have ref: "v_ref (view s) a = refcount p" if "pes s a = Some p" for p
    using that by (simp add: view_simps)
  show ?thesis
    unfolding gc_callback_def
    using assms(1,2) a
    by (auto intro!: okay_getters okay_mutex okay_gc_locked [where v = "view s"] fin simp: ref)
qed

section \<open>A round\<close>

text \<open>What every number of visits keeps: the entries that are in use or locked, with their references
  and locks; the table only shrinks.\<close>

definition gc_keeps :: "view \<Rightarrow> view \<Rightarrow> bool" where
  "gc_keeps v w \<longleftrightarrow> v_tbl w \<subseteq>\<^sub>m v_tbl v \<and> v_loose w = v_loose v \<and> v_cfg w = v_cfg v \<and>
     (\<forall>k a. v_tbl v k = Some a \<longrightarrow> v_ref v a \<noteq> 0 \<or> v_lock v a \<longrightarrow>
        v_tbl w k = Some a \<and> v_ref w a = v_ref v a \<and> v_lock w a = v_lock v a)"

lemma gc_keeps_refl [simp]: "gc_keeps v v"
  by (simp add: gc_keeps_def)

lemma gc_keeps_trans:
  assumes "gc_keeps u v" "gc_keeps v w" shows "gc_keeps u w"
proof -
  have "v_tbl w k = Some a \<and> v_ref w a = v_ref u a \<and> v_lock w a = v_lock u a"
    if "v_tbl u k = Some a" "v_ref u a \<noteq> 0 \<or> v_lock u a" for k a
    using assms that unfolding gc_keeps_def by metis
  then show ?thesis
    using assms map_le_trans [of "v_tbl w" "v_tbl v" "v_tbl u"] unfolding gc_keeps_def by simp
qed

lemma gc_post_tbl:
  "gc_post k a v w \<Longrightarrow> v_tbl v l = Some b \<Longrightarrow> l \<noteq> k \<Longrightarrow> v_tbl w l = Some b"
  by (auto simp: gc_post_def v_drop_simps)

lemma gc_post_keeps:
  assumes "heap_inv s" "v_tbl (view s) k = Some a" "gc_post k a (view s) w"
  shows "gc_keeps (view s) w"
proof -
  consider "w = view s" | "w = v_setlock a True (view s)" "v_ref (view s) a = 0" "\<not> v_lock (view s) a"
    | "w = v_drop k (view s)" "v_ref (view s) a = 0" "\<not> v_lock (view s) a"
    using assms(3) by (auto simp: gc_post_def)
  then show ?thesis
  proof cases
    case 3
    have "b \<noteq> a" if "v_tbl (view s) l = Some b" "v_ref (view s) b \<noteq> 0 \<or> v_lock (view s) b" for l b
      using that 3 by auto
    moreover have "l \<noteq> k" if "v_tbl (view s) l = Some b" "v_ref (view s) b \<noteq> 0 \<or> v_lock (view s) b" for l b
      using that 3 assms(2) by auto
    ultimately show ?thesis
      using 3 assms(2) unfolding gc_keeps_def v_drop_def by (auto simp: map_le_def)
  qed (auto simp: gc_keeps_def)
qed

lemma okay_gc_foreach:
  assumes "heap_inv s" "distinct (map fst xs)" "\<forall>(k, a) \<in> set xs. v_tbl (view s) k = Some a"
  shows "okay (g_hash_table_foreach (gc_callback E) xs s) (\<lambda>t. heap_inv t \<and> gc_keeps (view s) (view t))"
  using assms
proof (induction xs arbitrary: s)
  case (Cons x xs)
  obtain k a where x: "x = (k, a)" by (cases x)
  have ka: "v_tbl (view s) k = Some a" using Cons.prems(3) by (simp add: x)
  have "okay (g_hash_table_foreach (gc_callback E) xs t) (\<lambda>u. heap_inv u \<and> gc_keeps (view s) (view u))"
    if t: "heap_inv t" "gc_post k a (view s) (view t)" for t
  proof (rule okay_mono [OF Cons.IH [OF t(1)]])
    show "distinct (map fst xs)" using Cons.prems(2) by simp
    have "l \<noteq> k" if "(l, b) \<in> set xs" for l b using Cons.prems(2) that by (force simp: x)
    then show "\<forall>(l, b) \<in> set xs. v_tbl (view t) l = Some b"
      using Cons.prems(3) gc_post_tbl [OF t(2)] by (fastforce simp: x)
  qed (use gc_keeps_trans gc_post_keeps [OF Cons.prems(1) ka t(2)] in blast)
  then show ?case
    using Cons.prems(1) ka by (auto simp: x intro!: okay_gc_callback)
qed simp

lemma okay_gc_round [okay_rule]:
  assumes "heap_inv s"
  shows "okay (g_hash_table_foreach (gc_callback E) (hash s) s) (\<lambda>t. heap_inv t \<and> gc_keeps (view s) (view t))"
  using assms
  by (intro okay_gc_foreach) (auto simp: heap_inv_def table_ok_def view_simps)

section \<open>Properties\<close>

text \<open>
  A round of the collector has no undefined behaviour of the heap: it keeps the invariant, never
  removes an entry that is referenced or locked, nor changes its references or its lock, adds
  nothing to the table, and loses no dictionary.
\<close>

theorem gc_round_safe:
  assumes "heap_inv s"
  shows "okay (g_hash_table_foreach (gc_callback E) (hash s) s)
    (\<lambda>t. heap_inv t \<and> gc_keeps (view s) (view t))"
  using assms by (rule okay_gc_round)

theorem gc_round_safe_witness:
  "okay (g_hash_table_foreach (gc_callback (sample DPL_SUCCESS)) (hash sample_open) sample_open)
    (\<lambda>t. heap_inv t \<and> gc_keeps (view sample_open) (view t))"
  by (rule gc_round_safe) simp

text \<open>
  An idle cell is collected exactly when its file is old: with no references, unlocked and with
  a file that can be examined, its path stays in the table if and only if all three times of the file are
  within the threshold, ten times as large for an excluded file.
\<close>

theorem gc_collects_old:
  assumes "heap_inv s" "map_of (hash s) k = Some a" "pes s a = Some p" "refcount p = 0" "\<not> mutex p"
    and "pthread_rc E (world s) = (0, w1)" "0 \<le> fd p" "s_fstat E (fd p) w1 = (Inr st, w2)" "s_time E w2 = (t, w3)"
    and "threshold = sint (if exclude p then gc_age_threshold (cfg s) * 10 else gc_age_threshold (cfg s))"
  shows "okay (gc_callback E k a s) (\<lambda>u. heap_inv u \<and> (k \<in> dom (v_tbl (view u)) \<longleftrightarrow> gc_young t threshold st))"
proof -
  let ?t = "s\<lparr>pes := (pes s)(a \<mapsto> p\<lparr>mutex := True\<rparr>)\<rparr>"
  let ?s = "s\<lparr>world := w1, pes := (pes s)(a \<mapsto> p\<lparr>mutex := True\<rparr>)\<rparr>"
  have a: "a \<noteq> NULL" using heap_inv_tbl_ent [OF assms(1), of k a] heap_inv_not_null [OF assms(1)] assms(2)
    by (simp add: view_simps)
  have lock: "pentry_trylock E a s = Ret (0, ?s)"
    using assms(3,5,6) a by (simp add: pentry_trylock_def pentry_gen_trylock_def pe_at_def call_def pe_upd_def)
  have inv: "heap_inv ?t" and view: "view ?t = v_setlock a True (view s)"
    using pe_upd_heap_inv [OF assms(1,3), of "p\<lparr>mutex := True\<rparr>"] pe_upd_view [OF assms(3), of "p\<lparr>mutex := True\<rparr>"] assms(3,4)
    by (simp_all add: v_setlock_def v_setref_def view_def fun_upd_idem fun_eq_iff)
  have k: "v_tbl (view s) k = Some a" using assms(2) by (simp add: view_simps)
  have ent: "a \<in> v_ent (view ?t)"
    using heap_inv_tbl_ent [OF assms(1) k] unfolding view by simp
  have "okay (if gc_young t threshold st then gc_release E a (?t\<lparr>world := w3\<rparr>) else gc_remove E k (?t\<lparr>world := w3\<rparr>))
      (\<lambda>u. heap_inv u \<and> (k \<in> dom (v_tbl (view u)) \<longleftrightarrow> gc_young t threshold st))"
    using inv ent k by (auto intro!: okay_gc_release okay_gc_remove simp: view v_drop_simps)
  then show ?thesis
    using assms(3,4,7-9) a
    unfolding assms(10)
    by (simp cong: if_cong split del: if_split add: gc_callback_def pentry_get_refcount_def pe_at_def lock gc_locked_def pentry_get_fd_def
        pentry_get_exclude_def call_def)
qed

theorem gc_collects_old_witness:
  "okay (gc_callback (sample DPL_SUCCESS) ''/f'' 1 sample_closed)
     (\<lambda>u. heap_inv u \<and> (''/f'' \<in> dom (v_tbl (view u)) \<longleftrightarrow> gc_young 1000 900 sample_stat)) \<and>
   \<not> gc_young 1000 900 sample_stat"
proof
  show "\<not> gc_young 1000 900 sample_stat" by (simp add: gc_young_def sample_stat_def)
  show "okay (gc_callback (sample DPL_SUCCESS) ''/f'' 1 sample_closed)
     (\<lambda>u. heap_inv u \<and> (''/f'' \<in> dom (v_tbl (view u)) \<longleftrightarrow> gc_young 1000 900 sample_stat))"
    by (rule gc_collects_old [where ?w1.0 = 0 and ?w2.0 = 0 and ?w3.0 = 0 and p = "sample_pentry\<lparr>fd := 3, path := Some ''/f'', metadata := 2,
     mutex := False, refcount := 0, ondisk := FILE_LOCAL\<rparr>"])
      (simp, simp_all add: sample_closed_def sample_open_def sample_pentry_def sample_conf_def)
qed

end
