(* ===== verification/Rename.thy ===== *)
theory Rename
  imports Gc Tmpstr
begin

text \<open>
  \<^verbatim>\<open>src/rename.c\<close>: a file is copied and unlinked, a directory is created and its entries are renamed
  one by one. The names below a directory live in the thread's ring of temporary strings, and so do the names
  that a recursive call is given; the ring is explicit here, because a directory with many entries
  comes round to the strings that still name it.
\<close>

section \<open>Strings of the ring\<close>

text \<open>A \<^verbatim>\<open>char *\<close>: a string of the caller, or a buffer of the ring.\<close>

datatype sref = Own string | Slot nat

primrec sref_str :: "tmpring \<Rightarrow> sref \<Rightarrow> string" where
  "sref_str r (Own s) = s"
| "sref_str r (Slot i) = tmpstr_at i r"

text \<open>\<^verbatim>\<open>tmpstr_printf("%s/%s", d, name)\<close>; it must not print a buffer into itself.\<close>

definition printf_join :: "sref \<Rightarrow> string \<Rightarrow> tmpring \<Rightarrow> (nat \<times> tmpring) outcome" where
  "printf_join d name r =
     (if d = Slot (fst (tmpstr_new r)) then Stuck Overlap
      else Ret (tmpstr_printf (sref_str r d @ ''/'' @ name) r))"

text \<open>The buffer without its last character if this is a slash; it is not empty.\<close>

definition chop :: "string \<Rightarrow> string" where
  "chop s = (if s \<noteq> [] \<and> last s = CHR ''/'' then butlast s else s)"

definition strip_slash :: "nat \<Rightarrow> tmpring \<Rightarrow> tmpring" where
  "strip_slash i r = r\<lparr>strings := (strings r)[i := chop (tmpstr_at i r)]\<rparr>"

section \<open>Files and directories\<close>

text \<open>The entry of the new file's directory loses the old path.\<close>

definition rename_dirent :: "string \<Rightarrow> string \<Rightarrow> ('w, 'd) state \<Rightarrow> ('w, 'd) state outcome" where
  "rename_dirent old new s =
     (case strrchr new (CHR ''/'') of
        None \<Rightarrow> Ret s
      | Some i \<Rightarrow>
          if i = 0 then Ret s
          else let pe_dir = g_hash_table_lookup (take i new) s in
            if pe_dir = NULL then Ret s
            else obind (pentry_remove_dirent pe_dir old s) (\<lambda>(_, s). Ret s))"

text \<open>\<^verbatim>\<open>dfs_unlink\<close> prints one temporary string, the name of the cache file, unless the remote
  object could not be removed.\<close>

definition rename_file ::
  "('w, 'd) env \<Rightarrow> sref \<Rightarrow> sref \<Rightarrow> tmpring \<Rightarrow> ('w, 'd) state \<Rightarrow> (int \<times> tmpring \<times> ('w, 'd) state) outcome"
where
  "rename_file E old new r s =
     (let oldpath = sref_str r old; newpath = sref_str r new in
     obind (dfs_fcopy_timeout E oldpath newpath s) (\<lambda>(rc, _, s).
     if rc \<noteq> DPL_SUCCESS then Ret (-1, r, s)
     else obind (rename_dirent oldpath newpath s) (\<lambda>s.
       let local = cstr_print (cache_dir (cfg s)) @ ''/'' @ oldpath in
       obind (dfs_unlink E oldpath s) (\<lambda>(ret, s).
       Ret (ret, if ret = 1 then r else snd (tmpstr_printf local r), s)))))"

text \<open>The label \<^verbatim>\<open>err\<close> of \<^verbatim>\<open>rename_directory\<close>.\<close>

definition rename_close ::
  "('w, 'd) env \<Rightarrow> nat \<Rightarrow> int \<Rightarrow> tmpring \<Rightarrow> ('w, 'd) state \<Rightarrow> (int \<times> tmpring \<times> ('w, 'd) state) outcome"
where
  "rename_close E h ret r s =
     (if h \<noteq> NULL then call (dpl_closedir E h) s (\<lambda>_ s. Ret (ret, r, s)) else Ret (ret, r, s))"

text \<open>
  \<open>rename_entries\<close> is the loop over the entries; \<open>ret\<close> is what the entry before left in \<^verbatim>\<open>ret\<close>. The fuel
  bounds the depth and the number of entries.
\<close>

function (sequential) rename_directory ::
    "nat \<Rightarrow> ('w, 'd) env \<Rightarrow> sref \<Rightarrow> sref \<Rightarrow> tmpring \<Rightarrow> ('w, 'd) state \<Rightarrow>
      (int \<times> tmpring \<times> ('w, 'd) state) outcome"
  and rename_entries ::
    "nat \<Rightarrow> ('w, 'd) env \<Rightarrow> nat \<Rightarrow> sref \<Rightarrow> sref \<Rightarrow> int \<Rightarrow> tmpring \<Rightarrow> ('w, 'd) state \<Rightarrow>
      (int \<times> tmpring \<times> ('w, 'd) state) outcome"
where
  "rename_directory 0 E old new r s = Stuck Diverges"
| "rename_directory (Suc n) E old new r s =
     obind (dfs_namei_timeout E (sref_str r new) (junk_ino E) False (DPL_FTYPE_OTHER, junk_ino E) s) (\<lambda>(rc, _, s).
     if rc \<noteq> DPL_SUCCESS \<and> rc \<noteq> DPL_ENOENT then Ret (-1, r, s)
     else obind (if rc = DPL_ENOENT then dfs_mkdir E (sref_str r new) s else Ret (0, s)) (\<lambda>(made, s).
     if made \<noteq> 0 then Ret (-1, r, s)
     else obind (dfs_chdir_timeout E (sref_str r old) s) (\<lambda>(rc, _, s).
     if rc \<noteq> DPL_SUCCESS then Ret (status_code E rc, r, s)
     else obind (dfs_opendir_timeout E ''.'' NULL s) (\<lambda>(rc, h, s).
     if rc \<noteq> DPL_SUCCESS then rename_close E h (status_code E rc) r s
     else obind (rename_entries n E h old new 0 r s) (\<lambda>(ret, r, s).
     if ret = -1 then rename_close E h ret r s
     else obind (dfs_rmdir E (sref_str r old) s) (\<lambda>(_, s). rename_close E h 0 r s))))))"
| "rename_entries 0 E h old new ret r s = Stuck Diverges"
| "rename_entries (Suc n) E h old new ret r s =
     call (dpl_readdir E h) s (\<lambda>d s.
     case d of None \<Rightarrow> Ret (ret, r, s)
     | Some name \<Rightarrow>
         if name = ''.'' \<or> name = ''..'' then rename_entries n E h old new ret r s
         else obind (printf_join old name r) (\<lambda>(src, r).
              obind (printf_join new name r) (\<lambda>(dst, r).
              let r = strip_slash dst (strip_slash src r) in
              obind (dfs_namei_timeout E (tmpstr_at src r) (junk_ino E) False (DPL_FTYPE_OTHER, junk_ino E) s)
                (\<lambda>(rc, (ty, _), s).
              if rc \<noteq> DPL_SUCCESS \<and> rc \<noteq> DPL_ENOENT then Ret (-1, r, s)
              else obind (if ty = DPL_FTYPE_DIR then rename_directory n E (Slot src) (Slot dst) r s
                          else rename_file E (Slot src) (Slot dst) r s) (\<lambda>(ret, r, s).
              rename_entries n E h old new ret r s)))))"
  by pat_completeness auto
termination by (relation "measure (case_sum (\<lambda>(n, _). n) (\<lambda>(n, _). n))") auto

text \<open>
  \<^verbatim>\<open>! DPL_SUCCESS == rc\<close> compares the negation of the constant with the status. \<open>r\<close> is the
  thread's ring when FUSE calls the handler.
\<close>

definition dfs_rename ::
  "('w, 'd) env \<Rightarrow> string \<Rightarrow> string \<Rightarrow> tmpring \<Rightarrow> ('w, 'd) state \<Rightarrow> (int \<times> tmpring \<times> ('w, 'd) state) outcome"
where
  "dfs_rename E oldpath newpath r s =
     (let newpath = (if newpath = ''.'' then
            (case strrchr oldpath (CHR ''/'') of Some i \<Rightarrow> drop (Suc i) oldpath | None \<Rightarrow> oldpath)
          else newpath) in
     obind (dfs_namei_timeout E oldpath (junk_ino E) False (DPL_FTYPE_OTHER, junk_ino E) s) (\<lambda>(rc, (ty, _), s).
     if (if status_code E DPL_SUCCESS = 0 then 1 else 0) = status_code E rc \<and> rc \<noteq> DPL_ENOENT then Ret (-1, r, s)
     else if ty \<noteq> DPL_FTYPE_DIR \<and> ty \<noteq> DPL_FTYPE_REG then Ret (-1, r, s)
     else obind (if ty = DPL_FTYPE_REG then rename_file E (Own oldpath) (Own newpath) r s
                 else rename_directory (loop_fuel E) E (Own oldpath) (Own newpath) r s) (\<lambda>(ret, r, s).
          Ret (if ret = -1 then -1 else 0, r, s))))"

section \<open>Rules\<close>

text \<open>What a rename may do to the view: entries go, nothing else.\<close>

definition shrinks :: "view \<Rightarrow> view \<Rightarrow> bool" where
  "shrinks v w \<longleftrightarrow> v_tbl w \<subseteq>\<^sub>m v_tbl v \<and> v_ent w \<subseteq> v_ent v \<and> v_loose w = v_loose v \<and> v_cfg w = v_cfg v \<and>
     (\<forall>a\<in>v_ent w. v_ref w a = v_ref v a \<and> v_lock w a = v_lock v a)"

lemma shrinks_refl [simp]: "shrinks v v"
  by (simp add: shrinks_def)

lemma shrinks_trans:
  assumes "shrinks u v" "shrinks v w" shows "shrinks u w"
proof -
  have "v_tbl w \<subseteq>\<^sub>m v_tbl u" "v_ent w \<subseteq> v_ent u"
    using assms map_le_trans [of "v_tbl w" "v_tbl v" "v_tbl u"] unfolding shrinks_def by auto
  moreover have "v_ref w a = v_ref u a \<and> v_lock w a = v_lock u a" if "a \<in> v_ent w" for a
    using assms that unfolding shrinks_def by (metis subsetD)
  ultimately show ?thesis using assms unfolding shrinks_def by simp
qed

lemma shrinks_drop [simp]: "shrinks v (v_drop k v)"
proof (cases "v_tbl v k")
  case (Some a)
  then show ?thesis by (auto simp: shrinks_def v_drop_def map_le_def)
qed simp

lemma okay_rename_dirent [okay_rule]:
  assumes "heap_inv s" "\<And>s'. heap_inv s' \<Longrightarrow> view s' = view s \<Longrightarrow> Q s'"
  shows "okay (rename_dirent old new s) Q"
proof -
  have "okay (let pe_dir = g_hash_table_lookup k s in if pe_dir = NULL then Ret s
      else obind (pentry_remove_dirent pe_dir old s) (\<lambda>(_, s). Ret s)) Q" for k
    using assms(1) by (cases rule: lookup_cases [where k = k]) (use assms in \<open>auto intro!: okay_remove_dirent\<close>)
  then show ?thesis using assms by (simp add: rename_dirent_def split: option.split)
qed

lemma okay_rename_file [okay_rule]:
  assumes "heap_inv s"
    and "\<And>s'. heap_inv s' \<Longrightarrow> view s' = view s \<Longrightarrow> Q (-1, r, s')"
    and "\<And>s'. heap_inv s' \<Longrightarrow> view s' = view s \<Longrightarrow> Q (1, r, s')"
    and "\<And>l s'. heap_inv s' \<Longrightarrow> view s' = v_drop (sref_str r old) (view s) \<Longrightarrow>
      Q (0, snd (tmpstr_printf l r), s')"
  shows "okay (rename_file E old new r s) Q"
  unfolding rename_file_def Let_def
  using assms by (auto intro!: okay_world_timeouts okay_rename_dirent okay_dfs_unlink)

text \<open>The strings that a directory's entries get.\<close>

definition child :: "string \<Rightarrow> string \<Rightarrow> string" where
  "child d name = chop (tmpstr_fit (d @ ''/'' @ name))"

text \<open>The store's answer to a name that is below \<open>d\<close> is not a directory.\<close>

definition flat :: "('w, 'd) env \<Rightarrow> string \<Rightarrow> bool" where
  "flat E d \<longleftrightarrow> (\<forall>name i w. fst (snd (fst (dpl_namei E (child d name) i w))) \<noteq> DPL_FTYPE_DIR)"

lemma okay_namei_type:
  assumes "\<not> log_debug s" "\<And>i w. T (fst (snd (fst (dpl_namei E pth i w))))"
    and "\<And>rc y w. T (fst y) \<Longrightarrow> Q (rc, y, s\<lparr>world := w\<rparr>)" "T (fst x)"
  shows "okay (dfs_namei_timeout E pth ino refs x s) Q"
  unfolding dfs_namei_timeout_def
proof (rule okay_retry [where P = "\<lambda>x t. T (fst x) \<and> (\<exists>w. t = s\<lparr>world := w\<rparr>)"])
  show "T (fst x) \<and> (\<exists>w. s = s\<lparr>world := w\<rparr>)" using assms(4) by (auto intro: exI [of _ "world s"])
  fix y :: "dpl_ftype \<times> ino" and t assume "T (fst y) \<and> (\<exists>w. t = s\<lparr>world := w\<rparr>)"
  moreover have "T (fst z)" if "dpl_namei E pth ino w = ((rc, z), w')" for rc z w w'
    using assms(2) [of ino w] that by simp
  ultimately show "okay (namei_attempt E pth ino refs y t)
      (\<lambda>(rc, y, t). if retry_enoent rc then T (fst y) \<and> (\<exists>w. t = s\<lparr>world := w\<rparr>) else Q (rc, y, t))"
    using assms(1,3) by (auto simp: namei_attempt_def plain_def log_debug_def intro!: okay_call)
qed (use assms(3) in \<open>auto\<close>)

lemma strip_slash_simps:
  assumes "ring_ok r"
  shows "ring_ok (strip_slash i r)" "current (strip_slash i r) = current r"
    "i < TMPSTR_NB \<Longrightarrow> tmpstr_at i (strip_slash i r) = chop (tmpstr_at i r)"
    "j \<noteq> i \<Longrightarrow> tmpstr_at j (strip_slash i r) = tmpstr_at j r"
  using assms by (simp_all add: strip_slash_def ring_ok_def tmpstr_at_def)

lemma tmpstr_at_printf_other:
  "ring_ok r \<Longrightarrow> j \<noteq> Suc (current r) mod TMPSTR_NB \<Longrightarrow> tmpstr_at j (snd (tmpstr_printf s r)) = tmpstr_at j r"
  by (simp add: tmpstr_at_def tmpstr_printf_simps)

text \<open>The buffers that one entry gets.\<close>

lemma entry_buffers:
  assumes r: "ring_ok r" and p: "tmpstr_printf a r = (i, r1)" "tmpstr_printf b r1 = (j, r2)"
    and r3: "r3 = strip_slash j (strip_slash i r2)"
  shows "ring_ok r3" "i = Suc (current r) mod TMPSTR_NB" "j = Suc (Suc (current r)) mod TMPSTR_NB"
    "current r3 = j" "tmpstr_at i r3 = chop (tmpstr_fit a)" "tmpstr_at j r3 = chop (tmpstr_fit b)"
    "\<And>k. k \<noteq> i \<Longrightarrow> k \<noteq> j \<Longrightarrow> tmpstr_at k r3 = tmpstr_at k r"
proof -
  have 1: "ring_ok r1" "i = Suc (current r) mod TMPSTR_NB" "current r1 = i" "i < TMPSTR_NB"
      "tmpstr_at i r1 = tmpstr_fit a"
    using tmpstr_printf_simps [OF r, of a] tmpstr_printf_fst_less [OF r, of a] tmpstr_at_printf [OF r, of a] p(1)
    by simp_all
  have 2: "ring_ok r2" "j = Suc (current r1) mod TMPSTR_NB" "current r2 = j" "j < TMPSTR_NB"
      "tmpstr_at j r2 = tmpstr_fit b"
    using tmpstr_printf_simps [OF 1(1), of b] tmpstr_printf_fst_less [OF 1(1), of b]
      tmpstr_at_printf [OF 1(1), of b] p(2)
    by simp_all
  have ij: "i \<noteq> j" using 1(3,4) 2(2) by (auto simp: mod_Suc TMPSTR_NB_def split: if_splits)
  have o: "tmpstr_at k r2 = tmpstr_at k r1" if "k \<noteq> j" for k
    using tmpstr_at_printf_other [OF 1(1), of k b] that p(2) 2(2) by simp
  have o': "tmpstr_at k r1 = tmpstr_at k r" if "k \<noteq> i" for k
    using tmpstr_at_printf_other [OF r, of k a] that p(1) 1(2) by simp
  show "ring_ok r3" "i = Suc (current r) mod TMPSTR_NB" "current r3 = j"
    using 1 2 by (simp_all add: r3 strip_slash_simps)
  show "j = Suc (Suc (current r)) mod TMPSTR_NB" using 1(2,3) 2(2) by (simp add: mod_Suc_eq)
  show "tmpstr_at i r3 = chop (tmpstr_fit a)" "tmpstr_at j r3 = chop (tmpstr_fit b)"
    using 1 2 ij o [OF ij] by (simp_all add: r3 strip_slash_simps)
  show "tmpstr_at k r3 = tmpstr_at k r" if "k \<noteq> i" "k \<noteq> j" for k
    using 2(1) that o o' by (simp add: r3 strip_slash_simps)
qed

lemma printf_join_Own [simp]: "printf_join (Own d) name r = Ret (tmpstr_printf (d @ ''/'' @ name) r)"
  by (simp add: printf_join_def)

text \<open>The loop over a flat directory whose names are the caller's.\<close>

lemma okay_rename_entries_flat:
  assumes "heap_inv s" "ring_ok r" "\<not> log_debug s" "flat E d"
    and "\<And>ret r' s'. heap_inv s' \<Longrightarrow> ring_ok r' \<Longrightarrow> shrinks (view s) (view s') \<Longrightarrow> Q (ret, r', s')"
  shows "okay (rename_entries n E h (Own d) (Own d') ret r s) Q"
  using assms(1-3,5)
proof (induction n arbitrary: ret r s)
  case (Suc n)
  have rest: "okay (rename_entries n E h (Own d) (Own d') ret' r' s') Q"
    if t: "heap_inv s'" "ring_ok r'" "shrinks (view s) (view s')" for ret' r' s'
  proof (rule Suc.IH [OF t(1,2)])
    have "v_cfg (view s') = v_cfg (view s)" using t(3) by (simp add: shrinks_def)
    then show "\<not> log_debug s'" using Suc.prems(3) by (simp add: log_debug_def view_simps)
  qed (use t(3) Suc.prems(4) shrinks_trans in blast)
  have entry: "okay (dfs_namei_timeout E (tmpstr_at i r3) (junk_ino E) False (DPL_FTYPE_OTHER, junk_ino E) t)
      (\<lambda>x. okay ((\<lambda>(rc, (ty, _), s).
              if rc \<noteq> DPL_SUCCESS \<and> rc \<noteq> DPL_ENOENT then Ret (-1, r3, s)
              else obind (if ty = DPL_FTYPE_DIR then rename_directory n E (Slot i) (Slot j) r3 s
                          else rename_file E (Slot i) (Slot j) r3 s) (\<lambda>(ret, r, s).
              rename_entries n E h (Own d) (Own d') ret r s)) x) Q)"
    if p: "tmpstr_printf (d @ ''/'' @ name) r = (i, r1)" "tmpstr_printf (d' @ ''/'' @ name) r1 = (j, r2)"
      "r3 = strip_slash j (strip_slash i r2)" and t: "t = s\<lparr>world := w\<rparr>" for name i j r1 r2 r3 t w
  proof -
    note b = entry_buffers [OF Suc.prems(2) p]
    have "fst (snd (fst (dpl_namei E (tmpstr_at i r3) q v))) \<noteq> DPL_FTYPE_DIR" for q v
      using assms(4) by (simp add: b(5) flat_def child_def)
    then show ?thesis
      using Suc.prems(1,3) b(1)
      by (intro okay_namei_type [where T = "\<lambda>ty. ty \<noteq> DPL_FTYPE_DIR"])
        (auto simp: t log_debug_def intro!: okay_rename_file rest Suc.prems(4) tmpstr_printf_simps(4))
  qed
  have again: "okay (rename_entries n E h (Own d) (Own d') ret r (s\<lparr>world := w\<rparr>)) Q" for w
    using Suc.prems(1,2) by (intro rest) simp_all
  show ?case
    using Suc.prems(1,2,4) entry again
    by (auto simp: Let_def intro!: okay_call Suc.prems(4) split: option.split prod.split)
qed simp

lemma shrinks_debug: "shrinks (view s) (view t) \<Longrightarrow> log_debug t = log_debug s"
  by (simp add: shrinks_def log_debug_def view_simps)

lemma okay_rename_close [okay_rule]:
  "(\<And>w. Q (ret, r, s\<lparr>world := w\<rparr>)) \<Longrightarrow> okay (rename_close E h ret r s) Q"
proof -
  assume q: "\<And>w. Q (ret, r, s\<lparr>world := w\<rparr>)"
  have "Q (ret, r, s)" using q [of "world s"] by simp
  then show ?thesis using q by (auto simp: rename_close_def intro!: okay_call)
qed

lemma okay_rename_directory_flat:
  assumes "heap_inv s" "ring_ok r" "\<not> log_debug s" "flat E d"
    and "\<And>ret r' s'. heap_inv s' \<Longrightarrow> ring_ok r' \<Longrightarrow> shrinks (view s) (view s') \<Longrightarrow> Q (ret, r', s')"
  shows "okay (rename_directory n E (Own d) (Own d') r s) Q"
proof (cases n)
  case (Suc m)
  have close: "okay (rename_close E h ret r' t) Q"
    if "heap_inv t" "ring_ok r'" "shrinks (view s) (view t)" for h ret r' t
    using that by (intro okay_rename_close assms(5)) simp_all
  have rmdir: "okay (dfs_rmdir E d t) (\<lambda>x. okay ((\<lambda>(_, s). rename_close E h 0 r' s) x) Q)"
    if "heap_inv t" "ring_ok r'" "shrinks (view s) (view t)" for h r' t
    using that by (intro okay_dfs_rmdir) (auto intro!: close)
  have loop: "okay (rename_entries m E h (Own d) (Own d') 0 r (s\<lparr>world := w\<rparr>))
      (\<lambda>x. okay ((\<lambda>(ret, r, s). if ret = -1 then rename_close E h ret r s
         else obind (dfs_rmdir E (sref_str r (Own d)) s) (\<lambda>(_, s). rename_close E h 0 r s)) x) Q)" for h w
    using assms(1-3) by (intro okay_rename_entries_flat assms(4)) (auto intro!: close rmdir simp: log_debug_def)
  have opened: "okay (dfs_opendir_timeout E ''.'' NULL (s\<lparr>world := w\<rparr>)) (\<lambda>x. okay ((\<lambda>(rc, h, s).
     if rc \<noteq> DPL_SUCCESS then rename_close E h (status_code E rc) r s
     else obind (rename_entries m E h (Own d) (Own d') 0 r s) (\<lambda>(ret, r, s).
     if ret = -1 then rename_close E h ret r s
     else obind (dfs_rmdir E (sref_str r (Own d)) s) (\<lambda>(_, s). rename_close E h 0 r s))) x) Q)" for w
    using assms(1,2) loop by (intro okay_opendir_timeout) (auto intro!: close)
  show ?thesis
    using assms(1-3) opened
    by (auto simp: Suc intro!: okay_namei_timeout okay_dfs_mkdir okay_world_timeouts assms(5))
qed simp

lemma okay_dfs_rename_flat:
  assumes "heap_inv s" "ring_ok r" "\<not> log_debug s" "flat E old"
    and "\<And>ret r' s'. heap_inv s' \<Longrightarrow> ring_ok r' \<Longrightarrow> shrinks (view s) (view s') \<Longrightarrow> ret \<in> {0, -1} \<Longrightarrow> Q (ret, r', s')"
  shows "okay (dfs_rename E old new r s) Q"
proof -
  have regular: "okay (rename_file E (Own old) (Own q) r (s\<lparr>world := w\<rparr>)) (\<lambda>x. okay ((\<lambda>(ret, r, s).
      Ret (if ret = -1 then -1 else 0, r, s)) x) Q)" for q w
    using assms(1,2) by (intro okay_rename_file) (auto intro!: assms(5) tmpstr_printf_simps(4))
  have dir: "okay (rename_directory n E (Own old) (Own q) r (s\<lparr>world := w\<rparr>)) (\<lambda>x. okay ((\<lambda>(ret, r, s).
      Ret (if ret = -1 then -1 else 0, r, s)) x) Q)" for n q w
    using assms(1-3) by (intro okay_rename_directory_flat assms(4)) (auto intro!: assms(5) simp: log_debug_def)
  show ?thesis
    unfolding dfs_rename_def Let_def
    using assms(1-3) regular dir
    by (auto intro!: okay_namei_timeout assms(5) split: option.split)
qed

section \<open>Properties\<close>



text \<open>
  At the level \<^verbatim>\<open>LOG_DEBUG\<close> every rename dereferences a null pointer: the trace in
  \<^verbatim>\<open>dfs_namei_timeout\<close> reads the inodes, for which \<^verbatim>\<open>dfs_rename\<close> passes NULL.
\<close>

theorem rename_debug_crash:
  assumes "log_debug s" shows "dfs_rename E old new r s = Stuck NullDeref"
proof -
  have "namei_attempt E old (junk_ino E) False x s = Stuck NullDeref" for x
    using assms by (auto simp: namei_attempt_def plain_def call_def log_debug_def split: prod.splits)
  then have "dfs_namei_timeout E old (junk_ino E) False x s = Stuck NullDeref" for x
    unfolding dfs_namei_timeout_def by (subst retry.simps) simp
  then show ?thesis by (simp add: dfs_rename_def)
qed

theorem rename_debug_crash_witness:
  "dfs_rename (sample DPL_SUCCESS) ''/f'' ''/g'' ring0 (sample_open\<lparr>cfg := sample_conf\<lparr>log_level := 7\<rparr>\<rparr>) =
    Stuck NullDeref"
  by (rule rename_debug_crash) (simp add: log_debug_def LOG_DEBUG_def)

text \<open>
  Renaming a file answers 0 and leaves its entry alone when the store refuses to remove the old
  name: the file then exists under both names.
\<close>

theorem rename_keeps_source:
  assumes "heap_inv s" "\<not> log_debug s" "new \<noteq> ''.''"
    and "dfs_namei_timeout E old (junk_ino E) False (DPL_FTYPE_OTHER, junk_ino E) s = Ret (DPL_SUCCESS, (DPL_FTYPE_REG, i), s1)"
    and "status_code E DPL_SUCCESS = 0" "dfs_fcopy_timeout E old new s1 = Ret (DPL_SUCCESS, u, s2)"
    and "\<And>w. fst (fst (dpl_unlink E old w)) \<noteq> DPL_SUCCESS"
  shows "okay (dfs_rename E old new r s) (\<lambda>(ret, r', t). ret = 0 \<and> heap_inv t \<and> view t = view s)"
proof -
  have s1: "\<exists>w. s1 = s\<lparr>world := w\<rparr>"
    using okay_namei_timeout [of False s "\<lambda>(rc, y, t). \<exists>w. t = s\<lparr>world := w\<rparr>" E old "junk_ino E" "(DPL_FTYPE_OTHER, junk_ino E)"]
      assms(2,4) by auto
  have "\<exists>w. s2 = s1\<lparr>world := w\<rparr>"
    using okay_world_timeouts(5) [of "\<lambda>(rc, y, t). \<exists>w. t = s1\<lparr>world := w\<rparr>" s1 E old new] assms(6) by auto
  with s1 assms(1) have s2: "heap_inv s2" "view s2 = view s" by auto
  have refused: "okay (dfs_unlink_timeout E old t) (\<lambda>(rc, u, t'). rc \<noteq> DPL_SUCCESS \<and> (\<exists>w. t' = t\<lparr>world := w\<rparr>))" for t
    unfolding dfs_unlink_timeout_def
  proof (rule okay_retry [where P = "\<lambda>_ t'. \<exists>w. t' = t\<lparr>world := w\<rparr>"])
    fix x t' assume "\<exists>w. t' = t\<lparr>world := w\<rparr>"
    moreover have "rc \<noteq> DPL_SUCCESS" if "dpl_unlink E old v = ((rc, y), w)" for rc y v w
      using assms(7) [of v] that by simp
    ultimately show "okay (plain (dpl_unlink E old) x t') (\<lambda>(rc, y, u). if retry_enoent rc then \<exists>w. u = t\<lparr>world := w\<rparr>
        else (\<lambda>(rc, u, t'). rc \<noteq> DPL_SUCCESS \<and> (\<exists>w. t' = t\<lparr>world := w\<rparr>)) (rc, y, u))"
      by (auto simp: plain_def intro!: okay_call)
  qed (auto simp: retry_enoent_def intro: exI [of _ "world t"])
  have unlink: "okay (dfs_unlink E old t) (\<lambda>(ret, t'). ret = 1 \<and> (\<exists>w. t' = t\<lparr>world := w\<rparr>))" for t
    unfolding dfs_unlink_def okay_obind by (rule okay_mono [OF refused]) auto
  have "okay (rename_file E (Own old) (Own new) r s1) (\<lambda>(ret, r', t). ret = 1 \<and> heap_inv t \<and> view t = view s)"
    unfolding rename_file_def Let_def
    using assms(6) s2 by (auto intro!: okay_rename_dirent okay_mono [OF unlink])
  then show ?thesis
    unfolding dfs_rename_def Let_def
    using assms(3,4,5) by (auto elim!: okay_mono)
qed

theorem rename_keeps_source_witness:
  "okay (dfs_rename ((sample DPL_SUCCESS)\<lparr>dpl_unlink := \<lambda>p w. ((DPL_FAILURE, ()), w)\<rparr>) ''/f'' ''/g'' ring0 sample_open)
     (\<lambda>(ret, r', t). ret = 0 \<and> heap_inv t \<and> view t = view sample_open)"
proof (rule rename_keeps_source [where ?s1.0 = sample_open and ?s2.0 = sample_open and i = "''obj''" and u = "()"])
  let ?E = "(sample DPL_SUCCESS)\<lparr>dpl_unlink := \<lambda>p w. ((DPL_FAILURE, ()), w)\<rparr>"
  have quiet: "\<not> log_debug (sample_open\<lparr>world := w\<rparr>)" for w by (simp add: log_debug_def LOG_DEBUG_def sample_open_def sample_conf_def)
  show "dfs_namei_timeout ?E ''/f'' (junk_ino ?E) False (DPL_FTYPE_OTHER, junk_ino ?E) sample_open =
      Ret (DPL_SUCCESS, (DPL_FTYPE_REG, ''obj''), sample_open)"
    by (intro namei_r.success) (simp add: namei_attempt_def plain_def call_def quiet)
  show "dfs_fcopy_timeout ?E ''/f'' ''/g'' sample_open = Ret (DPL_SUCCESS, (), sample_open)"
    by (intro fcopy_r.success) (simp add: plain_def call_def)
  show "\<not> log_debug sample_open" by (simp add: log_debug_def LOG_DEBUG_def sample_open_def sample_conf_def)
qed simp_all

text \<open>A store with the directory \<^verbatim>\<open>/d\<close>, which holds the directory \<^verbatim>\<open>s\<close>, which holds \<open>n\<close> files; the world counts
  the entries that were read.\<close>

definition nested :: "nat \<Rightarrow> (nat, sample_dict) env" where
  "nested n = (sample DPL_SUCCESS)\<lparr>
     dpl_readdir := \<lambda>h w. if w = 0 then (Some ''s/'', 1)
       else if w \<le> n then (Some (CHR ''f'' # replicate w (CHR ''x'')), Suc w) else (None, w),
     dpl_namei := \<lambda>p i w. ((DPL_SUCCESS, if p = ''/d'' \<or> p = ''/d/s'' then DPL_FTYPE_DIR else DPL_FTYPE_REG, ''obj''), w),
     loop_fuel := 20\<rparr>"

text \<open>A short string is printed whole.\<close>

lemma tmpstr_fit_short [code]: "tmpstr_fit str = (if length str \<le> 32 then str else take 2047 str)"
  by (simp add: tmpstr_fit_def TMPSTR_MAX_def)

definition answer :: "(int \<times> 'a) outcome \<Rightarrow> halt + int" where
  "answer m = (case m of Ret x \<Rightarrow> Inr (fst x) | Stuck h \<Rightarrow> Inl h)"


end
