(* ===== verification/Machine.thy ===== *)
theory Machine
  imports Rename Gc
begin

text \<open>
  What a mounted file system does, without its heap: an abstract machine over the view and the handles that FUSE keeps.
  A request moves the machine as the specifications of the handlers say; \<open>Lifecycle\<close> proves that every handler
  implements its move. The invariants of open files are proved here, once for all handlers.
\<close>

section \<open>Requests and handles\<close>

type_synonym handle = "addr \<times> u32 \<times> string"

datatype request =
    Getattr string
  | Mkdir string
  | Mknod string
  | Rmdir string
  | Opendir string
  | Readdir string
  | Readlink string string
  | Symlink string string
  | Unlink string
  | Rename string string
  | Open string u32
  | Create string u32 u32
  | Read nat nat int
  | Write nat "byte list" int
  | Fsync string bool
  | Release nat
  | Collect

text \<open>What the view of a state with a sound heap has.\<close>

definition view_ok :: "view \<Rightarrow> bool" where
  "view_ok v \<longleftrightarrow> NULL \<notin> v_ent v \<and> (\<forall>k a. v_tbl v k = Some a \<longrightarrow> a \<in> v_ent v) \<and>
     (\<forall>k l a. v_tbl v k = Some a \<longrightarrow> v_tbl v l = Some a \<longrightarrow> k = l)"

lemma heap_inv_view_ok: "heap_inv s \<Longrightarrow> view_ok (view s)"
  unfolding view_ok_def using heap_inv_not_null heap_inv_tbl_ent heap_inv_tbl_inj by metis

lemma view_okD:
  assumes "view_ok v" "v_tbl v k = Some a"
  shows "a \<in> v_ent v" "a \<noteq> NULL" "v_tbl v l = Some a \<Longrightarrow> l = k"
  using assms unfolding view_ok_def by metis+

section \<open>The machine\<close>

text \<open>The requests that may leave everything as it is.\<close>

fun idle :: "handle list \<Rightarrow> request \<Rightarrow> bool" where
  "idle hs (Open p flags) \<longleftrightarrow> False"
| "idle hs (Create p mode flags) \<longleftrightarrow> False"
| "idle hs (Release i) \<longleftrightarrow> length hs \<le> i"
| "idle hs (Rename p q) \<longleftrightarrow> False"
| "idle hs Collect \<longleftrightarrow> False"
| "idle hs r \<longleftrightarrow> True"

inductive move ::
  "('w, 'd) env \<Rightarrow> request \<Rightarrow> handle list \<Rightarrow> view \<Rightarrow> int \<Rightarrow> handle list \<Rightarrow> view \<Rightarrow> bool" for E
where
  move_idle: "idle hs r \<Longrightarrow> move E r hs v x hs v"
| move_enter: "r = Getattr p \<or> r = Opendir p \<Longrightarrow> entry_for p a v w \<Longrightarrow> move E r hs v x hs w"
| move_open: "open_post E p flags v x a w \<Longrightarrow>
    move E (Open p flags) hs v x (if x = 0 then (a, flags, p) # hs else hs) w"
| move_create: "pthreads_ok E \<Longrightarrow> create_post E p flags v x a w \<Longrightarrow>
    move E (Create p mode flags) hs v x (if x = 0 then (a, flags, p) # hs else hs) w"
| move_release: "i < length hs \<Longrightarrow> hs ! i = (a, flags, p) \<Longrightarrow> release_post flags v a x w \<Longrightarrow>
    move E (Release i) hs v x (take i hs @ drop (Suc i) hs) w"
| move_unlink: "\<forall>(a, flags, q) \<in> set hs. q \<noteq> p \<Longrightarrow> move E (Unlink p) hs v 0 hs (v_drop p v)"
| move_rename: "shrinks v w \<Longrightarrow> move E (Rename p q) [] v x [] w"
| move_collect: "gc_keeps v w \<Longrightarrow> move E Collect hs v x hs w"

inductive_simps move_Release: "move E (Release i) hs v x hs' w"

section \<open>Open files stay valid\<close>

text \<open>
  Every handle is the address of the entry of its path, and an entry has at least as many references as
  it has handles.
\<close>

definition handles_ok :: "handle list \<Rightarrow> view \<Rightarrow> bool" where
  "handles_ok hs v \<longleftrightarrow> (\<forall>(a, flags, p) \<in> set hs. v_tbl v p = Some a \<and> a \<in> v_ent v \<and>
     count_list (map fst hs) a \<le> v_ref v a)"

lemma handles_ok_Nil [simp]: "handles_ok [] v"
  by (simp add: handles_ok_def)

lemma handles_okD:
  assumes "handles_ok hs v" "(a, flags, p) \<in> set hs"
  shows "v_tbl v p = Some a" "a \<in> v_ent v" "count_list (map fst hs) a \<le> v_ref v a" "v_ref v a \<noteq> 0"
proof -
  show 1: "v_tbl v p = Some a" "a \<in> v_ent v" "count_list (map fst hs) a \<le> v_ref v a"
    using assms by (auto simp: handles_ok_def)
  have "a \<in> set (map fst hs)" using assms(2) by force
  then have "count_list (map fst hs) a \<noteq> 0" by (simp only: count_list_0_iff not_not)
  then show "v_ref v a \<noteq> 0" using 1(3) by linarith
qed

lemma handles_ok_mono:
  assumes "handles_ok hs v"
    and "\<And>a flags p. (a, flags, p) \<in> set hs \<Longrightarrow> v_tbl w p = v_tbl v p \<and> (a \<in> v_ent v \<longrightarrow> a \<in> v_ent w) \<and> v_ref v a \<le> v_ref w a"
  shows "handles_ok hs w"
proof -
  have "v_tbl w p = Some a \<and> a \<in> v_ent w \<and> count_list (map fst hs) a \<le> v_ref w a" if h: "(a, flags, p) \<in> set hs" for a flags p
    using handles_okD(1-3) [OF assms(1) h] assms(2) [OF h] by auto
  then show ?thesis by (auto simp: handles_ok_def)
qed

text \<open>A handle whose entry is locked: any that is not opened for reading. At most one handle of an entry is.\<close>

definition writes :: "handle \<Rightarrow> bool" where
  "writes h \<longleftrightarrow> (case h of (a, flags, p) \<Rightarrow> get_mode_from_flags flags \<noteq> MODE_RDONLY)"

definition writers_ok :: "handle list \<Rightarrow> view \<Rightarrow> bool" where
  "writers_ok hs v \<longleftrightarrow> distinct (map fst (filter writes hs)) \<and> (\<forall>h\<in>set hs. writes h \<longrightarrow> v_lock v (fst h))"

lemma writers_ok_mono:
  assumes "writers_ok hs v" "\<And>a flags p. (a, flags, p) \<in> set hs \<Longrightarrow> v_lock w a = v_lock v a"
  shows "writers_ok hs w"
  using assms by (fastforce simp: writers_ok_def)

text \<open>
  The contract that most operations share: a change of the view that keeps the entry of every path that is referenced,
  with its references and its lock, and the configuration. Such a change keeps every handle. Some operations
  keep the whole table.
\<close>

locale keeper =
  fixes R :: "view \<Rightarrow> view \<Rightarrow> bool"
  assumes kept: "R v w \<Longrightarrow> v_tbl v k = Some a \<Longrightarrow> a \<in> v_ent v \<Longrightarrow> v_ref v a \<noteq> 0 \<Longrightarrow>
      v_tbl w k = Some a \<and> a \<in> v_ent w \<and> v_ref v a \<le> v_ref w a \<and> v_lock w a = v_lock v a"
    and kept_cfg: "R v w \<Longrightarrow> v_cfg w = v_cfg v"
begin

lemma handles:
  assumes "handles_ok hs v" "R v w" shows "handles_ok hs w"
proof (rule handles_ok_mono [OF assms(1)])
  fix a flags p assume h: "(a, flags, p) \<in> set hs"
  show "v_tbl w p = v_tbl v p \<and> (a \<in> v_ent v \<longrightarrow> a \<in> v_ent w) \<and> v_ref v a \<le> v_ref w a"
    using handles_okD [OF assms(1) h] kept [OF assms(2), of p a] by simp
qed

lemma writers:
  assumes "writers_ok hs v" "handles_ok hs v" "R v w" shows "writers_ok hs w"
proof (rule writers_ok_mono [OF assms(1)])
  fix a flags p assume h: "(a, flags, p) \<in> set hs"
  show "v_lock w a = v_lock v a" using handles_okD [OF assms(2) h] kept [OF assms(3), of p a] by simp
qed

end

locale table_keeper = keeper R for R :: "view \<Rightarrow> view \<Rightarrow> bool" +
  assumes kept_tbl: "R v w \<Longrightarrow> v_tbl v \<subseteq>\<^sub>m v_tbl w"
begin

lemma pinned: "K \<subseteq>\<^sub>m v_tbl v \<Longrightarrow> R v w \<Longrightarrow> K \<subseteq>\<^sub>m v_tbl w"
  using kept_tbl map_le_trans by blast

end

interpretation entry: table_keeper "entry_for p a"
  by unfold_locales (auto simp: entry_for_def map_le_def)

interpretation grown: table_keeper grown
  by unfold_locales (simp_all add: grown_sel)

interpretation collected: keeper "\<lambda>v w. gc_keeps v w \<and> view_ok w"
  by unfold_locales (simp_all add: gc_keeps_def view_ok_def, blast)

interpretation referenced: table_keeper "\<lambda>v w. w = v_setref a (Suc (v_ref v a)) v"
  by unfold_locales auto

lemma handles_ok_drop:
  assumes "handles_ok hs v" "view_ok v" "\<forall>(a, flags, q) \<in> set hs. q \<noteq> p"
  shows "handles_ok hs (v_drop p v)"
proof (rule handles_ok_mono [OF assms(1)])
  fix b flags q assume h: "(b, flags, q) \<in> set hs"
  have q: "q \<noteq> p" using assms(3) h by auto
  have "v_tbl v p \<noteq> Some b"
    using view_okD(3) [OF assms(2), of p b q] handles_okD(1) [OF assms(1) h] q by blast
  then show "v_tbl (v_drop p v) q = v_tbl v q \<and>
      (b \<in> v_ent v \<longrightarrow> b \<in> v_ent (v_drop p v)) \<and> v_ref v b \<le> v_ref (v_drop p v) b"
    using q by (auto simp: v_drop_def split: option.split)
qed

lemma handles_ok_Cons:
  assumes "handles_ok hs v" "v_tbl v p = Some a" "a \<in> v_ent v"
  shows "handles_ok ((a, flags, p) # hs) (v_setref a (Suc (v_ref v a)) v)"
proof -
  have "count_list (map fst hs) a \<le> v_ref v a"
  proof (cases "a \<in> fst ` set hs")
    case True
    then obtain flags q where "(a, flags, q) \<in> set hs" by auto
    then show ?thesis using handles_okD(3) [OF assms(1)] by blast
  next
    case False
    then have "count_list (map fst hs) a = 0" by (simp add: count_list_0_iff)
    then show ?thesis by simp
  qed
  then show ?thesis using assms by (fastforce simp: handles_ok_def)
qed


lemma count_list_remove_nth:
  assumes "i < length xs" shows "count_list xs y = count_list (take i xs @ drop (Suc i) xs) y + (if xs ! i = y then 1 else 0)"
  by (subst id_take_nth_drop [OF assms]) (simp add: count_list_append)

lemma handles_ok_close:
  assumes "handles_ok hs v" "i < length hs" "hs ! i = (a, flags, p)"
  shows "handles_ok (take i hs @ drop (Suc i) hs) (v_setref a (v_ref v a - 1) v)"
    and "handles_ok (take i hs @ drop (Suc i) hs) v"
proof -
  let ?hs = "take i hs @ drop (Suc i) hs"
  have n: "count_list (map fst hs) y = count_list (map fst ?hs) y + (if a = y then 1 else 0)" for y
    using count_list_remove_nth [of i "map fst hs" y] assms(2,3) by (simp add: take_map drop_map)
  have sub: "set ?hs \<subseteq> set hs" using set_take_subset set_drop_subset by fastforce
  have "v_tbl v q = Some b \<and> b \<in> v_ent v \<and> count_list (map fst ?hs) b \<le> (if a = b then v_ref v b - 1 else v_ref v b)"
    if h: "(b, g, q) \<in> set ?hs" for b g q
    using handles_okD(1-3) [OF assms(1), of b g q] h sub n [of b] by auto
  then show "handles_ok ?hs (v_setref a (v_ref v a - 1) v)" "handles_ok ?hs v"
    unfolding handles_ok_def v_sel by (fastforce split: if_splits)+
qed


lemma handles_ok_setlock [simp]: "handles_ok hs (v_setlock a b v) \<longleftrightarrow> handles_ok hs v"
  by (simp add: handles_ok_def)

section \<open>One move\<close>

text \<open>Opening. The steps are those of \<open>open_post\<close>: find the entry, count the reference, take the lock.\<close>

lemma open_post_cases:
  assumes "open_post E p flags v ret a w" "view_ok v"
  obtains (none) "a = NULL" "ret = -1" "w = v"
  | (failed) v1 where "a \<noteq> NULL" "entry_for p a v v1" "ret = -1" "\<not> pthreads_ok E" "w = v1"
  | (reader) v1 where "a \<noteq> NULL" "entry_for p a v v1" "v_tbl v1 p = Some a" "a \<in> v_ent v1" "\<not> writes (a, flags, p)"
      "grown (v_setref a (Suc (v_ref v1 a)) v1) w"
  | (writer) v1 where "a \<noteq> NULL" "entry_for p a v v1" "v_tbl v1 p = Some a" "a \<in> v_ent v1" "\<not> v_lock v1 a"
      "grown (v_setlock a True (v_setref a (Suc (v_ref v1 a)) v1)) w"
proof (cases "a = NULL")
  case True
  then show thesis using assms(1) none by (auto simp: open_post_def)
next
  case False
  then obtain v1 where v1: "entry_for p a v v1" and
    w: "ret = -1 \<and> \<not> pthreads_ok E \<and> w = v1 \<or>
      \<not> writes (a, flags, p) \<and> grown (v_setref a (Suc (v_ref v1 a)) v1) w \<or>
      \<not> v_lock v1 a \<and> grown (v_setlock a True (v_setref a (Suc (v_ref v1 a)) v1)) w"
    using assms(1) by (auto simp: open_post_def writes_def)
  have "v_tbl v1 p = Some a" "a \<in> v_ent v1"
    using v1 view_okD(1) [OF assms(2)] by (auto simp: entry_for_def)
  then show thesis using False v1 w failed reader writer by blast
qed

lemma open_handles:
  assumes "handles_ok hs v" "view_ok v" "open_post E p flags v ret a w" "x = 0 \<Longrightarrow> ret = 0 \<or> a \<noteq> NULL \<and> pthreads_ok E"
  shows "handles_ok (if x = 0 then (a, flags, p) # hs else hs) w"
  using assms(3,2)
proof (cases rule: open_post_cases)
  case none
  then show ?thesis using assms(1,4) by auto
next
  case (failed v1)
  then show ?thesis using assms(4) entry.handles [OF assms(1)] by auto
next
  case (reader v1)
  have hs: "handles_ok hs v1" by (rule entry.handles [OF assms(1) reader(2)])
  have "handles_ok hs (v_setref a (Suc (v_ref v1 a)) v1)" by (rule referenced.handles [OF hs refl])
  then show ?thesis
    using grown.handles [OF _ reader(6)] handles_ok_Cons [OF hs reader(3,4)] by simp
next
  case (writer v1)
  have hs: "handles_ok hs v1" by (rule entry.handles [OF assms(1) writer(2)])
  have "handles_ok hs (v_setref a (Suc (v_ref v1 a)) v1)" by (rule referenced.handles [OF hs refl])
  then show ?thesis
    using grown.handles [OF _ writer(6)] handles_ok_Cons [OF hs writer(3,4)] by simp
qed

lemma open_table:
  assumes "open_post E p flags v ret a w" "view_ok v" shows "v_tbl v \<subseteq>\<^sub>m v_tbl w" "v_cfg w = v_cfg v"
proof -
  have e: "v_tbl v \<subseteq>\<^sub>m v_tbl v1 \<and> v_cfg v1 = v_cfg v" if "entry_for p a v v1" for v1
    using entry.kept_tbl entry.kept_cfg that by blast
  have "v_tbl v \<subseteq>\<^sub>m v_tbl w \<and> v_cfg w = v_cfg v"
    using assms by (cases rule: open_post_cases) (use e in \<open>auto simp: grown_sel\<close>)
  then show "v_tbl v \<subseteq>\<^sub>m v_tbl w" "v_cfg w = v_cfg v" by simp_all
qed

lemma create_opened:
  assumes "create_post E p flags v x a w" "pthreads_ok E"
  obtains "a = NULL" "x = -1" "w = v" | ret where "a \<noteq> NULL" "open_post E p flags v ret a w"
  using assms by (auto simp: create_post_def split: if_splits)

lemma create_handles:
  assumes "handles_ok hs v" "view_ok v" "create_post E p flags v x a w" "pthreads_ok E"
  shows "handles_ok (if x = 0 then (a, flags, p) # hs else hs) w"
  using assms(3,4)
proof (cases rule: create_opened)
  case 1
  then show ?thesis using assms(1) by simp
next
  case (2 ret)
  then show ?thesis using open_handles [OF assms(1,2) 2(2), of x] assms(4) by blast
qed

lemma release_facts:
  assumes "release_post flags v a x w"
  shows "v_tbl w = v_tbl v" "v_cfg w = v_cfg v"
  using assms by (auto simp: release_post_def unlocked_def Let_def split: if_splits)

lemma release_handles:
  assumes "handles_ok hs v" "i < length hs" "hs ! i = (a, flags, p)" "release_post flags v a x w"
  shows "handles_ok (take i hs @ drop (Suc i) hs) w"
  using handles_ok_close [OF assms(1-3)] assms(4)
  by (auto simp: release_post_def unlocked_def Let_def split: if_splits)

text \<open>The requests that may take an entry out of the table.\<close>

fun removes :: "request \<Rightarrow> bool" where
  "removes (Unlink p) \<longleftrightarrow> True"
| "removes (Rename p q) \<longleftrightarrow> True"
| "removes Collect \<longleftrightarrow> True"
| "removes r \<longleftrightarrow> False"

text \<open>The handles, the configuration and, for a request that removes nothing, the table.\<close>

lemma move_handles:
  assumes "move E r hs v x hs' w" "view_ok v" "view_ok w" "handles_ok hs v"
  shows "handles_ok hs' w"
  using assms
proof (cases rule: move.cases)
  case (move_open p flags a)
  then show ?thesis using open_handles [OF assms(4,2) move_open(3), of x] by simp
next
  case (move_create p flags a mode)
  then show ?thesis using create_handles [OF assms(4,2) move_create(4,3)] by simp
next
  case move_collect
  then show ?thesis using collected.handles assms(3,4) by blast
qed (use assms(2-4) in \<open>auto intro: entry.handles release_handles handles_ok_drop\<close>)


lemma move_table:
  assumes "move E r hs v x hs' w" "view_ok v"
  shows "v_cfg w = v_cfg v" and "\<not> removes r \<Longrightarrow> v_tbl v \<subseteq>\<^sub>m v_tbl w"
proof -
  have drop: "v_cfg (v_drop p v) = v_cfg v" for p by (simp add: v_drop_def v_free_def split: option.split)
  show "v_cfg w = v_cfg v"
    using assms
    by (cases rule: move.cases)
      (auto simp: entry.kept_cfg open_table(2) release_facts drop shrinks_def gc_keeps_def elim: create_opened)
  show "v_tbl v \<subseteq>\<^sub>m v_tbl w" if "\<not> removes r"
    using assms
    by (cases rule: move.cases)
      (use that in \<open>auto simp: entry.kept_tbl open_table(1) release_facts elim: create_opened\<close>)
qed


section \<open>Writers exclude each other\<close>

text \<open>
  A release that answers an error unlocks the entry whatever its handle was opened for; the release of a reader
  is orderly when it answers 0.
\<close>

definition orderly :: "handle list \<Rightarrow> request \<Rightarrow> int \<Rightarrow> bool" where
  "orderly hs r x \<longleftrightarrow> (case r of Release i \<Rightarrow> i < length hs \<longrightarrow> writes (hs ! i) \<or> x = 0 | _ \<Rightarrow> True)"

lemma writers_ok_Nil [simp]: "writers_ok [] v"
  by (simp add: writers_ok_def)

lemma writers_ok_reader: "\<not> writes h \<Longrightarrow> writers_ok (h # hs) v \<longleftrightarrow> writers_ok hs v"
  by (simp add: writers_ok_def)

lemma writers_ok_writer:
  assumes "writers_ok hs v" "\<not> v_lock v a" "v_lock w = (v_lock v)(a := True)"
  shows "writers_ok ((a, flags, p) # hs) w" "writers_ok hs w"
proof -
  have "fst h \<noteq> a" if "h \<in> set hs" "writes h" for h using that assms(1,2) by (auto simp: writers_ok_def)
  then show "writers_ok ((a, flags, p) # hs) w" "writers_ok hs w"
    using assms(1,3) by (auto simp: writers_ok_def)
qed

lemma writers_ok_close:
  assumes "writers_ok hs v" "i < length hs" "hs ! i = (a, flags, p)"
    and "\<And>b. v_lock w b \<noteq> v_lock v b \<Longrightarrow> b = a \<and> writes (a, flags, p)"
  shows "writers_ok (take i hs @ drop (Suc i) hs) w"
proof -
  define l r where "l = take i hs" and "r = drop (Suc i) hs"
  have hs: "hs = l @ (a, flags, p) # r" using id_take_nth_drop [OF assms(2)] assms(3) by (simp add: l_def r_def)
  have other: "fst h \<noteq> a" if "h \<in> set (l @ r)" "writes h" "writes (a, flags, p)" for h
    using assms(1) that unfolding hs by (auto simp: writers_ok_def)
  have "v_lock w (fst h)" if h: "h \<in> set (l @ r)" "writes h" for h
  proof -
    have "v_lock v (fst h)" using assms(1) h unfolding hs by (auto simp: writers_ok_def)
    then show ?thesis using assms(4) [of "fst h"] other h by blast
  qed
  moreover have "distinct (map fst (filter writes (l @ r)))"
    using assms(1) unfolding hs by (auto simp: writers_ok_def split: if_splits)
  ultimately show ?thesis unfolding writers_ok_def l_def r_def by blast
qed

lemma open_writers:
  assumes "writers_ok hs v" "handles_ok hs v" "view_ok v" "open_post E p flags v ret a w"
    and "x = 0 \<Longrightarrow> ret = 0 \<or> a \<noteq> NULL \<and> pthreads_ok E"
  shows "writers_ok (if x = 0 then (a, flags, p) # hs else hs) w"
  using assms(4,3)
proof (cases rule: open_post_cases)
  case none
  then show ?thesis using assms(1,5) by auto
next
  case (failed v1)
  then show ?thesis using assms(5) entry.writers [OF assms(1,2)] by auto
next
  case (reader v1)
  have "writers_ok hs v1" by (rule entry.writers [OF assms(1,2) reader(2)])
  then have "writers_ok hs w" by (rule writers_ok_mono) (simp add: grown_sel(4) [OF reader(6)])
  then show ?thesis using reader(5) by (simp add: writers_ok_reader)
next
  case (writer v1)
  have "writers_ok hs v1" by (rule entry.writers [OF assms(1,2) writer(2)])
  from writers_ok_writer [OF this writer(5), of w] show ?thesis by (simp add: grown_sel(4) [OF writer(6)])
qed

lemma release_writers:
  assumes "writers_ok hs v" "i < length hs" "hs ! i = (a, flags, p)" "release_post flags v a x w"
    and "orderly hs (Release i) x"
  shows "writers_ok (take i hs @ drop (Suc i) hs) w"
proof (rule writers_ok_close [OF assms(1-3)])
  have "writes (a, flags, p) \<or> x = 0 \<and> flags AND O_ACCMODE = O_RDONLY"
    using assms(2,3,5) by (auto simp: orderly_def writes_def get_mode_from_flags_def split: if_splits)
  then show "b = a \<and> writes (a, flags, p)" if "v_lock w b \<noteq> v_lock v b" for b
    using assms(4) that by (auto simp: release_post_def unlocked_def Let_def split: if_splits)
qed

lemma move_writers:
  assumes "move E r hs v x hs' w" "view_ok v" "view_ok w" "handles_ok hs v" "writers_ok hs v" "orderly hs r x"
  shows "writers_ok hs' w"
  using assms
proof (cases rule: move.cases)
  case (move_open p flags a)
  then show ?thesis using open_writers [OF assms(5,4,2) move_open(3), of x] by simp
next
  case (move_create p flags a mode)
  then show ?thesis
    using open_writers [OF assms(5,4,2), of E p flags _ a w x] assms(5) by (auto elim!: create_opened split: if_splits)
next
  case move_collect
  then show ?thesis using collected.writers assms(3-5) by blast
next
  case (move_unlink p)
  have "v_lock (v_drop p v) a = v_lock v a" if h: "(a, flags, q) \<in> set hs" for a flags q
  proof -
    have "v_tbl v q = Some a" "q \<noteq> p" using handles_okD(1) [OF assms(4) h] move_unlink h by auto
    then have "v_tbl v p \<noteq> Some a" using view_okD(3) [OF assms(2)] by blast
    then show ?thesis by (simp add: v_drop_def split: option.split)
  qed
  then show ?thesis using writers_ok_mono [OF assms(5)] move_unlink by auto
qed (use assms(4-6) in \<open>auto intro: entry.writers release_writers\<close>)

section \<open>Runs\<close>

text \<open>A sequence of requests with their answers. A run is tidy when no release answers an error.\<close>

inductive run ::
  "('w, 'd) env \<Rightarrow> handle list \<Rightarrow> view \<Rightarrow> (request \<times> int) list \<Rightarrow> handle list \<Rightarrow> view \<Rightarrow> bool" for E
where
  run_Nil: "run E hs v [] hs v"
| run_step: "run E hs v rs hs' w \<Longrightarrow> move E r hs' w x hs'' u \<Longrightarrow> view_ok u \<Longrightarrow> run E hs v (rs @ [(r, x)]) hs'' u"

fun tidy :: "request \<times> int \<Rightarrow> bool" where
  "tidy (Release i, x) \<longleftrightarrow> x = 0"
| "tidy (r, x) \<longleftrightarrow> True"

lemma tidy_orderly: "tidy (r, x) \<Longrightarrow> orderly hs r x"
  by (cases r) (simp_all add: orderly_def)

lemma run_handles:
  assumes "run E hs v rs hs' w" "view_ok v" "handles_ok hs v"
  shows "view_ok w \<and> handles_ok hs' w \<and> v_cfg w = v_cfg v"
  using assms
proof (induction rule: run.induct)
  case (run_step hs v rs hs' w r x hs'' u)
  then show ?case using move_handles [OF run_step.hyps(2)] move_table(1) [OF run_step.hyps(2)] by auto
qed simp

lemma run_writers:
  assumes "run E hs v rs hs' w" "view_ok v" "handles_ok hs v" "writers_ok hs v" "list_all tidy rs"
  shows "writers_ok hs' w"
  using assms
proof (induction rule: run.induct)
  case (run_step hs v rs hs' w r x hs'' u)
  then show ?case
    using move_writers [OF run_step.hyps(2)] run_handles [OF run_step.hyps(1)] tidy_orderly by auto
qed

end
