(* ===== verification/Io.thy ===== *)
theory Io
  imports Dirops
begin

text \<open>
  The handlers that work on an open file or on nothing: \<^verbatim>\<open>read.c\<close>, \<^verbatim>\<open>write.c\<close>,
  \<^verbatim>\<open>fsync.c\<close>, \<^verbatim>\<open>statfs.c\<close>, \<^verbatim>\<open>setxattr.c\<close>, \<^verbatim>\<open>chmod.c\<close>, \<^verbatim>\<open>chown.c\<close>,
  the empty handlers of \<^verbatim>\<open>dropletfs.c\<close>, and \<^verbatim>\<open>utils.c\<close>. A handle is the address of an
  entry, as \<^verbatim>\<open>dfs_open\<close> stored it in \<^verbatim>\<open>info->fh\<close>. FUSE asks for sizes that fit in an
  \<^verbatim>\<open>int\<close>, so a byte count is not cut.
\<close>

section \<open>Open files\<close>

definition dfs_read ::
  "('w, 'd) env \<Rightarrow> addr \<Rightarrow> nat \<Rightarrow> int \<Rightarrow> ('w, 'd) state \<Rightarrow> (int \<times> byte list \<times> ('w, 'd) state) outcome"
where
  "dfs_read E fh n off s =
     obind (pentry_get_fd fh s) (\<lambda>f.
     if f < 0 then Ret (- EBADFD, [], s)
     else call (s_pread E f n off) s (\<lambda>r s.
       case r of Inl e \<Rightarrow> Ret (- e, [], s) | Inr bs \<Rightarrow> Ret (int (length bs), bs, s)))"

definition dfs_write ::
  "('w, 'd) env \<Rightarrow> addr \<Rightarrow> byte list \<Rightarrow> int \<Rightarrow> ('w, 'd) state \<Rightarrow> (int \<times> ('w, 'd) state) outcome"
where
  "dfs_write E fh bs off s =
     obind (pentry_get_fd fh s) (\<lambda>f.
     if f < 0 then Ret (EBADF, s)
     else call (s_pwrite E f bs off) s (\<lambda>r s.
       case r of Inl e \<Rightarrow> Ret (- e, s) | Inr n \<Rightarrow> Ret (int n, s)))"

text \<open>With \<open>issync\<close> nothing is synchronised.\<close>

definition dfs_fsync ::
  "('w, 'd) env \<Rightarrow> string \<Rightarrow> bool \<Rightarrow> ('w, 'd) state \<Rightarrow> (int \<times> ('w, 'd) state) outcome"
where
  "dfs_fsync E pth issync s =
     (let pe = g_hash_table_lookup pth s in
      if pe = NULL then Ret (0, s)
      else obind (pentry_get_fd pe s) (\<lambda>f.
        if f < 0 then Ret (0, s)
        else if issync then Ret (0, s)
        else call (s_fsync E f) s (\<lambda>r s. case r of Inl e \<Rightarrow> Ret (- e, s) | Inr u \<Rightarrow> Ret (0, s))))"

section \<open>Handlers without a state\<close>

record statvfs =
  f_flag :: u64
  f_namemax :: u64
  f_bsize :: u64
  f_frsize :: u64
  f_blocks :: u64
  f_bfree :: u64
  f_bavail :: u64
  f_files :: u64
  f_ffree :: u64

definition dfs_statfs :: "statvfs \<Rightarrow> int \<times> statvfs" where
  "dfs_statfs buf =
     (let buf = buf\<lparr>f_flag := 1, f_namemax := 255, f_bsize := 4096, f_frsize := 4096\<rparr>;
          n = 1000 * 1024 div f_frsize buf
      in (0, buf\<lparr>f_blocks := n, f_bfree := n, f_bavail := n, f_files := 1000000000, f_ffree := 1000000000\<rparr>))"

text \<open>\<^verbatim>\<open>dfs_chmod\<close> and \<^verbatim>\<open>dfs_chown\<close> return before their bodies.\<close>

definition dfs_setxattr :: int where "dfs_setxattr = 0"
definition dfs_chmod :: int where "dfs_chmod = 0"
definition dfs_chown :: int where "dfs_chown = 0"

text \<open>The operations that \<^verbatim>\<open>dropletfs.c\<close> accepts without doing anything.\<close>

definition dfs_getxattr :: int where "dfs_getxattr = 0"
definition dfs_listxattr :: int where "dfs_listxattr = 0"
definition dfs_removexattr :: int where "dfs_removexattr = 0"
definition dfs_flush :: int where "dfs_flush = 0"
definition dfs_truncate :: int where "dfs_truncate = 0"
definition dfs_utime :: int where "dfs_utime = 0"
definition dfs_releasedir :: int where "dfs_releasedir = 0"
definition dfs_fsyncdir :: int where "dfs_fsyncdir = 0"
definition dfs_access :: int where "dfs_access = 0"
definition dfs_ftruncate :: int where "dfs_ftruncate = 0"
definition dfs_lock :: int where "dfs_lock = 0"
definition dfs_utimens :: int where "dfs_utimens = 0"
definition dfs_bmap :: int where "dfs_bmap = 0"

section \<open>Durations\<close>

record timeval =
  tv_sec :: int
  tv_usec :: int

definition time_diff :: "timeval \<Rightarrow> timeval \<Rightarrow> int" where
  "time_diff start end' =
     (let start64 = word_of_int (tv_sec start * 1000000 + tv_usec start) :: u64;
          end64 = word_of_int (tv_sec end' * 1000000 + tv_usec end') :: u64
      in sint (ucast ((end64 - start64) div 1000) :: u32))"

definition micros :: "timeval \<Rightarrow> int" where
  "micros t = tv_sec t * 1000000 + tv_usec t"

section \<open>Rules\<close>

lemma okay_io [okay_rule]:
  assumes "heap_inv s" "fh \<in> v_ent (view s)"
  shows "(\<And>r bs s'. heap_inv s' \<Longrightarrow> view s' = view s \<Longrightarrow> R (r, bs, s')) \<Longrightarrow> okay (dfs_read E fh n off s) R"
    and "(\<And>r s'. heap_inv s' \<Longrightarrow> view s' = view s \<Longrightarrow> Q (r, s')) \<Longrightarrow> okay (dfs_write E fh bs off s) Q"
  unfolding dfs_read_def dfs_write_def
  using assms by (auto intro!: okay_getters okay_call split: sum.split)

lemma okay_dfs_fsync [okay_rule]:
  assumes "heap_inv s" "\<And>r s'. heap_inv s' \<Longrightarrow> view s' = view s \<Longrightarrow> Q (r, s')"
  shows "okay (dfs_fsync E p sy s) Q"
  using assms(1)
  by (cases rule: lookup_cases [where k = p])
    (use assms in \<open>auto simp: dfs_fsync_def intro!: okay_getters okay_call split: sum.split\<close>)

section \<open>Properties\<close>

lemma time_diff_micros:
  "time_diff t u = sint (ucast ((word_of_int (micros u - micros t) :: u64) div 1000) :: u32)"
  by (simp add: time_diff_def micros_def Let_def)

lemma millis_word:
  assumes "0 \<le> d" "d div 1000 < 2 ^ 31"
  shows "sint (ucast ((word_of_int d :: u64) div 1000) :: u32) = d div 1000"
proof -
  have "uint ((word_of_int d :: u64) div 1000) = d div 1000"
    using assms by (simp add: uint_div uint_word_of_int take_bit_int_eq_self)
  then have "uint (ucast ((word_of_int d :: u64) div 1000) :: u32) = d div 1000"
    using assms by (simp add: unsigned_ucast_eq take_bit_int_eq_self)
  then show ?thesis
    using assms by (simp add: sint_uint signed_take_bit_int_eq_self)
qed

text \<open>
  \<^verbatim>\<open>time_diff\<close> is the number of whole milliseconds between its arguments when the second is
  not before the first and less than 2 ^ 31 milliseconds after it. A clock that went back by a microsecond
  gives what the unsigned difference leaves after the division and the cast: two weeks.
\<close>

theorem time_diff_correct:
  assumes "micros t \<le> micros u" "(micros u - micros t) div 1000 < 2 ^ 31"
  shows "time_diff t u = (micros u - micros t) div 1000 \<and>
    time_diff u (u\<lparr>tv_usec := tv_usec u - 1\<rparr>) = 1271310319"
proof
  show "time_diff t u = (micros u - micros t) div 1000"
    unfolding time_diff_micros using assms by (intro millis_word) simp_all
  have "micros (u\<lparr>tv_usec := tv_usec u - 1\<rparr>) - micros u = -1" by (simp add: micros_def)
  then show "time_diff u (u\<lparr>tv_usec := tv_usec u - 1\<rparr>) = 1271310319" by (simp add: time_diff_micros)
qed

theorem time_diff_correct_witness:
  "time_diff \<lparr>tv_sec = 10, tv_usec = 999000\<rparr> \<lparr>tv_sec = 12, tv_usec = 1500\<rparr> = 1002 \<and>
   time_diff \<lparr>tv_sec = 12, tv_usec = 1500\<rparr> \<lparr>tv_sec = 12, tv_usec = 1499\<rparr> = 1271310319"
  using time_diff_correct [of "\<lparr>tv_sec = 10, tv_usec = 999000\<rparr>" "\<lparr>tv_sec = 12, tv_usec = 1500\<rparr>"]
  by (simp add: micros_def)

end
