(* ===== verification/Cachedir.thy ===== *)
theory Cachedir
  imports Gc
begin

text \<open>
  \<^verbatim>\<open>src/cachedir.c\<close>: a thread walks over the table and pushes the entries that have not been
  looked at for a while to a pool of workers, each of which refreshes the metadata of an entry and, for a
  directory, of the entries below it. What is pushed is the address of the entry: it may be freed
  before a worker takes it. The pool of glib is the list of the addresses not yet taken.
\<close>

section \<open>The workers\<close>

text \<open>The argument \<^verbatim>\<open>pentry_get_path(pe)\<close> of a trace of some priority.\<close>

definition log_path :: "int \<Rightarrow> addr \<Rightarrow> ('w, 'd) state \<Rightarrow> unit outcome" where
  "log_path priority pe s = LOG priority s (obind (pentry_get_path pe s) (\<lambda>_. Ret ()))"

text \<open>The end of \<^verbatim>\<open>cb_map_dirents\<close> and of \<^verbatim>\<open>update_md\<close>, from the lock on.\<close>

definition store_md ::
  "('w, 'd) env \<Rightarrow> addr \<Rightarrow> addr \<Rightarrow> ('w, 'd) state \<Rightarrow> ('w, 'd) state outcome"
where
  "store_md E pe md s =
     obind (pentry_md_trylock E pe s) (\<lambda>(r, s).
     obind (if r \<noteq> 0 then Ret s
            else obind (if md \<noteq> NULL then obind (pentry_set_metadata E pe md s) (\<lambda>(_, s). Ret s) else Ret s) (\<lambda>s.
                 obind (pentry_set_atime E pe s) (\<lambda>s.
                 obind (pentry_md_unlock E pe s) (\<lambda>(_, s). Ret s)))) (\<lambda>s.
     dict_free_opt md s))"

definition cb_map_dirents ::
  "('w, 'd) env \<Rightarrow> addr \<Rightarrow> string \<Rightarrow> ('w, 'd) state \<Rightarrow> ('w, 'd) state outcome"
where
  "cb_map_dirents E pe pth s =
     obind (log_path LOG_DEBUG pe s) (\<lambda>_.
     let pe_dirent = g_hash_table_lookup pth s in
     if pe_dirent = NULL then obind (log_path LOG_ERR pe s) (\<lambda>_. Ret s)
     else obind (dfs_namei_timeout E pth (junk_ino E) True (DPL_FTYPE_OTHER, junk_ino E) s) (\<lambda>(rc, _, s).
       if rc \<noteq> DPL_SUCCESS then Ret s
       else obind (dfs_getattr_timeout E pth NULL s) (\<lambda>(rc, md, s).
         if rc \<noteq> DPL_SUCCESS \<and> rc \<noteq> DPL_EISDIR then dict_free_opt md s
         else store_md E pe_dirent md s)))"

text \<open>\<^verbatim>\<open>list_map\<close> on the list that \<open>dirent\<close> stands for. An entry without a path passes NULL on.\<close>

definition update_md ::
  "('w, 'd) env \<Rightarrow> addr \<Rightarrow> ('w, 'd) state \<Rightarrow> ('w, 'd) state outcome"
where
  "update_md E pe s =
     obind (pentry_get_path pe s) (\<lambda>p.
     case p of None \<Rightarrow> Stuck NullDeref
     | Some pth \<Rightarrow>
       obind (dfs_namei_timeout E pth (dpl_cwd E) False (DPL_FTYPE_OTHER, junk_ino E) s) (\<lambda>(rc, (ty, _), s).
       if rc \<noteq> DPL_SUCCESS then Ret s
       else obind (dfs_getattr_timeout E pth NULL s) (\<lambda>(rc, md, s).
         if rc \<noteq> DPL_SUCCESS \<and> rc \<noteq> DPL_EISDIR then dict_free_opt md s
         else obind (if ty = DPL_FTYPE_DIR
                     then obind (pentry_get_dirents pe s) (\<lambda>names. run_all (cb_map_dirents E pe) names s)
                     else Ret s) (\<lambda>s.
              store_md E pe md s))))"

section \<open>The walk\<close>

text \<open>\<^verbatim>\<open>total_size\<close>: a product of the 64-bit type \<^verbatim>\<open>size_t\<close>, cut to an \<^verbatim>\<open>int\<close>. \<open>psz\<close> is
  \<^verbatim>\<open>sizeof(struct pentry)\<close>, which the compiler chooses.\<close>

definition total_size :: "u64 \<Rightarrow> ('w, 'd) state \<Rightarrow> u32" where
  "total_size psz s = ucast (ucast (of_nat (length (hash s)) :: u32) * (psz + 64) :: u64)"

definition cachedir_callback ::
  "u64 \<Rightarrow> ('w, 'd) env \<Rightarrow> string \<times> addr \<Rightarrow> addr list \<times> ('w, 'd) state \<Rightarrow>
    (addr list \<times> ('w, 'd) state) outcome"
where
  "cachedir_callback psz E entry ps =
     (case entry of (pth, pe) \<Rightarrow> case ps of (pool, s) \<Rightarrow>
     call (s_time E) s (\<lambda>t s.
     obind (pentry_get_atime pe s) (\<lambda>at.
     let age = t - at in
     if sint (cache_max_size (cfg s)) < sint (total_size psz s) then Ret (pool, s)
     else if age < sint (sc_age_threshold (cfg s)) then Ret (pool, s)
     else Ret (pool @ [pe], s))))"

definition cachedir_walk ::
  "u64 \<Rightarrow> ('w, 'd) env \<Rightarrow> addr list \<times> ('w, 'd) state \<Rightarrow> (addr list \<times> ('w, 'd) state) outcome"
where
  "cachedir_walk psz E ps = run_all (cachedir_callback psz E) (hash (snd ps)) ps"

text \<open>The loop never ends; \<open>n\<close> is the number of its iterations. In this run the workers empty the
  pool while the thread sleeps.\<close>

fun cachedir_loop :: "nat \<Rightarrow> u64 \<Rightarrow> ('w, 'd) env \<Rightarrow> ('w, 'd) state \<Rightarrow> ('w, 'd) state outcome" where
  "cachedir_loop 0 psz E s = Stuck Diverges"
| "cachedir_loop (Suc n) psz E s =
     obind (cachedir_walk psz E ([], s)) (\<lambda>(pool, s).
     call (s_sleep E (sc_loop_delay (cfg s))) s (\<lambda>_ s.
     obind (run_all (update_md E) pool s) (cachedir_loop n psz E)))"

text \<open>\<open>pool_new\<close> says whether \<^verbatim>\<open>g_thread_pool_new\<close> leaves its error NULL.\<close>

definition thread_cachedir ::
  "nat \<Rightarrow> u64 \<Rightarrow> ('w \<Rightarrow> bool \<times> 'w) \<Rightarrow> ('w, 'd) env \<Rightarrow> ('w, 'd) state \<Rightarrow> ('w, 'd) state outcome"
where
  "thread_cachedir n psz pool_new E s =
     (if sc_loop_delay (cfg s) = 0 \<or> sc_age_threshold (cfg s) = 0 then Ret s
      else call pool_new s (\<lambda>ok s. if \<not> ok then Ret s else cachedir_loop n psz E s))"

section \<open>Rules\<close>

lemma okay_log_path [okay_rule]:
  "heap_inv s \<Longrightarrow> a \<in> v_ent (view s) \<Longrightarrow> Q () \<Longrightarrow> okay (log_path l a s) Q"
  unfolding log_path_def LOG_def by (auto intro!: okay_getters)

lemma okay_store_md [okay_rule]:
  assumes "heap_inv s" "pe \<in> v_ent v" "md = NULL \<and> view s = v \<or> md \<noteq> NULL \<and> md \<notin> v_loose v \<and> view s = v_own md v"
    and "\<And>s'. heap_inv s' \<Longrightarrow> view s' = v \<Longrightarrow> Q s'"
  shows "okay (store_md E pe md s) Q"
  using assms(3)
proof (elim disjE conjE)
  assume "md = NULL" "view s = v"
  then show ?thesis
    unfolding store_md_def using assms by (auto intro!: okay_md_mutex okay_setters simp: dict_free_opt_def)
next
  assume "md \<noteq> NULL" "md \<notin> v_loose v" "view s = v_own md v"
  then show ?thesis
    unfolding store_md_def using assms
    by (auto intro!: okay_md_mutex okay_setters okay_set_metadata okay_dict_free_opt)
qed

lemma okay_cb_map_dirents [okay_rule]:
  assumes "heap_inv s" "pe \<in> v_ent (view s)" "dpl_clean E"
    and "\<And>s'. heap_inv s' \<Longrightarrow> view s' = view s \<Longrightarrow> Q s'"
  shows "okay (cb_map_dirents E pe p s) Q"
  unfolding cb_map_dirents_def
  using assms(1)
  by (cases rule: lookup_cases [where k = p])
    (use assms in \<open>auto intro!: okay_log_path okay_namei_timeout okay_getattr_timeout
      okay_store_md [where v = "view s"] okay_dict_free_opt\<close>)

lemma okay_update_md [okay_rule]:
  assumes "heap_inv s" "pe \<in> v_ent (view s)" "v_path (view s) pe \<noteq> None" "dpl_clean E" "\<not> log_debug s"
    and "\<And>s'. heap_inv s' \<Longrightarrow> view s' = view s \<Longrightarrow> Q s'"
  shows "okay (update_md E pe s) Q"
proof -
  have run: "okay (run_all (cb_map_dirents E pe) names t) (\<lambda>u. okay (store_md E pe md u) Q)"
    if t: "heap_inv t" "md = NULL \<and> view t = view s \<or>
      md \<noteq> NULL \<and> md \<notin> v_loose (view s) \<and> view t = v_own md (view s)" for names t md
  proof (rule okay_mono [OF okay_run_all [where P = "\<lambda>u. heap_inv u \<and> view u = view t"]])
    have pe: "pe \<in> v_ent (view t)" using t(2) assms(2) by auto
    then show "okay (cb_map_dirents E pe n u) (\<lambda>u. heap_inv u \<and> view u = view t)"
      if "heap_inv u \<and> view u = view t" for n u
      using that assms(4) by (auto intro!: okay_cb_map_dirents)
    show "okay (store_md E pe md u) Q" if "heap_inv u \<and> view u = view t" for u
      using that t(2) assms(2,6) by (auto intro!: okay_store_md [where v = "view s"])
  qed (use t in simp)
  have p: "path q \<noteq> None" if "pes s pe = Some q" for q
    using assms(3) that by (simp add: view_simps path_of_def)
  show ?thesis
    unfolding update_md_def
    using assms(1,2,4,5,6)
    by (auto intro!: okay_getters okay_namei_timeout okay_getattr_timeout okay_dict_free_opt
        run okay_store_md [where v = "view s"] dest: p split: option.split)
qed

text \<open>A walk changes nothing and pushes only entries of the table, each once.\<close>

definition walk_post :: "view \<Rightarrow> addr list \<Rightarrow> view \<Rightarrow> bool" where
  "walk_post v pool w \<longleftrightarrow> w = v \<and> set pool \<subseteq> ran (v_tbl v)"

lemma okay_cachedir_callback [okay_rule]:
  assumes "heap_inv s" "v_tbl (view s) k = Some a"
    and "\<And>new s'. heap_inv s' \<Longrightarrow> view s' = view s \<Longrightarrow> set new \<subseteq> {a} \<Longrightarrow> Q (pool @ new, s')"
  shows "okay (cachedir_callback psz E (k, a) (pool, s)) Q"
proof -
  have a: "a \<in> v_ent (view s)" using assms(1,2) by (rule heap_inv_tbl_ent)
  have none: "Q (pool, s')" if "heap_inv s'" "view s' = view s" for s'
    using assms(3) [of s' "[]"] that by simp
  show ?thesis
    unfolding cachedir_callback_def Let_def
    using assms a by (auto intro!: okay_call okay_getters none)
qed

lemma okay_cachedir_walk [okay_rule]:
  assumes "heap_inv s"
    and "\<And>pool s'. heap_inv s' \<Longrightarrow> walk_post (view s) pool (view s') \<Longrightarrow> Q (pool, s')"
  shows "okay (cachedir_walk psz E ([], s)) Q"
  unfolding cachedir_walk_def
proof (rule okay_mono [OF okay_run_all
      [where P = "\<lambda>(pool, t). heap_inv t \<and> walk_post (view s) pool (view t)"]])
  show "okay (cachedir_callback psz E x pt) (\<lambda>(pool, t). heap_inv t \<and> walk_post (view s) pool (view t))"
    if x: "x \<in> set (hash (snd ([], s)))" and pt: "case pt of (pool, t) \<Rightarrow> heap_inv t \<and> walk_post (view s) pool (view t)"
    for x pt
  proof -
    obtain k a pool t where "x = (k, a)" "pt = (pool, t)" by (cases x, cases pt)
    moreover have "v_tbl (view s) k = Some a"
      using x assms(1) calculation by (simp add: heap_inv_def table_ok_def view_simps)
    moreover from this have "a \<in> ran (v_tbl (view s))" by (auto intro: ranI)
    ultimately show ?thesis
      using pt by (auto intro!: okay_cachedir_callback simp: walk_post_def)
  qed
qed (use assms in \<open>auto simp: walk_post_def\<close>)

lemma log_debug_view: "view t = view s \<Longrightarrow> log_debug t = log_debug s"
  by (metis log_debug_def view_simps(6))

definition all_paths :: "view \<Rightarrow> bool" where
  "all_paths v \<longleftrightarrow> (\<forall>a\<in>ran (v_tbl v). v_path v a \<noteq> None)"

lemma okay_cachedir_loop [okay_rule]:
  assumes "heap_inv s" "all_paths (view s)" "dpl_clean E" "\<not> log_debug s"
  shows "okay (cachedir_loop n psz E s) (\<lambda>t. False)"
  using assms(1,2,4)
proof (induction n arbitrary: s)
  case (Suc n)
  have run: "okay (run_all (update_md E) pool t) (\<lambda>u. okay (cachedir_loop n psz E u) (\<lambda>t. False))"
    if t: "heap_inv t" "walk_post (view s) pool (view t)" for pool t
  proof (rule okay_mono [OF okay_run_all [where P = "\<lambda>u. heap_inv u \<and> view u = view s"]])
    show "okay (update_md E a u) (\<lambda>u. heap_inv u \<and> view u = view s)"
      if a: "a \<in> set pool" "heap_inv u \<and> view u = view s" for a u
    proof (rule okay_update_md)
      have "a \<in> ran (v_tbl (view s))" using a t(2) by (auto simp: walk_post_def)
      then show "a \<in> v_ent (view u)" "v_path (view u) a \<noteq> None"
        using a v_tbl_range [of u] Suc.prems(2) by (auto simp: all_paths_def)
      show "\<not> log_debug u" using Suc.prems(3) log_debug_view [of u s] a by simp
    qed (use a assms(3) in auto)
    show "okay (cachedir_loop n psz E u) (\<lambda>t. False)" if "heap_inv u \<and> view u = view s" for u
      using that Suc.prems log_debug_view [of u s] by (intro Suc.IH) simp_all
  qed (use t in \<open>auto simp: walk_post_def\<close>)
  show ?case
    using Suc.prems by (auto intro!: okay_cachedir_walk okay_call run)
qed simp

section \<open>Properties\<close>



text \<open>An entry that has not been looked at for long enough; the entries that a walk at one time pushes.\<close>

definition old_at :: "int \<Rightarrow> ('w, 'd) state \<Rightarrow> addr \<Rightarrow> bool" where
  "old_at now s a \<longleftrightarrow> (case pes s a of None \<Rightarrow> False
     | Some p \<Rightarrow> sint (sc_age_threshold (cfg s)) \<le> now - atime p)"

definition to_refresh :: "int \<Rightarrow> u64 \<Rightarrow> ('w, 'd) state \<Rightarrow> (string \<times> addr) list \<Rightarrow> addr list" where
  "to_refresh now psz s entries =
     (if sint (cache_max_size (cfg s)) < sint (total_size psz s) then []
      else filter (old_at now s) (map snd entries))"

lemma run_cachedir_callback:
  assumes "\<And>w. fst (s_time E w) = now" "\<And>k a. (k, a) \<in> set xs \<Longrightarrow> a \<in> dom (pes s) \<and> a \<noteq> NULL"
  shows "\<exists>w. run_all (cachedir_callback psz E) xs (pool, s) = Ret (pool @ to_refresh now psz s xs, s\<lparr>world := w\<rparr>)"
  using assms(2)
proof (induction xs arbitrary: s pool)
  case Nil
  show ?case by (rule exI [of _ "world s"]) (simp add: to_refresh_def)
next
  case (Cons x xs)
  obtain k a where x: "x = (k, a)" by (cases x)
  obtain p where p: "pes s a = Some p" "a \<noteq> NULL" using Cons.prems [of k a] by (auto simp: x)
  obtain w where w: "s_time E (world s) = (now, w)" using assms(1) by (metis prod.collapse)
  have size: "total_size psz (s\<lparr>world := w\<rparr>) = total_size psz s" "old_at now (s\<lparr>world := w\<rparr>) = old_at now s"
    by (auto simp: total_size_def old_at_def fun_eq_iff split: option.split)
  have "\<exists>v. run_all (cachedir_callback psz E) xs (pl, s\<lparr>world := w\<rparr>) =
      Ret (pl @ to_refresh now psz (s\<lparr>world := w\<rparr>) xs, s\<lparr>world := v\<rparr>)" for pl
    using Cons.IH [of "s\<lparr>world := w\<rparr>" pl] Cons.prems by fastforce
  moreover have "cachedir_callback psz E x (pool, s) = Ret (pool @ to_refresh now psz s [x], s\<lparr>world := w\<rparr>)"
    using p by (simp add: x cachedir_callback_def call_def w pentry_get_atime_def pe_at_def to_refresh_def size old_at_def)
  moreover have "to_refresh now psz s [x] @ to_refresh now psz (s\<lparr>world := w\<rparr>) xs = to_refresh now psz s (x # xs)"
    by (simp add: to_refresh_def size)
  ultimately show ?case by (simp flip: append_assoc) (metis append_assoc)
qed

text \<open>
  C34: a walk over the table returns, leaves the program's state alone, and pushes exactly the entries that have not
  been looked at for \<^verbatim>\<open>sc_age_threshold\<close> seconds, in the order of the table; none at all when the table is
  larger than \<^verbatim>\<open>cache_max_size\<close>. (The clock stands still during the walk.)
\<close>

theorem cachedir_walk_correct:
  assumes "heap_inv s" "\<And>w. fst (s_time E w) = now"
  shows "\<exists>w. cachedir_walk psz E ([], s) = Ret (to_refresh now psz s (hash s), s\<lparr>world := w\<rparr>)"
proof -
  have "a \<in> dom (pes s) \<and> a \<noteq> NULL" if "(k, a) \<in> set (hash s)" for k a
  proof -
    have "a \<in> v_ent (view s)"
      using assms(1) that by (intro heap_inv_tbl_ent) (simp_all add: heap_inv_def table_ok_def view_simps)
    then show ?thesis using heap_inv_not_null [OF assms(1)] by (simp add: view_simps)
  qed
  then show ?thesis
    using run_cachedir_callback [OF assms(2), of "hash s" s psz "[]"] by (simp add: cachedir_walk_def)
qed

theorem cachedir_walk_correct_witness:
  "\<exists>w. cachedir_walk 300 (sample DPL_SUCCESS) ([], sample_open) = Ret ([], sample_open\<lparr>world := w\<rparr>)"
proof -
  have "to_refresh 1000 300 sample_open (hash sample_open) = []"
    by (simp add: to_refresh_def old_at_def sample_open_def sample_pentry_def sample_conf_def)
  then show ?thesis
    using cachedir_walk_correct [of sample_open "sample DPL_SUCCESS" 1000 300] by simp
qed

text \<open>
  The workers hold addresses that nothing protects: when a path is removed between the walk that
  pushed its entry and the refresh, the worker reads freed memory.
\<close>

theorem cachedir_stale:
  assumes "heap_inv s" "map_of (hash s) k = Some a" "cachedir_walk psz E ([], s) = Ret (pool, t)"
    and "a \<in> set pool" "dfs_unlink E k t = Ret (0, u)"
  shows "update_md E a u = Stuck UseAfterFree"
proof -
  have t: "heap_inv t" "view t = view s"
    using okay_cachedir_walk [OF assms(1), where Q = "\<lambda>(pool, t). heap_inv t \<and> view t = view s" and psz = psz and E = E]
    by (auto simp: walk_post_def assms(3))
  have k: "v_tbl (view t) k = Some a" using assms(2) t(2) by (simp add: view_simps)
  have "view u = v_drop k (view t)"
    using okay_dfs_unlink [OF t(1), where Q = "\<lambda>(r, u). r = 0 \<longrightarrow> view u = v_drop k (view t)" and E = E and p = k]
    by (auto simp: assms(5))
  then have "a \<notin> v_ent (view u)" using k by (simp add: v_drop_simps)
  moreover have "a \<noteq> NULL" using heap_inv_not_null [OF t(1) heap_inv_tbl_ent [OF t(1) k]] .
  ultimately show ?thesis
    by (simp add: update_md_def pentry_get_path_def pe_at_def view_simps domIff)
qed

lemma sample_unlink:
  assumes "hash s = [(''/f'', 1)]" "pes s = [1 \<mapsto> p]" "metadata p = 2" "dicts s 2 = Some c"
  shows "dfs_unlink (sample DPL_SUCCESS) ''/f'' s = Ret (0, s\<lparr>hash := [], pes := Map.empty, dicts := (dicts s)(2 := None)\<rparr>)"
proof -
  let ?E = "sample DPL_SUCCESS"
  have "dfs_unlink_timeout ?E ''/f'' s = Ret (DPL_SUCCESS, (), s)"
    by (intro unlink_r.success) (simp add: plain_def call_def)
  then show ?thesis
    using assms
    by (cases "fd p = -1"; cases "path p")
      (simp_all add: dfs_unlink_def unlink_entry_def call_def g_hash_table_lookup_def g_hash_table_remove_def
        pentry_free_def pe_at_def dpl_dict_free_def del: obind_eq_Ret)
qed

theorem cachedir_stale_witness:
  "\<exists>u. dfs_unlink (sample DPL_SUCCESS) ''/f'' (sample_open\<lparr>cfg := sample_conf\<lparr>sc_age_threshold := 1\<rparr>\<rparr>) = Ret (0, u) \<and>
     update_md (sample DPL_SUCCESS) 1 u = Stuck UseAfterFree"
proof -
  let ?E = "sample DPL_SUCCESS" and ?s = "sample_open\<lparr>cfg := sample_conf\<lparr>sc_age_threshold := 1\<rparr>\<rparr>"
  have "cachedir_walk 300 ?E ([], ?s) = Ret ([1], ?s)"
    by (simp add: cachedir_walk_def cachedir_callback_def call_def pentry_get_atime_def pe_at_def
        total_size_def sample_open_def sample_pentry_def sample_conf_def)
  moreover have "heap_inv ?s"
    by (subst heap_inv_cong [of _ sample_open]) (simp_all add: md_of_def path_of_def fun_eq_iff)
  moreover obtain u where u: "dfs_unlink ?E ''/f'' ?s = Ret (0, u)"
    using sample_unlink [of ?s] by (simp add: sample_open_def del: obind_eq_Ret)
  moreover have "map_of (hash ?s) ''/f'' = Some 1" by (simp add: sample_open_def)
  ultimately have "update_md ?E 1 u = Stuck UseAfterFree"
    using cachedir_stale [where s = ?s and t = ?s and pool = "[1]"] by simp
  with u show ?thesis by blast
qed

lemma sint_u32:
  fixes w :: u32
  shows "sint w = (if unat w < 2 ^ 31 then int (unat w) else int (unat w) - 2 ^ 32)"
proof -
  have mod: "(int n + 2 ^ 31) mod 2 ^ 32 - 2 ^ 31 = (if n < 2 ^ 31 then int n else int n - 2 ^ 32)"
    if "n < 2 ^ 32" for n :: nat
  proof (cases "n < 2 ^ 31")
    case True
    then have "(int n + 2 ^ 31) mod 2 ^ 32 = int n + 2 ^ 31" by (intro mod_pos_pos_trivial) simp_all
    with True show ?thesis by simp
  next
    case False
    then have "(int n + 2 ^ 31 - 2 ^ 32) mod 2 ^ 32 = int n + 2 ^ 31 - 2 ^ 32"
      using that by (intro mod_pos_pos_trivial) simp_all
    then have "(int n + 2 ^ 31) mod 2 ^ 32 = int n + 2 ^ 31 - 2 ^ 32" by (simp only: minus_mod_self2)
    with False show ?thesis by simp
  qed
  have "unat w < 2 ^ 32" using unsigned_less [of w] by simp
  then show ?thesis
    using mod [of "unat w"] by (simp add: sint_uint signed_take_bit_eq_take_bit_shift take_bit_eq_mod)
qed

text \<open>
  The size that is compared with \<^verbatim>\<open>cache_max_size\<close> is the size of the table as long as this is less
  than \<^verbatim>\<open>INT_MAX + 1\<close> bytes. Above this it turns negative, up to twice the bound, and the limit no longer holds
  anything back.
\<close>

theorem total_size_wraps:
  assumes "length (hash s) * (unat psz + 64) < 2 ^ 32" "unat psz + 64 < 2 ^ 32" "length (hash s) < 2 ^ 32"
  shows "sint (total_size psz s) =
    (if length (hash s) * (unat psz + 64) < 2 ^ 31 then int (length (hash s) * (unat psz + 64))
     else int (length (hash s) * (unat psz + 64)) - 2 ^ 32)"
proof -
  let ?n = "length (hash s) * (unat psz + 64)"
  have "unat (psz + 64) = unat psz + 64"
    using assms(2) unat_add_lem [of psz 64] by simp
  moreover have "unat (ucast (of_nat (length (hash s)) :: u32) :: u64) = length (hash s)"
    using assms(3) by (simp add: unsigned_ucast_eq unat_of_nat take_bit_nat_eq_self)
  ultimately have "unat (ucast (of_nat (length (hash s)) :: u32) * (psz + 64) :: u64) = ?n"
    using assms(1) unat_mult_lem [of "ucast (of_nat (length (hash s)) :: u32) :: u64" "psz + 64"] by simp
  then have "unat (total_size psz s) = ?n"
    using assms(1) unfolding total_size_def unsigned_ucast_eq by (simp add: take_bit_nat_eq_self)
  then show ?thesis unfolding sint_u32 by simp
qed

theorem total_size_wraps_witness:
  "sint (total_size 300 sample_open) = 364"
  using total_size_wraps [of sample_open 300] by (simp add: sample_open_def)

end
