(* ===== verification/Lifecycle.thy ===== *)
theory Lifecycle
  imports Machine Io Cachedir
begin

text \<open>
  A mounted file system: the table \<^verbatim>\<open>dfs_ops\<close> of \<^verbatim>\<open>src/dropletfs.c\<close>, which binds the requests of FUSE to
  the handlers, and the collector, which runs between them. FUSE keeps a handle (what \<^verbatim>\<open>info->fh\<close> held, with the
  flags and the path) from an open or a create that answered 0 until its release. A history of requests is a
  sequence of steps; a handler runs to its end before the next one starts. The theorems connect the handlers: what one
  leaves is what the others rely on.
\<close>

section \<open>The mounted file system\<close>

record ('w, 'd) mounted =
  m_st :: "('w, 'd) state"
  m_fhs :: "handle list"
  m_ring :: tmpring

text \<open>A handle that was opened joins the others; one that is not there is refused by FUSE.\<close>

definition opened :: "u32 \<Rightarrow> string \<Rightarrow> ('w, 'd) mounted \<Rightarrow> int \<times> addr \<times> ('w, 'd) state \<Rightarrow> int \<times> ('w, 'd) mounted" where
  "opened flags p m x = (case x of (r, fh, s) \<Rightarrow>
     (r, m\<lparr>m_st := s, m_fhs := (if r = 0 then (fh, flags, p) # m_fhs m else m_fhs m)\<rparr>))"

definition on_handle ::
  "nat \<Rightarrow> ('w, 'd) mounted \<Rightarrow> (addr \<Rightarrow> u32 \<Rightarrow> string \<Rightarrow> (int \<times> ('w, 'd) mounted) outcome) \<Rightarrow> (int \<times> ('w, 'd) mounted) outcome"
where
  "on_handle i m f = (if i < length (m_fhs m) then (case m_fhs m ! i of (fh, flags, p) \<Rightarrow> f fh flags p)
     else Ret (- EBADF, m))"

text \<open>FUSE's buffer of a directory is a list of names that is never full.\<close>

fun serve :: "('w, 'd) env \<Rightarrow> request \<Rightarrow> ('w, 'd) mounted \<Rightarrow> (int \<times> ('w, 'd) mounted) outcome" where
  "serve E (Getattr p) m = obind (dfs_getattr E p (m_st m)) (\<lambda>(r, st, q, s). Ret (r, m\<lparr>m_st := s\<rparr>))"
| "serve E (Mkdir p) m = obind (dfs_mkdir E p (m_st m)) (\<lambda>(r, s). Ret (r, m\<lparr>m_st := s\<rparr>))"
| "serve E (Mknod p) m = obind (dfs_mknod E p (m_st m)) (\<lambda>(r, s). Ret (r, m\<lparr>m_st := s\<rparr>))"
| "serve E (Rmdir p) m = obind (dfs_rmdir E p (m_st m)) (\<lambda>(r, s). Ret (r, m\<lparr>m_st := s\<rparr>))"
| "serve E (Opendir p) m = obind (dfs_opendir E p (m_st m)) (\<lambda>(r, s). Ret (r, m\<lparr>m_st := s\<rparr>))"
| "serve E (Readdir p) m =
     obind (dfs_readdir E p (\<lambda>b name. (False, name # b)) [] (m_st m)) (\<lambda>(r, b, s). Ret (r, m\<lparr>m_st := s\<rparr>))"
| "serve E (Readlink p buf) m = obind (dfs_readlink E p buf (m_st m)) (\<lambda>(r, b, s). Ret (r, m\<lparr>m_st := s\<rparr>))"
| "serve E (Symlink old new) m = obind (dfs_symlink E old new (m_st m)) (\<lambda>(r, s). Ret (r, m\<lparr>m_st := s\<rparr>))"
| "serve E (Unlink p) m = obind (dfs_unlink E p (m_st m)) (\<lambda>(r, s). Ret (r, m\<lparr>m_st := s\<rparr>))"
| "serve E (Rename old new) m =
     obind (dfs_rename E old new (m_ring m) (m_st m)) (\<lambda>(r, ring, s). Ret (r, m\<lparr>m_st := s, m_ring := ring\<rparr>))"
| "serve E (Open p flags) m = obind (dfs_open E p flags (m_st m)) (\<lambda>x. Ret (opened flags p m x))"
| "serve E (Create p mode flags) m = obind (dfs_create E p mode flags (m_st m)) (\<lambda>x. Ret (opened flags p m x))"
| "serve E (Read i n off) m = on_handle i m (\<lambda>fh flags p.
     obind (dfs_read E fh n off (m_st m)) (\<lambda>(r, bs, s). Ret (r, m\<lparr>m_st := s\<rparr>)))"
| "serve E (Write i bs off) m = on_handle i m (\<lambda>fh flags p.
     obind (dfs_write E fh bs off (m_st m)) (\<lambda>(r, s). Ret (r, m\<lparr>m_st := s\<rparr>)))"
| "serve E (Fsync p sy) m = obind (dfs_fsync E p sy (m_st m)) (\<lambda>(r, s). Ret (r, m\<lparr>m_st := s\<rparr>))"
| "serve E (Release i) m = on_handle i m (\<lambda>fh flags p.
     obind (dfs_release E p flags fh (m_st m)) (\<lambda>(r, s).
       Ret (r, m\<lparr>m_st := s, m_fhs := take i (m_fhs m) @ drop (Suc i) (m_fhs m)\<rparr>)))"
| "serve E Collect m =
     obind (g_hash_table_foreach (gc_callback E) (hash (m_st m)) (m_st m)) (\<lambda>s. Ret (0, m\<lparr>m_st := s\<rparr>))"

section \<open>The invariant\<close>

definition mounted_inv :: "('w, 'd) mounted \<Rightarrow> bool" where
  "mounted_inv m \<longleftrightarrow> heap_inv (m_st m) \<and> conf_ready (v_cfg (view (m_st m))) \<and> ring_ok (m_ring m) \<and>
     handles_ok (m_fhs m) (view (m_st m))"

text \<open>The requests that the handlers can bear in a state.\<close>

fun calm :: "('w, 'd) env \<Rightarrow> ('w, 'd) mounted \<Rightarrow> request \<Rightarrow> bool" where
  "calm E m (Unlink p) \<longleftrightarrow> (\<forall>(a, flags, q) \<in> set (m_fhs m). q \<noteq> p)"
| "calm E m (Rename old new) \<longleftrightarrow> m_fhs m = [] \<and> flat E old"
| "calm E m (Create p mode flags) \<longleftrightarrow> get_mode_from_flags flags = MODE_CREAT \<and> pthreads_ok E \<and>
     (\<forall>a. v_tbl (view (m_st m)) p = Some a \<longrightarrow> md_of (m_st m) a = NULL)"
| "calm E m (Symlink old new) \<longleftrightarrow> link_laws E new \<and> codes_ok E \<and> (\<exists>root.
     (root_dir (cfg (m_st m)) = CLit root \<or> root_dir (cfg (m_st m)) = CHeap root) \<and> strstr old root \<noteq> Some root)"
| "calm E m r \<longleftrightarrow> True"

inductive history ::
  "('w, 'd) env \<Rightarrow> ('w, 'd) mounted \<Rightarrow> (request \<times> int) list \<Rightarrow> ('w, 'd) mounted \<Rightarrow> bool" for E
where
  history_Nil: "history E m [] m"
| history_step: "history E m rs m' \<Longrightarrow> calm E m' r \<Longrightarrow> serve E r m' = Ret (x, m'') \<Longrightarrow>
    history E m (rs @ [(r, x)]) m''"

section \<open>One request\<close>

lemma okay_on_handle:
  assumes "mounted_inv m" "P (- EBADF, m)"
    and "\<And>a flags p. i < length (m_fhs m) \<Longrightarrow> m_fhs m ! i = (a, flags, p) \<Longrightarrow> a \<noteq> NULL \<Longrightarrow> a \<in> v_ent (view (m_st m)) \<Longrightarrow>
      v_ref (view (m_st m)) a \<noteq> 0 \<Longrightarrow> okay (f a flags p) P"
  shows "okay (on_handle i m f) P"
proof (cases "i < length (m_fhs m)")
  case True
  obtain a flags p where h: "m_fhs m ! i = (a, flags, p)" by (cases "m_fhs m ! i")
  then have "(a, flags, p) \<in> set (m_fhs m)" using True by (metis nth_mem)
  then have "a \<in> v_ent (view (m_st m))" "v_ref (view (m_st m)) a \<noteq> 0"
    using assms(1) handles_okD(2,4) unfolding mounted_inv_def by blast+
  moreover from this(1) have "a \<noteq> NULL" using assms(1) heap_inv_not_null unfolding mounted_inv_def by blast
  ultimately show ?thesis using assms(3) [OF True h] True h by (simp add: on_handle_def)
qed (use assms(2) in \<open>simp add: on_handle_def\<close>)

text \<open>What a mounted file system relies on outside the program.\<close>

definition fuse_env :: "('w, 'd) env \<Rightarrow> bool" where
  "fuse_env E \<longleftrightarrow> remote_ok E \<and> allocs_ok E"

lemma fuse_envD: "fuse_env E \<Longrightarrow> remote_ok E \<and> allocs_ok E \<and> inits_ok E \<and> dpl_clean E"
  by (simp add: fuse_env_def remote_ok_def)

text \<open>The refinement: a request moves the abstract machine of \<open>Machine\<close>.\<close>

definition moved :: "('w, 'd) env \<Rightarrow> request \<Rightarrow> ('w, 'd) mounted \<Rightarrow> int \<times> ('w, 'd) mounted \<Rightarrow> bool" where
  "moved E r m = (\<lambda>(x, m'). heap_inv (m_st m') \<and> ring_ok (m_ring m') \<and>
     move E r (m_fhs m) (view (m_st m)) x (m_fhs m') (view (m_st m')))"

lemma mounted_invD:
  "mounted_inv m \<Longrightarrow> heap_inv (m_st m) \<and> conf_ready (v_cfg (view (m_st m))) \<and> ring_ok (m_ring m) \<and>
    handles_ok (m_fhs m) (view (m_st m)) \<and> view_ok (view (m_st m))"
  by (simp add: mounted_inv_def heap_inv_view_ok)

lemma moved_idle: "idle (m_fhs m) r \<Longrightarrow> ring_ok (m_ring m) \<Longrightarrow> heap_inv s \<Longrightarrow> view s = view (m_st m) \<Longrightarrow> moved E r m (x, m\<lparr>m_st := s\<rparr>)"
  by (simp add: moved_def move_idle)

lemma moved_opened:
  "heap_inv s \<Longrightarrow> ring_ok (m_ring m) \<Longrightarrow> open_post E p flags (view (m_st m)) x a (view s) \<Longrightarrow>
    moved E (Open p flags) m (opened flags p m (x, a, s))"
  "heap_inv s \<Longrightarrow> ring_ok (m_ring m) \<Longrightarrow> pthreads_ok E \<Longrightarrow> create_post E p flags (view (m_st m)) x a (view s) \<Longrightarrow>
    moved E (Create p mode flags) m (opened flags p m (x, a, s))"
  using move_open [of E p flags "view (m_st m)" x a "view s" "m_fhs m"]
    move_create [of E p flags "view (m_st m)" x a "view s" mode "m_fhs m"]
  by (simp_all add: moved_def opened_def)

lemma serve_refines_open:
  assumes "mounted_inv m" "fuse_env E"
  shows "okay (serve E (Open p flags) m) (moved E (Open p flags) m)"
    and "calm E m (Create p mode flags) \<Longrightarrow> okay (serve E (Create p mode flags) m) (moved E (Create p mode flags) m)"
  using mounted_invD [OF assms(1)] fuse_envD [OF assms(2)]
  by (auto intro!: okay_dfs_open okay_dfs_create moved_opened)

lemma serve_refines_handles:
  assumes "mounted_inv m" "fuse_env E"
  shows "okay (serve E (Read i n off) m) (moved E (Read i n off) m)"
    and "okay (serve E (Write i bs off) m) (moved E (Write i bs off) m)"
    and "okay (serve E (Release i) m) (moved E (Release i) m)"
proof -
  note inv = mounted_invD [OF assms(1)] and E = fuse_envD [OF assms(2)]
  have idle: "moved E r m (x, m)" if "idle (m_fhs m) r" for r x
    using moved_idle [OF that, of "m_st m"] inv by simp
  have released: "moved E (Release i) m (x, m\<lparr>m_st := s, m_fhs := take i (m_fhs m) @ drop (Suc i) (m_fhs m)\<rparr>)"
    if "i < length (m_fhs m)" "m_fhs m ! i = (a, flags, p)" "heap_inv s" "release_post flags (view (m_st m)) a x (view s)"
    for a flags p x s
    using that inv by (simp add: moved_def move_release)
  show "okay (serve E (Read i n off) m) (moved E (Read i n off) m)"
    "okay (serve E (Write i bs off) m) (moved E (Write i bs off) m)"
    using inv by (auto intro!: okay_on_handle [OF assms(1)] okay_io moved_idle idle)
  show "okay (serve E (Release i) m) (moved E (Release i) m)"
  proof (cases "i < length (m_fhs m)")
    case True
    obtain a flags p where h: "m_fhs m ! i = (a, flags, p)" by (cases "m_fhs m ! i")
    then have "a \<in> v_ent (view (m_st m))" using nth_mem [OF True] inv handles_okD(2) by metis
    then show ?thesis
      using inv E h True by (auto intro!: okay_dfs_release released simp: on_handle_def)
  next
    case False
    then show ?thesis using idle [of "Release i"] by (simp add: on_handle_def)
  qed
qed

lemma serve_refines_names:
  assumes "mounted_inv m" "fuse_env E"
  shows "okay (serve E (Mkdir p) m) (moved E (Mkdir p) m)"
    and "okay (serve E (Mknod p) m) (moved E (Mknod p) m)"
    and "okay (serve E (Rmdir p) m) (moved E (Rmdir p) m)"
    and "okay (serve E (Readdir p) m) (moved E (Readdir p) m)"
    and "okay (serve E (Readlink p buf) m) (moved E (Readlink p buf) m)"
    and "okay (serve E (Fsync p sy) m) (moved E (Fsync p sy) m)"
    and "okay (serve E (Getattr p) m) (moved E (Getattr p) m)"
    and "okay (serve E (Opendir p) m) (moved E (Opendir p) m)"
proof -
  note inv = mounted_invD [OF assms(1)] and E = fuse_envD [OF assms(2)]
  have enter: "moved E r m (x, m\<lparr>m_st := s\<rparr>)"
    if "r = Getattr p \<or> r = Opendir p" "heap_inv s" "entry_for p a (view (m_st m)) (view s)" for r x s a
    using that inv by (simp add: moved_def move_enter [OF that(1,3)])
  show "okay (serve E (Mkdir p) m) (moved E (Mkdir p) m)"
    "okay (serve E (Mknod p) m) (moved E (Mknod p) m)"
    "okay (serve E (Rmdir p) m) (moved E (Rmdir p) m)"
    "okay (serve E (Readdir p) m) (moved E (Readdir p) m)"
    "okay (serve E (Readlink p buf) m) (moved E (Readlink p buf) m)"
    "okay (serve E (Fsync p sy) m) (moved E (Fsync p sy) m)"
    using inv E
    by (auto intro!: okay_dfs_mkdir okay_dfs_rmdir okay_dfs_readdir okay_dfs_readlink okay_dfs_fsync moved_idle)
  have "moved E (Getattr p) m (x, m\<lparr>m_st := s\<rparr>)"
    if "heap_inv s" "getattr_post p (view (m_st m)) x st (view s)" for x st s
    using that inv enter [of "Getattr p"] moved_idle [of m "Getattr p"] by (auto simp: getattr_post_def split: if_splits)
  then show "okay (serve E (Getattr p) m) (moved E (Getattr p) m)"
    using inv E by (auto intro!: okay_dfs_getattr)
  have "moved E (Opendir p) m (x, m\<lparr>m_st := s\<rparr>)" if "heap_inv s" "view s = view (m_st m)" for x s
    using that inv by (simp add: moved_idle)
  then show "okay (serve E (Opendir p) m) (moved E (Opendir p) m)"
    using inv E enter [of "Opendir p"] by (auto intro!: okay_dfs_opendir)
qed

lemma serve_refines_removal:
  assumes "mounted_inv m" "fuse_env E"
  shows "calm E m (Unlink p) \<Longrightarrow> okay (serve E (Unlink p) m) (moved E (Unlink p) m)"
    and "calm E m (Rename p q) \<Longrightarrow> okay (serve E (Rename p q) m) (moved E (Rename p q) m)"
    and "calm E m (Symlink p q) \<Longrightarrow> okay (serve E (Symlink p q) m) (moved E (Symlink p q) m)"
    and "okay (serve E Collect m) (moved E Collect m)"
proof -
  note inv = mounted_invD [OF assms(1)]
  show "okay (serve E (Unlink p) m) (moved E (Unlink p) m)" if calm: "calm E m (Unlink p)"
    using inv calm move_unlink [of "m_fhs m" p E "view (m_st m)"] move_idle [of "m_fhs m" "Unlink p" E "view (m_st m)"]
    by (auto intro!: okay_dfs_unlink simp: moved_def)
  show "okay (serve E (Rename p q) m) (moved E (Rename p q) m)" if "calm E m (Rename p q)"
    using that inv conf_ready_quiet [of "m_st m"] by (auto intro!: okay_dfs_rename_flat simp: moved_def move_rename)
  show "okay (serve E (Symlink p q) m) (moved E (Symlink p q) m)" if calm: "calm E m (Symlink p q)"
  proof -
    obtain root where root: "root_dir (cfg (m_st m)) = CLit root \<or> root_dir (cfg (m_st m)) = CHeap root" "strstr p root \<noteq> Some root"
      "link_laws E q" "codes_ok E"
      using calm by auto
    show ?thesis using inv by (auto intro!: okay_dfs_symlink [OF _ root] moved_idle)
  qed
  show "okay (serve E Collect m) (moved E Collect m)"
    using inv by (simp, intro okay_mono [OF okay_gc_round]) (simp_all add: moved_def move_collect)
qed

lemma serve_refines:
  assumes "mounted_inv m" "fuse_env E" "calm E m r"
  shows "okay (serve E r m) (moved E r m)"
  using assms(3)
  by (cases r) (simp_all only: serve_refines_names [OF assms(1,2)] serve_refines_removal [OF assms(1,2)]
    serve_refines_handles [OF assms(1,2)] serve_refines_open [OF assms(1,2)])

lemma moved_inv:
  assumes "mounted_inv m" "moved E r m (x, m')" shows "mounted_inv m'"
proof -
  note inv = mounted_invD [OF assms(1)]
  have m': "heap_inv (m_st m')" "ring_ok (m_ring m')"
    and move: "move E r (m_fhs m) (view (m_st m)) x (m_fhs m') (view (m_st m'))"
    using assms(2) by (simp_all add: moved_def)
  show ?thesis
    using m' inv move_handles [OF move _ heap_inv_view_ok [OF m'(1)]] move_table(1) [OF move]
    by (simp add: mounted_inv_def)
qed

lemma okay_serve:
  assumes "mounted_inv m" "fuse_env E" "calm E m r"
  shows "okay (serve E r m) (\<lambda>(x, m'). mounted_inv m')"
  using moved_inv [OF assms(1)] by (rule_tac okay_mono [OF serve_refines [OF assms]]) auto

lemma history_run:
  assumes "history E m rs m'" "mounted_inv m" "fuse_env E"
  shows "mounted_inv m' \<and> run E (m_fhs m) (view (m_st m)) rs (m_fhs m') (view (m_st m'))"
  using assms
proof (induction rule: history.induct)
  case (history_Nil m)
  then show ?case by (simp add: run_Nil)
next
  case (history_step m rs m' r x m'')
  have inv: "mounted_inv m'" using history_step by simp
  have "moved E r m' (x, m'')" using serve_refines [OF inv] history_step by fastforce
  then show ?case
    using moved_inv [OF inv] history_step run_step mounted_invD unfolding moved_def by fast
qed

lemmas history_inv = history_run [THEN conjunct1]

text \<open>An open for writing waits for the lock of the entry.\<close>

lemma dfs_open_blocked:
  assumes "heap_inv s" "conf_ready (v_cfg (view s))" "v_tbl (view s) p = Some a" "v_lock (view s) a" "pthreads_ok E"
    and "get_mode_from_flags flags \<noteq> MODE_RDONLY"
  shows "dfs_open E p flags s = Stuck Blocked"
proof -
  obtain q where q: "pes s a = Some q" "a \<noteq> NULL"
    using heap_inv_tbl_ent [OF assms(1,3)] heap_inv_not_null [OF assms(1)] by (auto simp: view_simps)
  have "mutex q" using assms(4) q(1) by (simp add: view_simps)
  moreover obtain w where "pthread_rc E (world s) = (0, w)"
    using assms(5) unfolding pthreads_ok_def by (metis prod.collapse)
  moreover have "g_hash_table_lookup p s = a" using assms(3) by (simp add: g_hash_table_lookup_def view_simps)
  ultimately show ?thesis
    using q assms(6) conf_ready_quiet [OF assms(2)]
    by (simp add: dfs_open_def open_lookup_def open_entry_def log_flags_def pentry_get_fd_def pentry_get_placeholder_def
        pentry_inc_refcount_def pentry_lock_def pentry_gen_lock_def pe_at_def pe_upd_def call_def split: prod.split)
qed

section \<open>A mounted file system with one open file\<close>

definition one_open :: "(nat, sample_dict) mounted" where
  "one_open = \<lparr>m_st = sample_open, m_fhs = [(1, O_WRONLY, ''/f'')], m_ring = ring0\<rparr>"

lemmas sample_open_cell = sample_open_view(4,5) [unfolded One_nat_def]

lemma one_open_inv [simp]: "mounted_inv one_open"
  by (simp add: mounted_inv_def one_open_def handles_ok_def sample_open_cell sample_open_def [THEN arg_cong [of _ _ cfg]]
      view_simps(6))

lemma sample_fuse_env [simp]: "fuse_env (sample_remote DPL_SUCCESS)" "pthreads_ok (sample_remote rc)"
  by (simp add: fuse_env_def) (simp add: pthreads_ok_def sample_remote_def)

lemma sample_history: "history (sample_remote DPL_SUCCESS) one_open [(Read 0 5 0, 3)] one_open"
proof -
  have "serve (sample_remote DPL_SUCCESS) (Read 0 5 0) one_open = Ret (3, one_open)"
    by (simp add: one_open_def on_handle_def dfs_read_def pentry_get_fd_def pe_at_def call_def sample_open_def sample_remote_def)
  from history_step [OF history_Nil _ this] show ?thesis by simp
qed

section \<open>Properties\<close>





text \<open>A handle whose entry is gone.\<close>

lemma freed_handle:
  assumes "i < length (m_fhs m)" "m_fhs m ! i = (a, flags, p)" "a \<noteq> NULL" "a \<notin> v_ent (view (m_st m))"
    and "conf_ready (v_cfg (view (m_st m)))"
  shows "serve E (Read i n off) m = Stuck UseAfterFree \<and> serve E (Write i bs off) m = Stuck UseAfterFree \<and>
    serve E (Release i) m = Stuck UseAfterFree"
proof -
  have "pe_at a (m_st m) = Stuck UseAfterFree" using assms(3,4) by (simp add: pe_at_def view_simps domIff)
  moreover have "\<not> log_debug (m_st m)" using conf_ready_quiet [of "m_st m"] assms(5) by simp
  ultimately show ?thesis
    using assms(1-3)
    by (simp add: on_handle_def dfs_read_def dfs_write_def dfs_release_def pentry_get_fd_def log_flags_def)
qed

text \<open>
  C9: unlinking an open file frees its entry, and the next read, write or release of the handle uses it: the
  reference count protects the entry from the collector only.
\<close>

theorem unlink_open_crash:
  assumes "mounted_inv m" "i < length (m_fhs m)" "m_fhs m ! i = (a, flags, p)" "serve E (Unlink p) m = Ret (0, m')"
  shows "serve E (Read i n off) m' = Stuck UseAfterFree \<and> serve E (Write i bs off) m' = Stuck UseAfterFree \<and>
    serve E (Release i) m' = Stuck UseAfterFree"
proof -
  have inv: "heap_inv (m_st m)" "handles_ok (m_fhs m) (view (m_st m))" "conf_ready (v_cfg (view (m_st m)))"
    using assms(1) by (simp_all add: mounted_inv_def)
  have h: "v_tbl (view (m_st m)) p = Some a" "a \<noteq> NULL"
    using handles_okD(1,2) [OF inv(2), of a flags p] assms(2,3) heap_inv_not_null [OF inv(1)] nth_mem [OF assms(2)] by auto
  have "okay (serve E (Unlink p) m) (\<lambda>(x, m'). m_fhs m' = m_fhs m \<and>
      (x = 0 \<longrightarrow> view (m_st m') = v_drop p (view (m_st m))))"
    using inv(1) by (auto intro!: okay_dfs_unlink)
  then have m': "m_fhs m' = m_fhs m" "view (m_st m') = v_drop p (view (m_st m))"
    unfolding assms(4) by simp_all
  then have "a \<notin> v_ent (view (m_st m'))" using h(1) by (simp add: v_drop_simps)
  moreover have "v_cfg (view (m_st m')) = v_cfg (view (m_st m))"
    using m'(2) by (simp add: v_drop_def v_free_def split: option.split)
  ultimately show ?thesis using freed_handle [of i m' a flags p] assms(2,3) m'(1) h(2) inv(3) by simp
qed

theorem unlink_open_crash_witness:
  "\<exists>m'. serve (sample DPL_SUCCESS) (Unlink ''/f'') one_open = Ret (0, m') \<and>
    serve (sample DPL_SUCCESS) (Read 0 5 0) m' = Stuck UseAfterFree \<and>
    serve (sample DPL_SUCCESS) (Write 0 [7] 0) m' = Stuck UseAfterFree \<and>
    serve (sample DPL_SUCCESS) (Release 0) m' = Stuck UseAfterFree"
proof -
  obtain s where "dfs_unlink (sample DPL_SUCCESS) ''/f'' sample_open = Ret (0, s)"
    using sample_unlink [of sample_open] by (auto simp: sample_open_def)
  then have u: "serve (sample DPL_SUCCESS) (Unlink ''/f'') one_open = Ret (0, one_open\<lparr>m_st := s\<rparr>)"
    by (simp add: one_open_def)
  have h: "0 < length (m_fhs one_open)" "m_fhs one_open ! 0 = (1, O_WRONLY, ''/f'')"
    by (simp_all add: one_open_def)
  from u unlink_open_crash [OF one_open_inv h u, where n = 5 and off = 0 and bs = "[7]"] show ?thesis by blast
qed

text \<open>
  C10: a file that is opened read-only with \<^verbatim>\<open>O_CREAT\<close> is locked by \<^verbatim>\<open>dfs_open\<close>, and \<^verbatim>\<open>dfs_release\<close>, which
  looks at the access mode only, does not unlock it: whoever opens the path for writing afterwards waits for ever.
\<close>

theorem creat_rdonly_deadlock:
  assumes "mounted_inv m" "fuse_env E" "pthreads_ok E" "flags AND O_CREAT \<noteq> 0" "flags AND O_ACCMODE = O_RDONLY"
    and "m_fhs m = []" "serve E (Open p flags) m = Ret (0, m1)" "serve E (Release 0) m1 = Ret (0, m2)"
    and "get_mode_from_flags wflags \<noteq> MODE_RDONLY"
  shows "serve E (Open p wflags) m2 = Stuck Blocked"
proof -
  have inv: "heap_inv (m_st m)" "conf_ready (v_cfg (view (m_st m)))" using assms(1) by (simp_all add: mounted_inv_def)
  note E = fuse_envD [OF assms(2)]
  let ?v = "view (m_st m)"
  have mode: "get_mode_from_flags flags \<noteq> MODE_RDONLY" using assms(4) by (simp add: get_mode_from_flags_def)
  obtain a s where 1: "dfs_open E p flags (m_st m) = Ret (0, a, s)" "m1 = m\<lparr>m_st := s, m_fhs := [(a, flags, p)]\<rparr>"
    using assms(6,7) by (auto simp: opened_def)
  have s: "heap_inv s" "open_post E p flags ?v 0 a (view s)"
    using okay_dfs_open [OF inv(1) conjunct1 [OF E] inv(2), where Q = "\<lambda>(r, a, s). heap_inv s \<and> open_post E p flags ?v r a (view s)" and p = p and flags = flags] 1(1)
    by auto
  then have a: "a \<noteq> NULL" "v_tbl (view s) p = Some a" "v_lock (view s) a" "v_cfg (view s) = v_cfg ?v"
    using mode by (auto simp: open_post_def grown_sel dest: entry_for_facts(2,3))
  obtain t where 2: "dfs_release E p flags a s = Ret (0, t)" "m2 = m1\<lparr>m_st := t, m_fhs := []\<rparr>"
    using assms(8) by (auto simp: on_handle_def 1(2))
  have "heap_inv t \<and> release_post flags (view s) a 0 (view t)"
    using okay_dfs_release [OF s(1), where fh = a and E = E and Q = "\<lambda>(r, t). heap_inv t \<and> release_post flags (view s) a r (view t)" and flags = flags and pth = p]
      heap_inv_tbl_ent [OF s(1) a(2)] inv(2) E a(4) 2(1) by auto
  then have t: "heap_inv t" "view t = v_setref a (v_ref (view s) a - 1) (view s)"
    using assms(5) a(1) by (auto simp: release_post_def Let_def)
  have "dfs_open E p wflags t = Stuck Blocked"
    using t(1) inv(2) a(2-4) assms(3,9) by (intro dfs_open_blocked) (simp_all add: t(2))
  then show ?thesis by (simp add: 2(2))
qed


definition none_open :: "(nat, sample_dict) mounted" where
  "none_open = \<lparr>m_st = sample_state, m_fhs = [], m_ring = ring0\<rparr>"

lemma sample_creat_release:
  "(case serve (sample_remote DPL_SUCCESS) (Open ''/n'' O_CREAT) none_open of
      Ret (r, m1) \<Rightarrow> r = 0 \<and> (case serve (sample_remote DPL_SUCCESS) (Release 0) m1 of
        Ret (q, m2) \<Rightarrow> q = 0 | Stuck h \<Rightarrow> False)
    | Stuck h \<Rightarrow> False)"
  by code_simp

theorem creat_rdonly_deadlock_witness:
  "\<exists>m1 m2. serve (sample_remote DPL_SUCCESS) (Open ''/n'' O_CREAT) none_open = Ret (0, m1) \<and>
    serve (sample_remote DPL_SUCCESS) (Release 0) m1 = Ret (0, m2) \<and>
    serve (sample_remote DPL_SUCCESS) (Open ''/n'' O_RDWR) m2 = Stuck Blocked"
proof -
  obtain m1 m2 where m: "serve (sample_remote DPL_SUCCESS) (Open ''/n'' O_CREAT) none_open = Ret (0, m1)"
    "serve (sample_remote DPL_SUCCESS) (Release 0) m1 = Ret (0, m2)"
    using sample_creat_release
    by (cases "serve (sample_remote DPL_SUCCESS) (Open ''/n'' O_CREAT) none_open"; clarsimp simp del: serve.simps)
      (force split: outcome.splits simp del: serve.simps)
  have "mounted_inv none_open"
    by (simp add: mounted_inv_def none_open_def handles_ok_def sample_state_def [THEN arg_cong [of _ _ cfg]] view_simps(6))
  then have "serve (sample_remote DPL_SUCCESS) (Open ''/n'' O_RDWR) m2 = Stuck Blocked"
    by (rule creat_rdonly_deadlock [OF _ _ _ _ _ _ m])
      (simp_all add: get_mode_from_flags_def none_open_def)
  with m show ?thesis by blast
qed

end
