(* ===== verification/Writers.thy ===== *)
theory Writers
  imports Lifecycle
begin

text \<open>
  Who may write: what the lock of an entry (\<^verbatim>\<open>pentry_lock\<close> in \<^verbatim>\<open>src/open.c\<close>, \<^verbatim>\<open>pentry_unlock\<close> in
  \<^verbatim>\<open>src/release.c\<close>) is worth over a history of requests. It keeps two writers of one path apart as long as no
  release answers an error; the error path of \<^verbatim>\<open>dfs_release\<close> unlocks the entry for a reader that never locked it.
\<close>

section \<open>The error path of a release\<close>

lemma okay_pentry_unlock:
  assumes "heap_inv s" "a \<in> v_ent (view s)" "pthreads_ok E"
    and "\<And>s'. heap_inv s' \<Longrightarrow> view s' = v_setlock a False (view s) \<Longrightarrow> Q (0, s')"
  shows "okay (pentry_unlock E a s) Q"
proof -
  have rc: "fst (pthread_rc E (world s)) = 0" using assms(3) unfolding pthreads_ok_def by blast
  have "okay (pentry_unlock E a s) (\<lambda>(r, s'). r = 0)"
    using assms(1,2) rc
    by (auto simp: pentry_unlock_def pentry_gen_unlock_def call_def intro!: okay_pe_at okay_pe_upd split: prod.split)
  moreover have "okay (pentry_unlock E a s) (\<lambda>(r, s'). r = 0 \<longrightarrow> Q (r, s'))"
    using assms by (intro okay_mutex) auto
  ultimately show ?thesis by (cases "pentry_unlock E a s") auto
qed

text \<open>A release that answers an error has unlocked the entry even when its handle is a reader.\<close>

lemma okay_reader_release:
  assumes "heap_inv s" "a \<in> v_ent (view s)" "conf_ready (v_cfg (view s))" "pthreads_ok E"
    and "flags AND O_ACCMODE = O_RDONLY"
    and "\<And>s'. view s' = v_setlock a False (view s) \<Longrightarrow> Q (-1, s')" "\<And>s'. Q (0, s')"
  shows "okay (dfs_release E p flags a s) Q"
proof -
  have a: "a \<noteq> NULL" using assms(1,2) heap_inv_not_null by blast
  have err: "okay (release_err E a f upload0 (-1) (s\<lparr>world := w\<rparr>)) Q" for f w
    unfolding release_err_def release_exc_def
    using assms(1,2,4,6) a
    by (auto simp: upload0_def dict_free_opt_def intro!: okay_call okay_setters okay_pentry_unlock)
  have same: "s\<lparr>world := world s\<rparr> = s" by simp
  show ?thesis
    unfolding dfs_release_def
    using assms(1-3,5,7) a err err [of _ "world s", unfolded same]
    by (auto intro!: okay_log okay_getters okay_call okay_dec_refcount split: sum.split)
qed

section \<open>Properties\<close>




lemma one_open_writers: "writers_ok (m_fhs one_open) (view (m_st one_open))"
  by (simp add: writers_ok_def one_open_def writes_def get_mode_from_flags_def sample_open_cell)


text \<open>
  C7: the release of a reader that answers an error unlocks the entry, although the reader never locked it: a writer
  of the path loses its lock while it still has the file open, and the next one to open it for writing is a second writer.
\<close>

theorem reader_unlocks_writer:
  assumes "mounted_inv m" "fuse_env E" "pthreads_ok E"
    and "i < length (m_fhs m)" "m_fhs m ! i = (a, rflags, p)" "rflags AND O_ACCMODE = O_RDONLY"
    and "serve E (Release i) m = Ret (x, m1)" "x \<noteq> 0"
    and "(a, wflags, p) \<in> set (m_fhs m1)" "writes (a, wflags, p)" "writes (a, flags, p)"
  shows "\<not> v_lock (view (m_st m1)) a \<and>
    (\<forall>m2. serve E (Open p flags) m1 = Ret (0, m2) \<longrightarrow> \<not> distinct (map fst (filter writes (m_fhs m2))))"
proof -
  note inv = mounted_invD [OF assms(1)]
  have "(a, rflags, p) \<in> set (m_fhs m)" using nth_mem [OF assms(4)] assms(5) by simp
  then have a: "a \<in> v_ent (view (m_st m))" using inv handles_okD(2) by blast
  have "okay (dfs_release E p rflags a (m_st m)) (\<lambda>(x, t). x \<noteq> 0 \<longrightarrow> view t = v_setlock a False (view (m_st m)))"
    using inv a by (intro okay_reader_release [OF _ _ _ assms(3,6)]) simp_all
  then have lock: "\<not> v_lock (view (m_st m1)) a"
    using assms(4,5,7,8) by (auto simp: on_handle_def)
  have inv1: "mounted_inv m1" using okay_serve [OF assms(1,2), of "Release i"] assms(7) by simp
  have "\<not> distinct (map fst (filter writes (m_fhs m2)))" if m2: "serve E (Open p flags) m1 = Ret (0, m2)" for m2
  proof -
    obtain b where b: "m_fhs m2 = (b, flags, p) # m_fhs m1" using m2 by (auto simp: opened_def)
    have "mounted_inv m2" using okay_serve [OF inv1 assms(2), of "Open p flags"] unfolding m2 by simp
    then have "handles_ok (m_fhs m2) (view (m_st m2))" by (simp add: mounted_inv_def)
    then have "v_tbl (view (m_st m2)) p = Some b" "v_tbl (view (m_st m2)) p = Some a"
      using handles_okD(1) b assms(9) by (metis list.set_intros(1), metis list.set_intros(2))
    then have "b = a" by simp
    moreover have "a \<in> set (map fst (filter writes (m_fhs m1)))" using assms(9,10) by force
    ultimately show ?thesis using b assms(11) by simp
  qed
  with lock show ?thesis by blast
qed

text \<open>A writer and a reader of one file, on a disk that fails \<^verbatim>\<open>fstat\<close>.\<close>

definition two_open :: "(nat, sample_dict) mounted" where
  "two_open = \<lparr>m_st = sample_open\<lparr>pes := (pes sample_open)(1 := map_option (refcount_update Suc) (pes sample_open 1))\<rparr>,
     m_fhs = [(1, O_RDONLY, ''/f''), (1, O_WRONLY, ''/f'')], m_ring = ring0\<rparr>"

definition bad_disk :: "(nat, sample_dict) env" where
  "bad_disk = (sample_remote DPL_SUCCESS)\<lparr>s_fstat := \<lambda>f w. (Inl 5, w)\<rparr>"

lemma bad_disk_ok: "fuse_env bad_disk" "pthreads_ok bad_disk"
  by (auto simp: fuse_env_def remote_ok_def bad_disk_def sample_remote_def inits_ok_def dpl_clean_def clean_on_def head_ok_def
    etag_ok_def zlib_laws_def write_ok_def MD5_DIGEST_LENGTH_def allocs_ok_def pthreads_ok_def)

lemma two_open_inv: "mounted_inv two_open"
proof -
  have "heap_inv (m_st two_open)"
    unfolding two_open_def
    by (subst heap_inv_cong [of _ sample_open])
      (auto simp: md_of_def path_of_def fun_eq_iff sample_open_def [THEN arg_cong [of _ _ pes]])
  moreover have "v_ent (view (m_st two_open)) = {1}" "v_tbl (view (m_st two_open)) = [''/f'' \<mapsto> 1]"
    "v_ref (view (m_st two_open)) 1 = 2"
    by (auto simp: two_open_def view_simps sample_open_def sample_pentry_def)
  ultimately show ?thesis
    by (simp add: mounted_inv_def handles_ok_def)
      (simp add: two_open_def view_simps sample_open_def [THEN arg_cong [of _ _ cfg]])
qed

lemma two_writers:
  "(case serve bad_disk (Release 0) two_open of
      Ret (r, m1) \<Rightarrow> r = -1 \<and> m_fhs m1 = [(1, O_WRONLY, ''/f'')] \<and>
        (case serve bad_disk (Open ''/f'' O_RDWR) m1 of Ret (q, m2) \<Rightarrow> q = 0 | Stuck h \<Rightarrow> False)
    | Stuck h \<Rightarrow> False)"
  by code_simp

theorem reader_unlocks_writer_witness:
  "\<exists>m1 m2. serve bad_disk (Release 0) two_open = Ret (-1, m1) \<and> serve bad_disk (Open ''/f'' O_RDWR) m1 = Ret (0, m2) \<and>
    \<not> distinct (map fst (filter writes (m_fhs m2)))"
proof -
  obtain m1 m2 where m: "serve bad_disk (Release 0) two_open = Ret (-1, m1)" "m_fhs m1 = [(1, O_WRONLY, ''/f'')]"
    "serve bad_disk (Open ''/f'' O_RDWR) m1 = Ret (0, m2)"
    using two_writers
    by (cases "serve bad_disk (Release 0) two_open"; clarsimp simp del: serve.simps)
      (force split: outcome.splits simp del: serve.simps)
  have "\<not> distinct (map fst (filter writes (m_fhs m2)))"
    using reader_unlocks_writer [OF two_open_inv bad_disk_ok _ _ _ m(1), of 1 O_RDONLY "''/f''" O_WRONLY O_RDWR] m(2,3)
    by (simp add: two_open_def writes_def get_mode_from_flags_def del: serve.simps)
  with m show ?thesis by blast
qed

end
