(* ===== verification/Threads.thy ===== *)
theory Threads
  imports Lifecycle
begin

text \<open>
  The threads that share the table: FUSE, which serves requests, the collector (\<^verbatim>\<open>thread_gc\<close>, \<^verbatim>\<open>src/gc.c\<close>), the
  cache-directory thread with its pool of workers (\<^verbatim>\<open>thread_cachedir\<close>, \<^verbatim>\<open>src/cachedir.c\<close>). The table has no
  lock. An interleaving is a sequence of events, each of which one thread runs to its end: a request; the visit of an
  entry of the table by the collector, in two events, because the collector reads the reference count before
  it takes the lock; the visit of an entry by the walk of the other thread, which may push it; the refresh of any pushed
  entry by a worker. Which entry \<^verbatim>\<open>g_hash_table_foreach\<close> visits next is left open. Two handlers are never
  interleaved with each other here.
\<close>

section \<open>A visit of the collector, in two halves\<close>

text \<open>Up to the test of the reference count; the rest.\<close>

definition gc_look :: "addr \<Rightarrow> ('w, 'd) state \<Rightarrow> bool outcome" where
  "gc_look pe s =
     (if pe = NULL then Stuck AssertFail else obind (pentry_get_refcount pe s) (\<lambda>n. Ret (n = 0)))"

definition gc_take :: "('w, 'd) env \<Rightarrow> string \<Rightarrow> addr \<Rightarrow> ('w, 'd) state \<Rightarrow> ('w, 'd) state outcome" where
  "gc_take E key pe s =
     obind (pentry_trylock E pe s) (\<lambda>(rc, s). if rc \<noteq> 0 then Ret s else gc_locked E key pe s)"

lemma gc_callback_halves:
  "gc_callback E key pe s = obind (gc_look pe s) (\<lambda>free. if free then gc_take E key pe s else Ret s)"
  by (cases "pentry_get_refcount pe s") (simp_all add: gc_callback_def gc_look_def gc_take_def)

lemma okay_gc_look [okay_rule]:
  assumes "heap_inv s" "a \<in> v_ent (view s)" "Q (v_ref (view s) a = 0)"
  shows "okay (gc_look a s) Q"
proof -
  have a: "a \<noteq> NULL" using assms(1,2) heap_inv_not_null by blast
  then show ?thesis
    unfolding gc_look_def using assms by (auto intro!: okay_getters simp: view_simps)
qed

lemma okay_gc_take [okay_rule]:
  assumes "heap_inv s" "v_tbl (view s) k = Some a"
    and "\<And>s'. heap_inv s' \<Longrightarrow> view s' = view s \<or> \<not> v_lock (view s) a \<and>
      (view s' = v_setlock a True (view s) \<or> view s' = v_drop k (view s)) \<Longrightarrow> Q s'"
  shows "okay (gc_take E k a s) Q"
  unfolding gc_take_def
  using assms(1,2) heap_inv_tbl_ent [OF assms(1,2)]
  by (auto intro!: okay_mutex okay_gc_locked [where v = "view s"] assms(3))

section \<open>The system\<close>

text \<open>The entry that the collector found without references, and the addresses that were pushed.\<close>

record ('w, 'd) system =
  y_fs :: "('w, 'd) mounted"
  y_seen :: "(string \<times> addr) option"
  y_pool :: "addr list"

abbreviation y_view :: "('w, 'd) system \<Rightarrow> view" where
  "y_view y \<equiv> view (m_st (y_fs y))"

abbreviation y_set :: "('w, 'd) state \<Rightarrow> ('w, 'd) system \<Rightarrow> ('w, 'd) system" where
  "y_set s y \<equiv> y\<lparr>y_fs := (y_fs y)\<lparr>m_st := s\<rparr>\<rparr>"

datatype event =
    Request request
  | Look string
  | Take
  | Push u64 string
  | Refresh nat

fun sys_step :: "('w, 'd) env \<Rightarrow> event \<Rightarrow> ('w, 'd) system \<Rightarrow> ('w, 'd) system outcome" where
  "sys_step E (Request r) y = obind (serve E r (y_fs y)) (\<lambda>(x, m). Ret (y\<lparr>y_fs := m\<rparr>))"
| "sys_step E (Look k) y =
     (case map_of (hash (m_st (y_fs y))) k of
        None \<Rightarrow> Ret y
      | Some a \<Rightarrow> obind (gc_look a (m_st (y_fs y))) (\<lambda>free. Ret (y\<lparr>y_seen := if free then Some (k, a) else None\<rparr>)))"
| "sys_step E Take y =
     (case y_seen y of
        None \<Rightarrow> Ret y
      | Some (k, a) \<Rightarrow> obind (gc_take E k a (m_st (y_fs y))) (\<lambda>s. Ret ((y_set s y)\<lparr>y_seen := None\<rparr>)))"
| "sys_step E (Push psz k) y =
     (case map_of (hash (m_st (y_fs y))) k of
        None \<Rightarrow> Ret y
      | Some a \<Rightarrow> obind (cachedir_callback psz E (k, a) (y_pool y, m_st (y_fs y))) (\<lambda>(pool, s).
          Ret ((y_set s y)\<lparr>y_pool := pool\<rparr>)))"
| "sys_step E (Refresh i) y =
     (if i < length (y_pool y)
      then obind (update_md E (y_pool y ! i) (m_st (y_fs y))) (\<lambda>s.
        Ret ((y_set s y)\<lparr>y_pool := take i (y_pool y) @ drop (Suc i) (y_pool y)\<rparr>))
      else Ret y)"

fun sys_run :: "('w, 'd) env \<Rightarrow> event list \<Rightarrow> ('w, 'd) system \<Rightarrow> ('w, 'd) system outcome" where
  "sys_run E [] y = Ret y"
| "sys_run E (e # es) y = obind (sys_step E e y) (sys_run E es)"

text \<open>The events that may take an entry out of the table.\<close>

fun drops :: "event \<Rightarrow> bool" where
  "drops (Request r) \<longleftrightarrow> removes r"
| "drops Take \<longleftrightarrow> True"
| "drops e \<longleftrightarrow> False"

text \<open>
  The events that the threads can bear in a state: a request that is calm; the second half of a visit when the entry
  is still in the table and nobody reads it; a refresh when the entry is still in the table (and has a path). While
  nothing is taken out of the table the last condition always holds.
\<close>

fun harmless :: "('w, 'd) env \<Rightarrow> ('w, 'd) system \<Rightarrow> event \<Rightarrow> bool" where
  "harmless E y (Request r) \<longleftrightarrow> calm E (y_fs y) r"
| "harmless E y Take \<longleftrightarrow> (case y_seen y of None \<Rightarrow> True
     | Some (k, a) \<Rightarrow> v_tbl (y_view y) k = Some a \<and> (v_ref (y_view y) a = 0 \<or> v_lock (y_view y) a))"
| "harmless E y (Refresh i) \<longleftrightarrow> (i < length (y_pool y) \<longrightarrow>
     y_pool y ! i \<in> ran (v_tbl (y_view y)) \<and> v_path (y_view y) (y_pool y ! i) \<noteq> None)"
| "harmless E y e \<longleftrightarrow> True"

fun growing :: "('w, 'd) env \<Rightarrow> ('w, 'd) system \<Rightarrow> event \<Rightarrow> bool" where
  "growing E y (Request r) \<longleftrightarrow> calm E (y_fs y) r \<and> \<not> removes r"
| "growing E y (Refresh i) \<longleftrightarrow> (i < length (y_pool y) \<longrightarrow> v_path (y_view y) (y_pool y ! i) \<noteq> None)"
| "growing E y e \<longleftrightarrow> \<not> drops e"

inductive interleaving ::
  "('w, 'd) env \<Rightarrow> (('w, 'd) system \<Rightarrow> event \<Rightarrow> bool) \<Rightarrow> ('w, 'd) system \<Rightarrow> event list \<Rightarrow> ('w, 'd) system \<Rightarrow> bool"
  for E G
where
  interleaving_Nil: "interleaving E G y [] y"
| interleaving_step: "interleaving E G y es y' \<Longrightarrow> G y' e \<Longrightarrow> sys_step E e y' = Ret y'' \<Longrightarrow>
    interleaving E G y (es @ [e]) y''"

lemma sys_run_append: "sys_run E (es @ fs) y = obind (sys_run E es y) (sys_run E fs)"
  by (induction es arbitrary: y) (simp_all add: obind_assoc cong: obind_cong)

lemma interleaving_run:
  assumes "\<And>y e. e \<in> set es \<Longrightarrow> G y e" "sys_run E es y = Ret y'" shows "interleaving E G y es y'"
  using assms
proof (induction es arbitrary: y' rule: rev_induct)
  case Nil
  then show ?case using interleaving_Nil by simp
next
  case (snoc e es)
  obtain y1 where y1: "sys_run E es y = Ret y1" "sys_step E e y1 = Ret y'"
    using snoc.prems(2) by (auto simp: sys_run_append)
  have "interleaving E G y es y1" using snoc.IH [OF _ y1(1)] snoc.prems(1) by simp
  then show ?case using snoc.prems(1) y1(2) by (rule interleaving_step) simp
qed

section \<open>One event\<close>

text \<open>
  A harmless event moves the abstract machine of \<open>Machine\<close>, or does nothing to it; it pushes entries of the table
  only.
\<close>

definition sys_post :: "('w, 'd) env \<Rightarrow> event \<Rightarrow> ('w, 'd) system \<Rightarrow> ('w, 'd) system \<Rightarrow> bool" where
  "sys_post E e y y' \<longleftrightarrow> mounted_inv (y_fs y') \<and> set (y_pool y') \<subseteq> set (y_pool y) \<union> ran (v_tbl (y_view y)) \<and>
     (y_view y' = y_view y \<and> m_fhs (y_fs y') = m_fhs (y_fs y) \<or>
      (\<exists>r x. (drops e \<or> \<not> removes r) \<and> move E r (m_fhs (y_fs y)) (y_view y) x (m_fhs (y_fs y')) (y_view y')))"

lemma sys_post_same:
  "mounted_inv (y_fs y) \<Longrightarrow> heap_inv (m_st (y_fs y')) \<Longrightarrow> m_ring (y_fs y') = m_ring (y_fs y) \<Longrightarrow> y_view y' = y_view y \<Longrightarrow>
    m_fhs (y_fs y') = m_fhs (y_fs y) \<Longrightarrow> set (y_pool y') \<subseteq> set (y_pool y) \<union> ran (v_tbl (y_view y)) \<Longrightarrow> sys_post E e y y'"
  by (simp add: sys_post_def mounted_inv_def)

lemma sys_post_take:
  assumes "mounted_inv (y_fs y)" "heap_inv s" "gc_keeps (y_view y) (view s)"
  shows "sys_post E Take y ((y_set s y)\<lparr>y_seen := None\<rparr>)"
proof -
  have "move E Collect (m_fhs (y_fs y)) (y_view y) 0 (m_fhs (y_fs y)) (view s)" by (rule move_collect [OF assms(3)])
  moreover from this have "mounted_inv ((y_fs y)\<lparr>m_st := s\<rparr>)"
    using assms(1,2) by (intro moved_inv [OF assms(1), of E Collect 0]) (simp add: moved_def mounted_inv_def)
  ultimately show ?thesis unfolding sys_post_def by auto
qed

lemma sys_post_request:
  assumes "mounted_inv (y_fs y)" "moved E r (y_fs y) (x, m)" shows "sys_post E (Request r) y (y\<lparr>y_fs := m\<rparr>)"
proof -
  have "move E r (m_fhs (y_fs y)) (y_view y) x (m_fhs m) (view (m_st m))" using assms(2) by (simp add: moved_def)
  then show ?thesis using moved_inv [OF assms] by (auto simp: sys_post_def)
qed

lemma take_keeps:
  assumes "heap_inv s" "v_tbl (view s) k = Some a" "v_ref (view s) a = 0 \<or> v_lock (view s) a"
    and "w = view s \<or> \<not> v_lock (view s) a \<and> (w = v_setlock a True (view s) \<or> w = v_drop k (view s))"
  shows "gc_keeps (view s) w"
  using assms(3,4) by (intro gc_post_keeps [OF assms(1,2)]) (auto simp: gc_post_def)

lemma okay_sys_step:
  assumes "mounted_inv (y_fs y)" "fuse_env E" "harmless E y e"
  shows "okay (sys_step E e y) (sys_post E e y)"
proof -
  note inv = mounted_invD [OF assms(1)]
  have same: "sys_post E e y y" using inv by (intro sys_post_same [OF assms(1)]) simp_all
  show ?thesis
  proof (cases e)
    case (Request r)
    have "okay (serve E r (y_fs y)) (moved E r (y_fs y))"
      using serve_refines [OF assms(1,2)] assms(3) Request by simp
    then show ?thesis using sys_post_request [OF assms(1)] unfolding Request by (auto elim!: okay_mono)
  next
    case (Look k)
    have "a \<in> v_ent (y_view y)" if "map_of (hash (m_st (y_fs y))) k = Some a" for a
      using heap_inv_tbl_ent inv that by (metis view_simps(1))
    then show ?thesis
      using inv same sys_post_same [OF assms(1), of "y\<lparr>y_seen := sn\<rparr>" E e for sn] unfolding Look
      by (auto intro!: okay_gc_look split: option.split)
  next
    case Take
    then show ?thesis
      using inv same assms(3) take_keeps
      by (auto intro!: okay_gc_take sys_post_take [OF assms(1)] split: option.splits)
  next
    case (Push psz k)
    have "sys_post E e y ((y_set s y)\<lparr>y_pool := y_pool y @ new\<rparr>)"
      if "heap_inv s" "view s = y_view y" "v_tbl (y_view y) k = Some a" "set new \<subseteq> {a}" for s new a
      using that by (intro sys_post_same [OF assms(1)]) (auto intro: ranI)
    then show ?thesis
      using inv same unfolding Push
      by (auto intro!: okay_cachedir_callback simp: view_simps(1) split: option.split)
  next
    case (Refresh i)
    have quiet: "dpl_clean E" "\<not> log_debug (m_st (y_fs y))"
      using fuse_envD [OF assms(2)] conf_ready_quiet [of "m_st (y_fs y)"] inv by simp_all
    have "set (take i xs @ drop (Suc i) xs) \<subseteq> set xs" for xs :: "addr list"
      using set_take_subset set_drop_subset by fastforce
    then have "sys_post E e y ((y_set s y)\<lparr>y_pool := take i (y_pool y) @ drop (Suc i) (y_pool y)\<rparr>)"
      if "heap_inv s" "view s = y_view y" for s
      using that by (intro sys_post_same [OF assms(1)]) (simp_all, blast)
    then show ?thesis
      using inv same assms(3) quiet v_tbl_range [of "m_st (y_fs y)"] unfolding Refresh
      by (auto intro!: okay_update_md)
  qed
qed

text \<open>While nothing is taken out of the table, what was pushed stays in it.\<close>

definition pinned :: "('w, 'd) system \<Rightarrow> bool" where
  "pinned y \<longleftrightarrow> mounted_inv (y_fs y) \<and> set (y_pool y) \<subseteq> ran (v_tbl (y_view y))"

lemma growing_harmless:
  assumes "pinned y" "growing E y e" shows "harmless E y e" "\<not> drops e"
proof -
  have "y_pool y ! i \<in> ran (v_tbl (y_view y))" if "i < length (y_pool y)" for i
    using assms(1) nth_mem [OF that] by (auto simp: pinned_def)
  then show "harmless E y e" "\<not> drops e" using assms(2) by (cases e; simp)+
qed

lemma okay_sys_grow:
  assumes "pinned y" "fuse_env E" "growing E y e"
  shows "okay (sys_step E e y) pinned"
proof (rule okay_mono [OF okay_sys_step])
  show "mounted_inv (y_fs y)" "fuse_env E" "harmless E y e"
    using assms growing_harmless by (auto simp: pinned_def)
  fix y' assume post: "sys_post E e y y'"
  have "v_tbl (y_view y) \<subseteq>\<^sub>m v_tbl (y_view y')"
    using post move_table(2) growing_harmless(2) [OF assms(1,3)] mounted_invD [of "y_fs y"] assms(1)
    unfolding sys_post_def pinned_def by (metis map_le_refl)
  then have "ran (v_tbl (y_view y)) \<subseteq> ran (v_tbl (y_view y'))" by (fastforce simp: ran_def map_le_def dom_def)
  then show "pinned y'" using post assms(1) unfolding sys_post_def pinned_def by blast
qed

section \<open>Properties\<close>

lemma interleaving_harmless:
  assumes "interleaving E (harmless E) y es y'" "mounted_inv (y_fs y)" "fuse_env E"
  shows "mounted_inv (y_fs y')"
  using assms
proof (induction rule: interleaving.induct)
  case (interleaving_step y es y' e y'')
  then have "okay (sys_step E e y') (sys_post E e y')" by (intro okay_sys_step) auto
  then show ?case using interleaving_step.hyps(3) by (simp add: sys_post_def)
qed

lemma interleaving_growing:
  assumes "interleaving E (growing E) y es y'" "pinned y" "fuse_env E"
  shows "pinned y'"
  using assms
proof (induction rule: interleaving.induct)
  case (interleaving_step y es y' e y'')
  then have "okay (sys_step E e y') pinned" by (intro okay_sys_grow) auto
  then show ?case using interleaving_step.hyps(3) by simp
qed


text \<open>
  C35: as long as nothing is taken out of the table the order does not matter at all: every address that the walk
  pushed is still an entry of the table when a worker takes it, and no event has undefined behaviour.
\<close>

theorem pool_safe:
  assumes "interleaving E (growing E) y es y'" "mounted_inv (y_fs y)" "y_pool y = []" "fuse_env E"
  shows "set (y_pool y') \<subseteq> ran (v_tbl (y_view y')) \<and> (\<forall>e. growing E y' e \<longrightarrow> okay (sys_step E e y') pinned)"
proof -
  have "pinned y'" using interleaving_growing [OF assms(1) _ assms(4)] assms(2,3) by (simp add: pinned_def)
  then show ?thesis using okay_sys_grow [OF _ assms(4)] by (simp add: pinned_def)
qed

text \<open>
  C8: the collector reads the reference count before it takes the lock, and a reader takes no lock. When a file is
  opened for reading between the two and the collector then finds it old, it frees the entry under the handle: the next
  read, write or release of the handle uses freed memory.
\<close>

theorem gc_open_race:
  assumes "mounted_inv (y_fs y)" "y_seen y = Some (k, a)" "i < length (m_fhs (y_fs y))"
    and "m_fhs (y_fs y) ! i = (a, flags, k)" "sys_step E Take y = Ret y'" "k \<notin> dom (v_tbl (y_view y'))"
  shows "sys_step E (Request (Read i n off)) y' = Stuck UseAfterFree \<and>
    sys_step E (Request (Write i bs off)) y' = Stuck UseAfterFree \<and>
    sys_step E (Request (Release i)) y' = Stuck UseAfterFree"
proof -
  note inv = mounted_invD [OF assms(1)]
  have "(a, flags, k) \<in> set (m_fhs (y_fs y))" using nth_mem [OF assms(3)] assms(4) by simp
  then have k: "v_tbl (y_view y) k = Some a" using inv handles_okD(1) by blast
  have "okay (sys_step E Take y) (\<lambda>y'. m_fhs (y_fs y') = m_fhs (y_fs y) \<and>
      (k \<notin> dom (v_tbl (y_view y')) \<longrightarrow> y_view y' = v_drop k (y_view y)))"
    using inv k assms(2) by (auto intro!: okay_gc_take)
  then have y': "m_fhs (y_fs y') = m_fhs (y_fs y)" "y_view y' = v_drop k (y_view y)"
    using assms(5,6) by simp_all
  moreover have "v_cfg (y_view y') = v_cfg (y_view y)" using y'(2) by (simp add: v_drop_def v_free_def split: option.split)
  moreover have "a \<notin> v_ent (y_view y')" using k y'(2) by (simp add: v_drop_simps)
  moreover have "a \<noteq> NULL" using view_okD(2) inv k by blast
  ultimately show ?thesis
    using freed_handle [of i "y_fs y'" a flags k E] assms(3,4) inv by simp
qed

text \<open>
  The two threads need no request to fail: when the collector removes an entry that the walk has pushed, the
  worker that takes the address reads freed memory.
\<close>

theorem refresh_race:
  assumes "mounted_inv (y_fs y)" "map_of (hash (m_st (y_fs y))) k = Some a" "i < length (y_pool y)" "y_pool y ! i = a"
    and "sys_run E [Look k, Take] y = Ret y'" "k \<notin> dom (v_tbl (y_view y'))"
  shows "sys_step E (Refresh i) y' = Stuck UseAfterFree"
proof -
  note inv = mounted_invD [OF assms(1)]
  have k: "v_tbl (y_view y) k = Some a" "a \<in> v_ent (y_view y)" "a \<noteq> NULL"
    using assms(2) view_okD inv by (auto simp: view_simps(1))
  have "okay (sys_run E [Look k, Take] y) (\<lambda>y'. y_pool y' = y_pool y \<and>
      (k \<notin> dom (v_tbl (y_view y')) \<longrightarrow> a \<notin> v_ent (y_view y')))"
    using inv k assms(2) by (auto intro!: okay_gc_look okay_gc_take split: option.split simp: v_drop_simps)
  then have "y_pool y' = y_pool y" "a \<notin> v_ent (y_view y')" using assms(6) unfolding assms(5) by simp_all
  then show ?thesis
    using k(3) assms(3,4) by (simp add: update_md_def pentry_get_path_def pe_at_def view_simps domIff)
qed

section \<open>Two threads and a file that nobody has open\<close>

definition idle_system :: "(nat, sample_dict) system" where
  "idle_system = \<lparr>y_fs = \<lparr>m_st = sample_closed\<lparr>cfg := sample_conf\<lparr>sc_age_threshold := 1\<rparr>\<rparr>, m_fhs = [], m_ring = ring0\<rparr>,
     y_seen = None, y_pool = []\<rparr>"

lemma idle_system_inv: "mounted_inv (y_fs idle_system)" "y_pool idle_system = []"
proof -
  have "heap_inv (sample_closed\<lparr>cfg := sample_conf\<lparr>sc_age_threshold := 1\<rparr>\<rparr>)"
    by (subst heap_inv_cong [of _ sample_closed]) (simp_all add: md_of_def path_of_def fun_eq_iff)
  then show "mounted_inv (y_fs idle_system)"
    by (simp add: idle_system_def mounted_inv_def view_simps conf_ready_def sample_conf_def LOG_DEBUG_def)
qed (simp add: idle_system_def)

definition answers :: "('w, 'd) system outcome \<Rightarrow> (('w, 'd) system \<Rightarrow> bool) \<Rightarrow> bool" where
  "answers m P = (case m of Ret y \<Rightarrow> P y | Stuck h \<Rightarrow> False)"

lemma answersE:
  assumes "answers m P" obtains y where "m = Ret y" "P y"
  using assms by (cases m) (auto simp: answers_def)

text \<open>The collector looks, a reader opens, the collector removes.\<close>

lemma idle_race:
  "answers (sys_run (sample_remote DPL_SUCCESS) [Look ''/f'', Request (Open ''/f'' O_RDONLY)] idle_system)
    (\<lambda>y. y_seen y = Some (''/f'', 1) \<and> m_fhs (y_fs y) = [(1, O_RDONLY, ''/f'')] \<and>
      answers (sys_step (sample_remote DPL_SUCCESS) Take y) (\<lambda>y'. map_of (hash (m_st (y_fs y'))) ''/f'' = None))"
  by code_simp

lemma idle_push:
  "answers (sys_run (sample_remote DPL_SUCCESS) [Push 300 ''/f''] idle_system)
    (\<lambda>y. map_of (hash (m_st (y_fs y))) ''/f'' = Some 1 \<and> y_pool y = [1] \<and>
      answers (sys_run (sample_remote DPL_SUCCESS) [Look ''/f'', Take] y) (\<lambda>y'. map_of (hash (m_st (y_fs y'))) ''/f'' = None))"
  by code_simp

lemma idle_race_system:
  obtains y y' where "sys_run (sample_remote DPL_SUCCESS) [Look ''/f'', Request (Open ''/f'' O_RDONLY)] idle_system = Ret y"
    "mounted_inv (y_fs y)" "y_seen y = Some (''/f'', 1)" "m_fhs (y_fs y) = [(1, O_RDONLY, ''/f'')]"
    "sys_step (sample_remote DPL_SUCCESS) Take y = Ret y'" "''/f'' \<notin> dom (v_tbl (y_view y'))"
proof -
  let ?E = "sample_remote DPL_SUCCESS" and ?es = "[Look ''/f'', Request (Open ''/f'' O_RDONLY)]"
  obtain y where y: "sys_run ?E ?es idle_system = Ret y"
    "y_seen y = Some (''/f'', 1) \<and> m_fhs (y_fs y) = [(1, O_RDONLY, ''/f'')] \<and>
      answers (sys_step ?E Take y) (\<lambda>y'. map_of (hash (m_st (y_fs y'))) ''/f'' = None)"
    using idle_race by (elim answersE)
  have "interleaving ?E (harmless ?E) idle_system ?es y" using y(1) by (rule interleaving_run [rotated]) auto
  then have "mounted_inv (y_fs y)" using idle_system_inv(1) by (rule interleaving_harmless) simp
  moreover obtain y' where "sys_step ?E Take y = Ret y'" "map_of (hash (m_st (y_fs y'))) ''/f'' = None"
    using y(2) by (auto elim: answersE)
  ultimately show thesis using that [of y y'] y by (simp add: view_simps(1) domIff)
qed

theorem gc_open_race_witness:
  "\<exists>y y'. sys_run (sample_remote DPL_SUCCESS) [Look ''/f'', Request (Open ''/f'' O_RDONLY)] idle_system = Ret y \<and>
    sys_step (sample_remote DPL_SUCCESS) Take y = Ret y' \<and>
    sys_step (sample_remote DPL_SUCCESS) (Request (Read 0 5 0)) y' = Stuck UseAfterFree"
proof (rule idle_race_system)
  fix y y'
  assume y: "sys_run (sample_remote DPL_SUCCESS) [Look ''/f'', Request (Open ''/f'' O_RDONLY)] idle_system = Ret y"
    "mounted_inv (y_fs y)" "y_seen y = Some (''/f'', 1)" "m_fhs (y_fs y) = [(1, O_RDONLY, ''/f'')]"
    "sys_step (sample_remote DPL_SUCCESS) Take y = Ret y'" "''/f'' \<notin> dom (v_tbl (y_view y'))"
  have "sys_step (sample_remote DPL_SUCCESS) (Request (Read 0 5 0)) y' = Stuck UseAfterFree"
    using gc_open_race [OF y(2,3) _ _ y(5,6), of 0 O_RDONLY 5 0] y(4) by (simp del: sys_step.simps)
  with y show ?thesis by blast
qed

theorem refresh_race_witness:
  "\<exists>y y'. sys_run (sample_remote DPL_SUCCESS) [Push 300 ''/f''] idle_system = Ret y \<and>
    sys_run (sample_remote DPL_SUCCESS) [Look ''/f'', Take] y = Ret y' \<and>
    sys_step (sample_remote DPL_SUCCESS) (Refresh 0) y' = Stuck UseAfterFree"
proof -
  let ?E = "sample_remote DPL_SUCCESS"
  obtain y where y: "sys_run ?E [Push 300 ''/f''] idle_system = Ret y"
    "map_of (hash (m_st (y_fs y))) ''/f'' = Some 1 \<and> y_pool y = [1] \<and>
      answers (sys_run ?E [Look ''/f'', Take] y) (\<lambda>y'. map_of (hash (m_st (y_fs y'))) ''/f'' = None)"
    using idle_push by (elim answersE)
  have "interleaving ?E (harmless ?E) idle_system [Push 300 ''/f''] y" using y(1) by (rule interleaving_run [rotated]) auto
  then have inv: "mounted_inv (y_fs y)" using idle_system_inv(1) by (rule interleaving_harmless) simp
  obtain y' where y': "sys_run ?E [Look ''/f'', Take] y = Ret y'" "map_of (hash (m_st (y_fs y'))) ''/f'' = None"
    using y(2) by (auto elim: answersE)
  have "sys_step ?E (Refresh 0) y' = Stuck UseAfterFree"
    using refresh_race [OF inv _ _ _ y'(1), of 1 0] y(2) y'(2) by (simp add: view_simps(1) domIff del: sys_step.simps sys_run.simps)
  with y y' show ?thesis by blast
qed


theorem pool_safe_witness:
  "\<exists>y. sys_run (sample_remote DPL_SUCCESS) [Push 300 ''/f''] idle_system = Ret y \<and> y_pool y = [1] \<and>
    set (y_pool y) \<subseteq> ran (v_tbl (y_view y))"
proof -
  let ?E = "sample_remote DPL_SUCCESS"
  obtain y where y: "sys_run ?E [Push 300 ''/f''] idle_system = Ret y" "y_pool y = [1]"
    using idle_push by (auto elim: answersE)
  have "interleaving ?E (growing ?E) idle_system [Push 300 ''/f''] y" using y(1) by (rule interleaving_run [rotated]) auto
  then have "set (y_pool y) \<subseteq> ran (v_tbl (y_view y))"
    using pool_safe idle_system_inv by fastforce
  with y show ?thesis by blast
qed

end
