(* ===== verification/Profile.thy ===== *)
theory Profile
  imports Io
begin

text \<open>
  \<^verbatim>\<open>src/profile.c\<close>: the hooks that the compiler calls on entry to and exit from a function log the
  calls of the functions \<^verbatim>\<open>dfs_*\<close> and count them. A hook's arguments here are what the dynamic linker
  answers for its return address (the name of the function, or nothing) and the time of day. The state is that of
  one thread; \<^verbatim>\<open>depth\<close> and the table are shared by all threads in the code, without a lock.
\<close>

section \<open>State\<close>

text \<open>A symbol of the table; \<open>name\<close> is NULL until it is set.\<close>

record sentry =
  se_name :: "string option"
  n_calls :: u32
  sum_duration :: u32

datatype log_file = FNull | FOpen int | FClosed

text \<open>
  What \<^verbatim>\<open>fprintf\<close> writes: the time, the mark that \<^verbatim>\<open>%.*s\<close> leaves, the function and for an exit the
  milliseconds; or a line of the report: the calls and their average duration.
\<close>

datatype pline =
    Enter timeval string string
  | Exit timeval string string int
  | Report "string option" u32 u32

record prof =
  fp_log :: log_file
  log_started :: bool
  depth :: u32
  tv_enter :: timeval
  symbols :: "(string \<times> sentry) list option"
  plog :: "pline list"

definition prof0 :: prof where
  "prof0 = \<lparr>fp_log = FNull, log_started = False, depth = 1, tv_enter = \<lparr>tv_sec = 0, tv_usec = 0\<rparr>,
            symbols = None, plog = []\<rparr>"

definition prof_print :: "pline \<Rightarrow> prof \<Rightarrow> prof outcome" where
  "prof_print l p = (case fp_log p of FNull \<Rightarrow> Stuck NullDeref | FClosed \<Rightarrow> Stuck UseAfterFree
     | FOpen f \<Rightarrow> Ret (p\<lparr>plog := plog p @ [l]\<rparr>))"

text \<open>\<^verbatim>\<open>%.*s\<close>: the precision cuts the string; a negative one does not.\<close>

definition precision :: "u32 \<Rightarrow> string \<Rightarrow> string" where
  "precision d t = (if sint d < 0 then t else take (nat (sint d)) t)"

section \<open>The functions\<close>

definition sentry_new :: "('w, 'd) env \<Rightarrow> ('w, 'd) state \<Rightarrow> (sentry option \<Rightarrow> ('w, 'd) state \<Rightarrow> 'b) \<Rightarrow> 'b" where
  "sentry_new E s k =
     call (malloc_ok E) s (\<lambda>ok s.
     k (if ok then Some \<lparr>se_name = None, n_calls = 0, sum_duration = 0\<rparr> else None) s)"

text \<open>The entry of a function that has none yet; \<^verbatim>\<open>se->name\<close> is written without a look at \<^verbatim>\<open>se\<close>.\<close>

definition add_symbol ::
  "('w, 'd) env \<Rightarrow> string \<Rightarrow> (string \<times> sentry) list \<Rightarrow> ('w, 'd) state \<Rightarrow>
    ((string \<times> sentry) list \<times> ('w, 'd) state) outcome"
where
  "add_symbol E nm tbl s =
     call (malloc_ok E) s (\<lambda>ok s.
     if \<not> ok then Ret (tbl, s)
     else sentry_new E s (\<lambda>se s.
       case se of None \<Rightarrow> Stuck NullDeref
       | Some se \<Rightarrow> call (malloc_ok E) s (\<lambda>ok s.
           if \<not> ok then Ret (tbl, s)
           else Ret (AList.update nm (se\<lparr>se_name := Some nm\<rparr>) tbl, s))))"

definition profiled :: "prof \<Rightarrow> ('w, 'd) state \<Rightarrow> string option \<Rightarrow> bool" where
  "profiled p s sname \<longleftrightarrow> log_started p \<and> profiling (cfg s) \<noteq> 0 \<and>
     (case sname of None \<Rightarrow> False | Some nm \<Rightarrow> strncasecmp_eq ''dfs_'' nm 4)"

definition cyg_profile_func_enter ::
  "('w, 'd) env \<Rightarrow> string option \<Rightarrow> timeval \<Rightarrow> prof \<Rightarrow> ('w, 'd) state \<Rightarrow> (prof \<times> ('w, 'd) state) outcome"
where
  "cyg_profile_func_enter E sname now p s =
     (if \<not> profiled p s sname then Ret (p, s)
      else let nm = the sname; p = p\<lparr>tv_enter := now\<rparr> in
        case symbols p of None \<Rightarrow> Stuck NullDeref
        | Some tbl \<Rightarrow>
          obind (if map_of tbl nm = None then add_symbol E nm tbl s else Ret (tbl, s)) (\<lambda>(tbl, s).
          obind (prof_print (Enter now (precision (depth p) ''>'') nm) (p\<lparr>symbols := Some tbl\<rparr>)) (\<lambda>p.
          Ret (p\<lparr>depth := depth p + 1\<rparr>, s))))"

definition cyg_profile_func_exit ::
  "string option \<Rightarrow> timeval \<Rightarrow> prof \<Rightarrow> ('w, 'd) state \<Rightarrow> prof outcome"
where
  "cyg_profile_func_exit sname now p s =
     (if \<not> profiled p s sname \<or> fp_log p = FNull then Ret p
      else let nm = the sname; tdiff = time_diff (tv_enter p) now; p = p\<lparr>depth := depth p - 1\<rparr> in
        obind (prof_print (Exit now (precision (depth p) ''<'') nm tdiff) p) (\<lambda>p.
        case symbols p of None \<Rightarrow> Stuck NullDeref
        | Some tbl \<Rightarrow> (case map_of tbl nm of
              None \<Rightarrow> Ret p
            | Some se \<Rightarrow> Ret (p\<lparr>symbols := Some (AList.update nm
                (se\<lparr>n_calls := n_calls se + 1, sum_duration := sum_duration se + word_of_int tdiff\<rparr>) tbl)\<rparr>))))"

definition profile_init :: "('w, 'd) env \<Rightarrow> prof \<Rightarrow> ('w, 'd) state \<Rightarrow> (prof \<times> ('w, 'd) state) outcome" where
  "profile_init E p s =
     (if profiling (cfg s) = 0 then Ret (p, s)
      else obind (cstr_get (profiling_logfile (cfg s))) (\<lambda>name.
        call (s_fopen E name ''a'') s (\<lambda>r s.
        case r of Inl e \<Rightarrow> Ret (p\<lparr>fp_log := FNull\<rparr>, s)
        | Inr f \<Rightarrow> Ret (p\<lparr>fp_log := FOpen f, log_started := True, symbols := Some []\<rparr>, s))))"

text \<open>\<^verbatim>\<open>sum_duration / n_calls\<close> of two \<^verbatim>\<open>unsigned int\<close>s.\<close>

definition cb_hash_report :: "string \<times> sentry \<Rightarrow> prof \<Rightarrow> prof outcome" where
  "cb_hash_report x p =
     (let se = snd x in prof_print (Report (se_name se) (n_calls se)
        (if n_calls se \<noteq> 0 then sum_duration se div n_calls se else 0)) p)"

text \<open>The file is closed, but neither \<^verbatim>\<open>fp_log\<close> nor \<^verbatim>\<open>log_started\<close> is reset.\<close>

definition profile_fini :: "('w, 'd) env \<Rightarrow> prof \<Rightarrow> ('w, 'd) state \<Rightarrow> (prof \<times> ('w, 'd) state) outcome" where
  "profile_fini E p s =
     obind (case fp_log p of
        FNull \<Rightarrow> Ret (p, s)
      | FClosed \<Rightarrow> Stuck UseAfterFree
      | FOpen f \<Rightarrow>
          obind (case symbols p of None \<Rightarrow> Ret p | Some tbl \<Rightarrow> run_all cb_hash_report tbl p) (\<lambda>p.
          call (s_fclose E f) s (\<lambda>_ s. Ret (p\<lparr>fp_log := FClosed\<rparr>, s)))) (\<lambda>(p, s).
     Ret (case symbols p of None \<Rightarrow> p | Some tbl \<Rightarrow> p\<lparr>symbols := Some []\<rparr>, s))"

section \<open>The invariant\<close>

text \<open>While the log is open there is a table, and every symbol of it carries its own name.\<close>

definition prof_ok :: "prof \<Rightarrow> bool" where
  "prof_ok p \<longleftrightarrow> (log_started p \<longrightarrow> fp_log p \<noteq> FNull \<and> symbols p \<noteq> None) \<and>
     (\<forall>tbl. symbols p = Some tbl \<longrightarrow> distinct (map fst tbl) \<and> (\<forall>(k, se) \<in> set tbl. se_name se = Some k))"

lemma prof_ok0 [simp]: "prof_ok prof0"
  by (simp add: prof_ok_def prof0_def)

lemma set_AList_update: "distinct (map fst tbl) \<Longrightarrow> set (AList.update k v tbl) = insert (k, v) {x \<in> set tbl. fst x \<noteq> k}"
  by (induction tbl) (auto simp: image_iff)

lemma named_update:
  assumes "distinct (map fst tbl)" "\<forall>(k, se) \<in> set tbl. se_name se = Some k" "se_name se = Some nm"
  shows "distinct (map fst (AList.update nm se tbl))" "\<forall>(k, se) \<in> set (AList.update nm se tbl). se_name se = Some k"
  using assms by (auto simp: set_AList_update distinct_update)

lemma prof_print_open [simp]: "fp_log p = FOpen f \<Longrightarrow> prof_print l p = Ret (p\<lparr>plog := plog p @ [l]\<rparr>)"
  by (simp add: prof_print_def)

text \<open>When every \<^verbatim>\<open>malloc\<close> succeeds, an open log stays open and every profiled function gets its symbol.\<close>

definition mallocs_ok :: "('w, 'd) env \<Rightarrow> bool" where
  "mallocs_ok E \<longleftrightarrow> (\<forall>w. fst (malloc_ok E w))"

definition symbol0 :: "string \<Rightarrow> sentry" where
  "symbol0 nm = \<lparr>se_name = Some nm, n_calls = 0, sum_duration = 0\<rparr>"

lemma add_symbol_ok:
  assumes "mallocs_ok E"
  shows "\<exists>w. add_symbol E nm tbl s = Ret (AList.update nm (symbol0 nm) tbl, s\<lparr>world := w\<rparr>)"
proof -
  obtain w1 where 1: "malloc_ok E (world s) = (True, w1)" using assms by (metis mallocs_ok_def prod.collapse)
  obtain w2 where 2: "malloc_ok E w1 = (True, w2)" using assms by (metis mallocs_ok_def prod.collapse)
  obtain w3 where 3: "malloc_ok E w2 = (True, w3)" using assms by (metis mallocs_ok_def prod.collapse)
  have "add_symbol E nm tbl s = Ret (AList.update nm (symbol0 nm) tbl, s\<lparr>world := w3\<rparr>)"
    by (simp add: add_symbol_def sentry_new_def call_def 1 2 3 symbol0_def)
  then show ?thesis by blast
qed

definition sentry_of :: "prof \<Rightarrow> string \<Rightarrow> sentry option" where
  "sentry_of p nm = (case symbols p of None \<Rightarrow> None | Some tbl \<Rightarrow> map_of tbl nm)"

text \<open>What one hook does to an open log.\<close>

lemma enter_open:
  assumes "mallocs_ok E" "fp_log p = FOpen f" "symbols p = Some tbl" "profiled p s (Some nm)"
  shows "\<exists>p' s'. cyg_profile_func_enter E (Some nm) now p s = Ret (p', s') \<and> fp_log p' = FOpen f \<and>
    log_started p' = log_started p \<and> cfg s' = cfg s \<and> depth p' = depth p + 1 \<and> tv_enter p' = now \<and>
    symbols p' = Some (if map_of tbl nm = None then AList.update nm (symbol0 nm) tbl else tbl)"
proof -
  obtain w where w: "add_symbol E nm tbl s = Ret (AList.update nm (symbol0 nm) tbl, s\<lparr>world := w\<rparr>)"
    using add_symbol_ok [OF assms(1)] by blast
  show ?thesis
    by (cases "map_of tbl nm = None")
      (auto simp: assms(2-4) w cyg_profile_func_enter_def prof_print_def simp del: obind_eq_Ret)
qed

lemma exit_open:
  assumes "fp_log p = FOpen f" "symbols p = Some tbl" "profiled p s (Some nm)" "map_of tbl nm = Some se"
  shows "\<exists>p'. cyg_profile_func_exit (Some nm) now p s = Ret p' \<and> fp_log p' = FOpen f \<and>
    log_started p' = log_started p \<and> depth p' = depth p - 1 \<and> tv_enter p' = tv_enter p \<and>
    symbols p' = Some (AList.update nm (se\<lparr>n_calls := n_calls se + 1,
      sum_duration := sum_duration se + word_of_int (time_diff (tv_enter p) now)\<rparr>) tbl)"
  by (simp add: assms cyg_profile_func_exit_def prof_print_def Let_def del: obind_eq_Ret)

lemma profiled_cong:
  "log_started p' = log_started p \<Longrightarrow> cfg s' = cfg s \<Longrightarrow> profiled p' s' nm = profiled p s nm"
  by (simp add: profiled_def)

section \<open>Properties\<close>

text \<open>The calls of one thread, entered (\<open>Inl\<close>) and left (\<open>Inr\<close>) at given times.\<close>

definition hook ::
  "('w, 'd) env \<Rightarrow> (string \<times> timeval) + (string \<times> timeval) \<Rightarrow> prof \<times> ('w, 'd) state \<Rightarrow> (prof \<times> ('w, 'd) state) outcome"
where
  "hook E ev ps = (case ps of (p, s) \<Rightarrow> case ev of
      Inl (nm, now) \<Rightarrow> cyg_profile_func_enter E (Some nm) now p s
    | Inr (nm, now) \<Rightarrow> obind (cyg_profile_func_exit (Some nm) now p s) (\<lambda>p. Ret (p, s)))"

text \<open>
  The duration that is booked on a function that calls another profiled function runs from the entry of the inner
  call to the exit of the outer one: \<^verbatim>\<open>tv_enter\<close> is one variable for all nested calls.
\<close>

theorem profile_nested_duration:
  assumes "mallocs_ok E" "fp_log p = FOpen f" "symbols p = Some []" "f1 \<noteq> f2"
    and "profiled p s (Some f1)" "profiled p s (Some f2)"
  shows "rets (run_all (hook E) [Inl (f1, t1), Inl (f2, t2), Inr (f2, t3), Inr (f1, t4)] (p, s)) (\<lambda>(p', s').
    depth p' = depth p \<and> map_option sum_duration (sentry_of p' f2) = Some (word_of_int (time_diff t2 t3)) \<and>
    map_option sum_duration (sentry_of p' f1) = Some (word_of_int (time_diff t2 t4)))"
proof -
  obtain p1 s1 where 1: "cyg_profile_func_enter E (Some f1) t1 p s = Ret (p1, s1)" "fp_log p1 = FOpen f"
      "log_started p1 = log_started p" "cfg s1 = cfg s" "depth p1 = depth p + 1" "symbols p1 = Some [(f1, symbol0 f1)]"
    using enter_open [OF assms(1-3,5), of t1] by auto
  have q1: "profiled p1 s1 (Some f1)" "profiled p1 s1 (Some f2)"
    using assms(5,6) profiled_cong [OF 1(3,4)] by simp_all
  obtain p2 s2 where 2: "cyg_profile_func_enter E (Some f2) t2 p1 s1 = Ret (p2, s2)" "fp_log p2 = FOpen f"
      "log_started p2 = log_started p1" "cfg s2 = cfg s1" "depth p2 = depth p1 + 1" "tv_enter p2 = t2"
      "symbols p2 = Some [(f1, symbol0 f1), (f2, symbol0 f2)]"
    using enter_open [OF assms(1) 1(2,6) q1(2), of t2] assms(4) by auto
  have q2: "profiled p2 s2 (Some f1)" "profiled p2 s2 (Some f2)"
    using q1 profiled_cong [OF 2(3,4)] by simp_all
  obtain p3 where 3: "cyg_profile_func_exit (Some f2) t3 p2 s2 = Ret p3" "fp_log p3 = FOpen f"
      "log_started p3 = log_started p2" "depth p3 = depth p2 - 1" "tv_enter p3 = t2"
      "symbols p3 = Some [(f1, symbol0 f1), (f2, (symbol0 f2)\<lparr>n_calls := 1, sum_duration := word_of_int (time_diff t2 t3)\<rparr>)]"
    using exit_open [OF 2(2,7) q2(2), of "symbol0 f2" t3] assms(4) 2(6) by (auto simp: symbol0_def)
  have q3: "profiled p3 s2 (Some f1)" using q2(1) profiled_cong [OF 3(3), of s2 s2] by simp
  obtain p4 where 4: "cyg_profile_func_exit (Some f1) t4 p3 s2 = Ret p4" "depth p4 = depth p3 - 1"
      "symbols p4 = Some (AList.update f1 ((symbol0 f1)\<lparr>n_calls := 1, sum_duration := word_of_int (time_diff t2 t4)\<rparr>) (the (symbols p3)))"
    using exit_open [OF 3(2,6) q3, of "symbol0 f1" t4] assms(4) 3(5,6) by (auto simp: symbol0_def)
  have "depth p4 = depth p" using 1(5) 2(5) 3(4) 4(2) by simp
  moreover have run: "run_all (hook E) [Inl (f1, t1), Inl (f2, t2), Inr (f2, t3), Inr (f1, t4)] (p, s) = Ret (p4, s2)"
    by (simp add: hook_def 1(1) 2(1) 3(1) 4(1))
  ultimately show ?thesis
    unfolding run using 3(6) 4(3) assms(4) by (simp add: sentry_of_def)
qed

theorem profile_nested_duration_witness:
  "rets (run_all (hook (sample DPL_SUCCESS)) [Inl (''dfs_create'', \<lparr>tv_sec = 1, tv_usec = 0\<rparr>), Inl (''dfs_open'', \<lparr>tv_sec = 5, tv_usec = 0\<rparr>),
      Inr (''dfs_open'', \<lparr>tv_sec = 6, tv_usec = 0\<rparr>), Inr (''dfs_create'', \<lparr>tv_sec = 7, tv_usec = 0\<rparr>)]
      (prof0\<lparr>fp_log := FOpen 4, log_started := True, symbols := Some []\<rparr>, sample_state\<lparr>cfg := sample_conf\<lparr>profiling := 1\<rparr>\<rparr>))
    (\<lambda>(p', s'). depth p' = 1 \<and> map_option sum_duration (sentry_of p' ''dfs_open'') = Some 1000 \<and>
      map_option sum_duration (sentry_of p' ''dfs_create'') = Some 2000)"
proof -
  let ?p = "prof0\<lparr>fp_log := FOpen 4, log_started := True, symbols := Some []\<rparr>"
    and ?s = "sample_state\<lparr>cfg := sample_conf\<lparr>profiling := 1\<rparr>\<rparr>"
  have "profiled ?p ?s (Some ''dfs_create'')" "profiled ?p ?s (Some ''dfs_open'')"
    by (simp_all add: profiled_def strncasecmp_eq_def)
  moreover have "mallocs_ok (sample DPL_SUCCESS)" by (simp add: mallocs_ok_def)
  moreover have "time_diff \<lparr>tv_sec = 5, tv_usec = 0\<rparr> \<lparr>tv_sec = 6, tv_usec = 0\<rparr> = 1000"
    "time_diff \<lparr>tv_sec = 5, tv_usec = 0\<rparr> \<lparr>tv_sec = 7, tv_usec = 0\<rparr> = 2000" by code_simp+
  moreover have "depth ?p = 1" by (simp add: prof0_def)
  ultimately show ?thesis
    using profile_nested_duration [of "sample DPL_SUCCESS" ?p 4 "''dfs_create''" "''dfs_open''" ?s
        "\<lparr>tv_sec = 1, tv_usec = 0\<rparr>" "\<lparr>tv_sec = 5, tv_usec = 0\<rparr>" "\<lparr>tv_sec = 6, tv_usec = 0\<rparr>" "\<lparr>tv_sec = 7, tv_usec = 0\<rparr>"]
    by (simp only: prof.simps) simp
qed


text \<open>The number of calls of a function that a history of hooks should book: none before its first entry.\<close>

definition count_op :: "string \<Rightarrow> (string \<times> timeval) + (string \<times> timeval) \<Rightarrow> nat option \<Rightarrow> nat option" where
  "count_op f ev n = (case ev of
      Inl (g, _) \<Rightarrow> if g = f then Some (case n of None \<Rightarrow> 0 | Some k \<Rightarrow> k) else n
    | Inr (g, _) \<Rightarrow> if g = f then map_option Suc n else n)"

definition ev_name :: "(string \<times> timeval) + (string \<times> timeval) \<Rightarrow> string" where
  "ev_name ev = (case ev of Inl x \<Rightarrow> fst x | Inr x \<Rightarrow> fst x)"

definition counted :: "prof \<Rightarrow> string \<Rightarrow> nat option \<Rightarrow> bool" where
  "counted p f n \<longleftrightarrow> map_option n_calls (sentry_of p f) = map_option of_nat n"

lemma hook_counted:
  assumes "mallocs_ok E" "fp_log p = FOpen lf" "symbols p \<noteq> None" "profiled p s (Some (ev_name ev))" "counted p f n"
  shows "\<exists>p' s'. hook E ev (p, s) = Ret (p', s') \<and> fp_log p' = FOpen lf \<and> symbols p' \<noteq> None \<and>
    log_started p' = log_started p \<and> cfg s' = cfg s \<and> counted p' f (count_op f ev n)"
proof -
  obtain tbl where tbl: "symbols p = Some tbl" using assms(3) by blast
  have n: "map_option n_calls (map_of tbl f) = map_option of_nat n" using assms(5) by (simp add: counted_def sentry_of_def tbl)
  show ?thesis
  proof (cases ev)
    case (Inl x)
    obtain g t where x: "x = (g, t)" by (cases x)
    have "profiled p s (Some g)" using assms(4) by (simp add: Inl x ev_name_def)
    from enter_open [OF assms(1,2) tbl this, of t] obtain p' s' where
      p': "cyg_profile_func_enter E (Some g) t p s = Ret (p', s')" "fp_log p' = FOpen lf" "log_started p' = log_started p"
        "cfg s' = cfg s" "symbols p' = Some (if map_of tbl g = None then AList.update g (symbol0 g) tbl else tbl)" by blast
    have "counted p' f (count_op f ev n)"
      using n by (cases n) (auto simp: counted_def sentry_of_def p'(5) count_op_def Inl x symbol0_def)
    then show ?thesis using p' by (auto simp: hook_def Inl x)
  next
    case (Inr x)
    obtain g t where x: "x = (g, t)" by (cases x)
    have g: "profiled p s (Some g)" using assms(4) by (simp add: Inr x ev_name_def)
    show ?thesis
    proof (cases "map_of tbl g")
      case None
      then have "\<exists>p'. cyg_profile_func_exit (Some g) t p s = Ret p' \<and> fp_log p' = FOpen lf \<and>
          log_started p' = log_started p \<and> symbols p' = Some tbl"
        using assms(2) tbl g by (simp add: cyg_profile_func_exit_def prof_print_def Let_def del: obind_eq_Ret)
      then obtain p' where p': "cyg_profile_func_exit (Some g) t p s = Ret p'" "fp_log p' = FOpen lf"
          "log_started p' = log_started p" "symbols p' = Some tbl" by blast
      have "counted p' f (count_op f ev n)"
        using n None by (cases n) (auto simp: counted_def sentry_of_def p'(4) count_op_def Inr x)
      then show ?thesis using p' by (auto simp: hook_def Inr x)
    next
      case (Some se)
      from exit_open [OF assms(2) tbl g Some, of t] obtain p' where p': "cyg_profile_func_exit (Some g) t p s = Ret p'"
          "fp_log p' = FOpen lf" "log_started p' = log_started p"
          "symbols p' = Some (AList.update g (se\<lparr>n_calls := n_calls se + 1,
             sum_duration := sum_duration se + word_of_int (time_diff (tv_enter p) t)\<rparr>) tbl)" by blast
      have "counted p' f (count_op f ev n)"
        using n Some by (cases n) (auto simp: counted_def sentry_of_def p'(4) count_op_def Inr x)
      then show ?thesis using p' by (auto simp: hook_def Inr x)
    qed
  qed
qed

text \<open>
  C39: for every history of entries and exits of profiled functions, the table books for each function the number of
  exits since its first entry, modulo 2 ^ 32.
\<close>

theorem profile_counts:
  assumes "mallocs_ok E" "fp_log p = FOpen lf" "symbols p = Some []" "list_all (\<lambda>ev. profiled p s (Some (ev_name ev))) evs"
  shows "rets (run_all (hook E) evs (p, s)) (\<lambda>(p', s'). counted p' f (fold (count_op f) evs None))"
proof -
  have "rets (run_all (hook E) evs (q, t)) (\<lambda>(p', s'). counted p' f (fold (count_op f) evs n))"
    if "fp_log q = FOpen lf" "symbols q \<noteq> None" "list_all (\<lambda>ev. profiled q t (Some (ev_name ev))) evs" "counted q f n"
    for q n and t :: "('a, 'b) state"
    using that
  proof (induction evs arbitrary: q t n)
    case (Cons ev evs)
    have "profiled q t (Some (ev_name ev))" using Cons.prems(3) by simp
    from hook_counted [OF assms(1) Cons.prems(1,2) this Cons.prems(4)] obtain q' t' where
      q': "hook E ev (q, t) = Ret (q', t')" "fp_log q' = FOpen lf" "symbols q' \<noteq> None"
        "log_started q' = log_started q" "cfg t' = cfg t" "counted q' f (count_op f ev n)" by blast
    have "rets (run_all (hook E) evs (q', t')) (\<lambda>(p', s'). counted p' f (fold (count_op f) evs (count_op f ev n)))"
      using q' Cons.prems(3) profiled_cong [OF q'(4,5)] by (intro Cons.IH) simp_all
    then show ?case by (simp add: q'(1))
  qed simp
  moreover have "counted p f None" using assms(3) by (simp add: counted_def sentry_of_def)
  ultimately show ?thesis using assms by auto
qed

theorem profile_counts_witness:
  "rets (run_all (hook (sample DPL_SUCCESS)) [Inl (''dfs_open'', \<lparr>tv_sec = 5, tv_usec = 0\<rparr>), Inr (''dfs_open'', \<lparr>tv_sec = 6, tv_usec = 0\<rparr>)]
      (prof0\<lparr>fp_log := FOpen 4, log_started := True, symbols := Some []\<rparr>, sample_state\<lparr>cfg := sample_conf\<lparr>profiling := 1\<rparr>\<rparr>))
    (\<lambda>(p', s'). counted p' ''dfs_open'' (Some 1))"
proof -
  let ?p = "prof0\<lparr>fp_log := FOpen 4, log_started := True, symbols := Some []\<rparr>"
    and ?s = "sample_state\<lparr>cfg := sample_conf\<lparr>profiling := 1\<rparr>\<rparr>"
    and ?evs = "[Inl (''dfs_open'', \<lparr>tv_sec = 5, tv_usec = 0\<rparr>), Inr (''dfs_open'', \<lparr>tv_sec = 6, tv_usec = 0\<rparr>)]"
  have c: "fold (count_op ''dfs_open'') ?evs None = Some 1" by (simp add: count_op_def)
  show ?thesis
    by (rule profile_counts [where p = ?p and s = ?s and evs = ?evs and f = "''dfs_open''", unfolded c])
      (simp_all add: mallocs_ok_def ev_name_def profiled_def strncasecmp_eq_def)
qed

text \<open>
  The log file is closed by \<^verbatim>\<open>profile_fini\<close> but still in use: \<^verbatim>\<open>dfs_destroy\<close> calls it and
  is itself profiled, so the hook on its exit writes to the closed file.
\<close>

theorem profile_after_fini:
  assumes "prof_ok p" "fp_log p = FOpen f" "profile_fini E p s = Ret (p', t)" "profiled p s (Some nm)"
  shows "cyg_profile_func_exit (Some nm) now p' t = Stuck UseAfterFree"
proof -
  obtain tbl where tbl: "symbols p = Some tbl" using assms(1,4) by (auto simp: prof_ok_def profiled_def split: option.splits)
  have report: "keeps (run_all cb_hash_report xs q) (\<lambda>q'. fp_log q' = fp_log q \<and> log_started q' = log_started q \<and> symbols q' = symbols q)"
    for xs q
  proof (induction xs arbitrary: q)
    case (Cons x xs)
    have "keeps (cb_hash_report x q) (\<lambda>q'. fp_log q' = fp_log q \<and> log_started q' = log_started q \<and> symbols q' = symbols q)"
      by (auto simp: cb_hash_report_def prof_print_def Let_def split: log_file.split)
    then show ?case by (auto elim!: keeps_mono intro: keeps_mono [OF Cons.IH])
  qed simp
  have "keeps (profile_fini E p s) (\<lambda>(p', t). fp_log p' = FClosed \<and> log_started p' = log_started p \<and> cfg t = cfg s)"
    by (simp add: profile_fini_def assms(2) tbl, rule keeps_mono [OF report], auto intro!: keeps_call split: option.split)
  then have p': "fp_log p' = FClosed" "profiled p' t (Some nm)"
    using assms(3,4) profiled_cong [of p' p t s] by simp_all
  then show ?thesis by (simp add: cyg_profile_func_exit_def prof_print_def Let_def)
qed

theorem profile_after_fini_witness:
  "cyg_profile_func_exit (Some ''dfs_destroy'') \<lparr>tv_sec = 9, tv_usec = 0\<rparr>
      (prof0\<lparr>fp_log := FClosed, log_started := True, symbols := Some []\<rparr>) (sample_state\<lparr>cfg := sample_conf\<lparr>profiling := 1\<rparr>\<rparr>) =
    Stuck UseAfterFree"
proof (rule profile_after_fini)
  let ?p = "prof0\<lparr>fp_log := FOpen 4, log_started := True, symbols := Some []\<rparr>"
  show "prof_ok ?p" "fp_log ?p = FOpen 4" by (simp_all add: prof_ok_def)
  show "profile_fini (sample DPL_SUCCESS) ?p (sample_state\<lparr>cfg := sample_conf\<lparr>profiling := 1\<rparr>\<rparr>) =
      Ret (prof0\<lparr>fp_log := FClosed, log_started := True, symbols := Some []\<rparr>, sample_state\<lparr>cfg := sample_conf\<lparr>profiling := 1\<rparr>\<rparr>)"
    by (simp add: profile_fini_def call_def prof0_def)
  show "profiled ?p (sample_state\<lparr>cfg := sample_conf\<lparr>profiling := 1\<rparr>\<rparr>) (Some ''dfs_destroy'')"
    by (simp add: profiled_def strncasecmp_eq_def)
qed

end
