(* ===== verification/Main_Program.thy ===== *)
theory Main_Program
  imports Profile Conf_Safe Cachedir
begin

text \<open>
  \<^verbatim>\<open>src/dropletfs.c\<close>: the command line, start-up, the end of a session and shutdown. The global
  pointer \<^verbatim>\<open>conf\<close> is explicit here, because both \<^verbatim>\<open>dfs_destroy\<close> and \<^verbatim>\<open>main\<close> free what it
  points to; the contents are the configuration of the state. FUSE is a parameter: whether it mounts the file system,
  and what a session does between the mount and the call of \<^verbatim>\<open>dfs_destroy\<close>.
\<close>

section \<open>The end of a session\<close>

datatype confp = CfNull | CfLive | CfFreed

text \<open>The first thing a trace does is to read \<^verbatim>\<open>conf->log_level\<close>.\<close>

definition conf_trace :: "confp \<Rightarrow> unit outcome" where
  "conf_trace cp = (case cp of CfNull \<Rightarrow> Stuck NullDeref | CfFreed \<Rightarrow> Stuck UseAfterFree | CfLive \<Rightarrow> Ret ())"

text \<open>\<^verbatim>\<open>if (conf) conf_free(conf)\<close>\<close>

definition conf_release :: "confp \<Rightarrow> conf \<Rightarrow> confp outcome" where
  "conf_release cp c = (case cp of CfNull \<Rightarrow> Ret CfNull | CfFreed \<Rightarrow> Stuck UseAfterFree
     | CfLive \<Rightarrow> obind (conf_free c) (\<lambda>_. Ret CfFreed))"

definition cb_hash_unlink :: "('w, 'd) env \<Rightarrow> string \<Rightarrow> addr \<Rightarrow> ('w, 'd) state \<Rightarrow> ('w, 'd) state outcome" where
  "cb_hash_unlink E key pe s =
     (if pe = NULL then Ret s
      else obind (pentry_get_placeholder pe s) (\<lambda>ph.
        if ph = FILE_LOCAL then pentry_unlink_cache_file E pe s else Ret s))"

definition dfs_destroy ::
  "('w, 'd) env \<Rightarrow> confp \<Rightarrow> prof \<Rightarrow> ('w, 'd) state \<Rightarrow> (confp \<times> prof \<times> ('w, 'd) state) outcome"
where
  "dfs_destroy E cp p s =
     obind (conf_trace cp) (\<lambda>_.
     obind (profile_fini E p s) (\<lambda>(p, s).
     obind (g_hash_table_foreach (cb_hash_unlink E) (hash s) s) (\<lambda>s.
     obind (g_hash_table_remove_all E s) (\<lambda>s.
     obind (conf_release cp (cfg s)) (\<lambda>cp.
     obind (conf_trace cp) (\<lambda>_. Ret (cp, p, s)))))))"

section \<open>Start-up\<close>

text \<open>
  The bucket, whether the debug mode is set, and what is left of \<^verbatim>\<open>argv\<close>; \<open>None\<close> prints the usage. The option is
  looked for in \<^verbatim>\<open>argv[0]\<close> after the shift by one, which is the bucket.
\<close>

definition main_args :: "string list \<Rightarrow> (string \<times> bool \<times> string list) option" where
  "main_args argv =
     (if length argv < 3 then None
      else let bucket = argv ! 1; args = tl argv; dbg = (take 2 (hd args) = ''-d'')
           in Some (bucket, dbg, if dbg then tl args else args))"

definition arg_at :: "string list \<Rightarrow> nat \<Rightarrow> string option" where
  "arg_at args i = (if i < length args then Some (args ! i) else None)"

text \<open>The level is at least \<^verbatim>\<open>LOG_ERR\<close>: every line is formatted. glibc prints a null string.\<close>

definition cstr_printable :: "cstr \<Rightarrow> unit outcome" where
  "cstr_printable c = (if c = CFreed then Stuck UseAfterFree else Ret ())"

definition conf_log :: "('w, 'd) state \<Rightarrow> unit outcome" where
  "conf_log s =
     LOG LOG_ERR s
       (obind (cstr_printable (encryption_method (cfg s))) (\<lambda>_.
        obind (cstr_printable (compression_method (cfg s))) (\<lambda>_.
        obind (cstr_printable (cache_dir (cfg s))) (\<lambda>_.
        obind (log_level_to_str (sint (log_level (cfg s)))) (\<lambda>_.
        obind (cstr_printable (re_str (regex (cfg s)))) (\<lambda>_.
        cstr_printable (profiling_logfile (cfg s))))))))"

text \<open>What \<^verbatim>\<open>main\<close> prints to its standard output: lists of lines.\<close>

definition usage :: "string \<Rightarrow> string list" where
  "usage prog = (let tab = CHR 0x09 in
     [''Usage: '' @ prog @ '' <bucket> [-d] <mountpoint> [options]'',
      tab # ''<bucket>'' @ tab # ''the name of your remote bucket'',
      tab # ''-d'' @ tab # tab # ''set the debug mode. Information are written in syslog'',
      tab # ''<mountpoint>'' @ tab # ''the directory you want to use as mount point.'',
      tab # tab # tab # ''The directory must exist'',
      tab # ''[options]'' @ tab # ''fuse/mount options''])"

text \<open>The fields of libdroplet's context that are read or written; \<open>None\<close> is a null string.\<close>

record dpl_ctx =
  n_conn_buckets :: int
  n_conn_max :: int
  n_conn_max_hits :: int
  conn_idle_time :: int
  conn_timeout :: int
  read_timeout :: int
  write_timeout :: int
  use_https :: int
  host :: "string option"
  port :: int
  access_key :: "string option"
  secret_key :: "string option"
  ssl_cert_file :: "string option"
  ssl_key_file :: "string option"
  ssl_password :: "string option"
  ssl_ca_list :: "string option"
  trace_level :: int
  pricing :: "string option"
  read_buf_size :: u32
  encrypt_key :: "string option"
  delim :: "string option"
  n_conn_fds :: int
  cur_bucket :: "string option"
  droplet_dir :: "string option"
  profile_name :: "string option"

definition pp_int :: "string \<Rightarrow> int \<Rightarrow> string" where
  "pp_int field i = field @ '': '' @ (if i < 0 then CHR ''-'' # dec (nat (- i)) else dec (nat i))"

definition pp_str :: "string \<Rightarrow> string option \<Rightarrow> string" where
  "pp_str field x = field @ '': '' @ (case x of None \<Rightarrow> ''(null)'' | Some v \<Rightarrow> v)"

definition droplet_pp :: "dpl_ctx \<Rightarrow> string list" where
  "droplet_pp ctx =
     [pp_int ''n_conn_buckets'' (n_conn_buckets ctx), pp_int ''n_conn_max'' (n_conn_max ctx),
      pp_int ''n_conn_max_hits'' (n_conn_max_hits ctx), pp_int ''conn_idle_time'' (conn_idle_time ctx),
      pp_int ''conn_timeout'' (conn_timeout ctx), pp_int ''read_timeout'' (read_timeout ctx),
      pp_int ''write_timeout'' (write_timeout ctx), pp_int ''use_https'' (use_https ctx), pp_str ''host'' (host ctx),
      pp_int ''port'' (port ctx), pp_str ''access_key'' (access_key ctx), pp_str ''secret_key'' (secret_key ctx),
      pp_str ''ssl_cert_file'' (ssl_cert_file ctx), pp_str ''ssl_key_file'' (ssl_key_file ctx),
      pp_str ''ssl_password'' (ssl_password ctx), pp_str ''ssl_ca_list'' (ssl_ca_list ctx),
      pp_int ''trace_level'' (trace_level ctx), pp_str ''pricing'' (pricing ctx),
      pp_int ''read_buf_size'' (uint (read_buf_size ctx)), pp_str ''encrypt_key'' (encrypt_key ctx),
      pp_str ''delim'' (delim ctx), pp_int ''n_conn_fds'' (n_conn_fds ctx), pp_str ''cur_bucket'' (cur_bucket ctx),
      pp_str ''droplet_dir'' (droplet_dir ctx), pp_str ''profile_name'' (profile_name ctx)]"

text \<open>What \<^verbatim>\<open>main\<close> calls: \<^verbatim>\<open>dpl_init\<close>, \<^verbatim>\<open>dpl_ctx_new\<close>, \<^verbatim>\<open>dpl_ctx_free\<close>,
  \<^verbatim>\<open>dpl_free\<close>, \<^verbatim>\<open>pthread_create\<close>, and whether FUSE mounts.\<close>

datatype thread = Thread_gc | Thread_cachedir

record 'w main_ops =
  m_init :: "'w \<Rightarrow> dpl_status \<times> 'w"
  m_ctx_new :: "'w \<Rightarrow> dpl_ctx option \<times> 'w"
  m_ctx_free :: "'w \<Rightarrow> unit \<times> 'w"
  m_free :: "'w \<Rightarrow> unit \<times> 'w"
  m_thread :: "thread \<Rightarrow> 'w \<Rightarrow> int \<times> 'w"
  m_mount :: "string list \<Rightarrow> 'w \<Rightarrow> bool \<times> 'w"

text \<open>FUSE calls \<^verbatim>\<open>dfs_init\<close> when it has mounted: the threads that run afterwards. The results of
  \<^verbatim>\<open>pthread_create\<close> are not looked at.\<close>

definition dfs_init ::
  "'w main_ops \<Rightarrow> confp \<Rightarrow> ('w, 'd) state \<Rightarrow> (thread list \<times> ('w, 'd) state) outcome"
where
  "dfs_init M cp s =
     obind (conf_trace cp) (\<lambda>_.
     call (m_thread M Thread_gc) s (\<lambda>gc s.
     call (m_thread M Thread_cachedir) s (\<lambda>cachedir s.
     Ret ((if gc = 0 then [Thread_gc] else []) @ (if cachedir = 0 then [Thread_cachedir] else []), s))))"

text \<open>The requests and the steps of the threads between the mount and the unmount, as \<open>Threads\<close> models them.\<close>

type_synonym ('w, 'd) session =
  "thread list \<Rightarrow> prof \<Rightarrow> ('w, 'd) state \<Rightarrow> (int \<times> prof \<times> ('w, 'd) state) outcome"

text \<open>\<^verbatim>\<open>fuse_main\<close> answers 1 when it cannot mount; otherwise it calls \<^verbatim>\<open>dfs_init\<close>, serves the session
  and calls \<^verbatim>\<open>dfs_destroy\<close>.\<close>

definition dfs_fuse_main ::
  "('w, 'd) env \<Rightarrow> 'w main_ops \<Rightarrow> ('w, 'd) session \<Rightarrow> string list \<Rightarrow> confp \<Rightarrow> prof \<Rightarrow> ('w, 'd) state \<Rightarrow>
    (int \<times> confp \<times> prof \<times> ('w, 'd) state) outcome"
where
  "dfs_fuse_main E M session args cp p s =
     (let s = s\<lparr>hash := []\<rparr> in
     call (m_mount M args) s (\<lambda>ok s.
     if \<not> ok then Ret (1, cp, p, s)
     else obind (dfs_init M cp s) (\<lambda>(threads, s).
          obind (session threads p s) (\<lambda>(ret, p, s).
          obind (dfs_destroy E cp p s) (\<lambda>(cp, p, s). Ret (ret, cp, p, s))))))"

text \<open>The labels \<^verbatim>\<open>err3\<close> and \<^verbatim>\<open>err2\<close>.\<close>

definition main_err2 :: "'w main_ops \<Rightarrow> int \<Rightarrow> ('w, 'd) state \<Rightarrow> (int \<times> ('w, 'd) state) outcome" where
  "main_err2 M rc s = call (m_free M) s (\<lambda>_ s. Ret (rc, s))"

definition main_err3 :: "'w main_ops \<Rightarrow> confp \<Rightarrow> int \<Rightarrow> ('w, 'd) state \<Rightarrow> (int \<times> ('w, 'd) state) outcome" where
  "main_err3 M cp rc s = obind (conf_release cp (cfg s)) (\<lambda>_. main_err2 M rc s)"

text \<open>From the new configuration on; \<open>rc\<close> still holds the status of \<^verbatim>\<open>dpl_init\<close>.\<close>

definition main_conf ::
  "('w, 'd) env \<Rightarrow> 'w main_ops \<Rightarrow> ('w, 'd) session \<Rightarrow> string \<Rightarrow> bool \<Rightarrow> string list \<Rightarrow> int \<Rightarrow> prof \<Rightarrow> ('w, 'd) state \<Rightarrow>
    (int \<times> ('w, 'd) state) outcome"
where
  "main_conf E M session bucket dbg args rc p s =
     obind (conf_ctor E bucket (arg_at args 1) (if dbg then 1 else 0) s) (\<lambda>(r, s).
     if r = -1 then main_err3 M CfLive rc s
     else obind (conf_log s) (\<lambda>_.
          obind (profile_init E p s) (\<lambda>(p, s).
          obind (dfs_fuse_main E M session args CfLive p s) (\<lambda>(rc, cp, p, s).
          call (m_ctx_free M) s (\<lambda>_ s.
          obind (g_hash_table_remove_all E s) (\<lambda>s.
          main_err3 M cp rc s))))))"

text \<open>The result, the lines printed and the state.\<close>

definition main ::
  "('w, 'd) env \<Rightarrow> 'w main_ops \<Rightarrow> ('w, 'd) session \<Rightarrow> string list \<Rightarrow> prof \<Rightarrow> ('w, 'd) state \<Rightarrow>
    (int \<times> string list \<times> ('w, 'd) state) outcome"
where
  "main E M session argv p s =
     (let exit = (\<lambda>out m. obind m (\<lambda>(rc, s). Ret (rc, out, s))) in
      case main_args argv of
        None \<Rightarrow> Ret (status_code E DPL_FAILURE, usage (hd argv), s)
      | Some (bucket, dbg, args) \<Rightarrow>
          call (m_init M) s (\<lambda>rc s.
          if rc \<noteq> DPL_SUCCESS then Ret (status_code E rc, [], s)
          else call (m_ctx_new M) s (\<lambda>ctx s.
            case ctx of
              None \<Rightarrow> exit [] (main_err2 M (status_code E rc) s)
            | Some ctx \<Rightarrow> call (malloc_ok E) s (\<lambda>ok s.
              if \<not> ok then exit [] (main_err2 M (status_code E rc) s)
              else let out = droplet_pp (ctx\<lparr>trace_level := 0, cur_bucket := Some bucket\<rparr>) in
                case conf_new E s of
                  (None, s) \<Rightarrow> exit out (main_err2 M (status_code E rc) s)
                | (Some c, s) \<Rightarrow>
                    exit out (main_conf E M session bucket dbg args (status_code E rc) p (s\<lparr>cfg := c\<rparr>))))))"

section \<open>Shutdown\<close>

lemma pentry_free_Ret:
  assumes "heap_inv s" "a \<in> v_ent (view s)" shows "\<exists>t. pentry_free E a s = Ret t"
proof -
  obtain p where p: "pe_at a s = Ret p" "pes s a = Some p" using pe_at_Ret [OF assms] by blast
  have "md_of s a = metadata p" using p(2) by (simp add: md_of_def)
  then have "metadata p \<noteq> NULL \<Longrightarrow> metadata p \<in> dom (dicts s)"
    using assms(1) unfolding heap_inv_def metadata_ok_def by metis
  then show ?thesis
    by (auto simp: pentry_free_def p(1) dpl_dict_free_def call_def split: prod.split option.split)
qed

lemma rets_pentry_free:
  assumes "heap_inv s" "a \<in> v_ent (view s)" "a \<notin> ran (v_tbl (view s))"
  shows "rets (pentry_free E a s) (\<lambda>t. heap_inv t \<and> view t = v_free a (view s))"
proof -
  obtain t where t: "pentry_free E a s = Ret t" using pentry_free_Ret [OF assms(1,2)] by blast
  have "okay (pentry_free E a s) (\<lambda>t. heap_inv t \<and> view t = v_free a (view s))"
    using assms by (intro okay_pentry_free) simp_all
  then show ?thesis by (simp add: t)
qed

lemma rets_free_values:
  assumes "heap_inv s" "v_tbl (view s) = Map.empty" "distinct (map snd xs)" "snd ` set xs \<subseteq> v_ent (view s)"
  shows "rets (free_values E xs s) (\<lambda>t. heap_inv t \<and> v_tbl (view t) = Map.empty \<and>
    v_ent (view t) = v_ent (view s) - snd ` set xs \<and> v_loose (view t) = v_loose (view s) \<and> cfg t = cfg s)"
  using assms
proof (induction xs arbitrary: s)
  case (Cons x xs)
  obtain k a where x: "x = (k, a)" by (cases x)
  have "rets (pentry_free E a s) (\<lambda>t. heap_inv t \<and> view t = v_free a (view s))"
    using Cons.prems by (intro rets_pentry_free) (auto simp: x)
  moreover have "rets (free_values E xs t) (\<lambda>u. heap_inv u \<and> v_tbl (view u) = Map.empty \<and>
      v_ent (view u) = v_ent (view s) - snd ` set (x # xs) \<and> v_loose (view u) = v_loose (view s) \<and> cfg u = cfg s)"
    if t: "heap_inv t" "view t = v_free a (view s)" for t
  proof (rule rets_mono [OF Cons.IH [OF t(1)]])
    show "v_tbl (view t) = Map.empty" "distinct (map snd xs)" "snd ` set xs \<subseteq> v_ent (view t)"
      using Cons.prems(2-4) t(2) by (auto simp: x)
    have "v_cfg (view t) = v_cfg (view s)" using t(2) by simp
    then have "cfg t = cfg s" by (simp only: view_simps(6))
    then show "heap_inv u \<and> v_tbl (view u) = Map.empty \<and> v_ent (view u) = v_ent (view s) - snd ` set (x # xs) \<and>
        v_loose (view u) = v_loose (view s) \<and> cfg u = cfg s"
      if "heap_inv u \<and> v_tbl (view u) = Map.empty \<and> v_ent (view u) = v_ent (view t) - snd ` set xs \<and>
        v_loose (view u) = v_loose (view t) \<and> cfg u = cfg t" for u
      using that t(2) by (auto simp: x)
  qed
  ultimately show ?case by (simp add: x) (auto elim: rets_mono)
qed simp

lemma rets_remove_all:
  assumes "heap_inv s"
  shows "rets (g_hash_table_remove_all E s) (\<lambda>t. heap_inv t \<and> v_tbl (view t) = Map.empty \<and>
    v_ent (view t) = v_ent (view s) - ran (v_tbl (view s)) \<and> v_loose (view t) = v_loose (view s) \<and> cfg t = cfg s)"
proof -
  let ?s = "s\<lparr>hash := []\<rparr>"
  have d: "distinct (map fst (hash s))" "distinct (map snd (hash s))" "snd ` set (hash s) \<subseteq> dom (pes s)"
    using assms by (auto simp: heap_inv_def table_ok_def)
  have md: "md_of ?s = md_of s" "path_of ?s = path_of s" by (simp_all add: fun_eq_iff md_of_def path_of_def)
  have "heap_inv ?s" using assms md by (simp add: heap_inv_def table_ok_def heap_ok_def metadata_ok_def)
  moreover have "owned ?s = owned s" by (rule owned_cong) (rule md)
  moreover have "ran (map_of (hash s)) = snd ` set (hash s)" using d(1) by (simp add: ran_distinct)
  ultimately show ?thesis
    using rets_free_values [of ?s "hash s" E] d(2,3)
    by (simp add: g_hash_table_remove_all_def view_simps)
qed

lemma foreach_hash_unlink:
  assumes "\<forall>(k, a) \<in> set xs. a \<noteq> NULL \<and> a \<in> dom (pes s)"
  shows "\<exists>w. g_hash_table_foreach (cb_hash_unlink E) xs s = Ret (s\<lparr>world := w\<rparr>)"
  using assms
proof (induction xs arbitrary: s)
  case Nil
  show ?case by (rule exI [of _ "world s"]) simp
next
  case (Cons x xs)
  obtain k a where x: "x = (k, a)" by (cases x)
  obtain q where q: "pes s a = Some q" "a \<noteq> NULL" using Cons.prems by (auto simp: x)
  have "\<exists>v. cb_hash_unlink E k a s = Ret (s\<lparr>world := v\<rparr>)"
  proof (cases "ondisk q = FILE_LOCAL \<and> path q \<noteq> None")
    case True
    then show ?thesis
      using q by (auto simp: cb_hash_unlink_def pentry_get_placeholder_def pentry_unlink_cache_file_def pe_at_def call_def
          split: prod.split)
  next
    case False
    then show ?thesis
      using q by (intro exI [of _ "world s"])
        (auto simp: cb_hash_unlink_def pentry_get_placeholder_def pentry_unlink_cache_file_def pe_at_def)
  qed
  moreover have "\<exists>w. g_hash_table_foreach (cb_hash_unlink E) xs (s\<lparr>world := v\<rparr>) = Ret (s\<lparr>world := w\<rparr>)" for v
    using Cons.IH [of "s\<lparr>world := v\<rparr>"] Cons.prems by simp
  ultimately show ?case by (auto simp: x)
qed

lemma profile_fini_returns:
  assumes "fp_log p \<noteq> FClosed"
  shows "rets (profile_fini E p s) (\<lambda>(p', t). \<exists>w. t = s\<lparr>world := w\<rparr>)"
proof (cases "fp_log p")
  case FNull
  then show ?thesis by (auto simp: profile_fini_def intro: exI [of _ "world s"])
next
  case (FOpen f)
  have "rets (run_all cb_hash_report xs q) (\<lambda>q'. fp_log q' = FOpen f)" if "fp_log q = FOpen f" for xs q
    using that
  proof (induction xs arbitrary: q)
    case (Cons x xs)
    obtain r where "cb_hash_report x q = Ret r" "fp_log r = FOpen f"
      using Cons.prems by (simp add: cb_hash_report_def Let_def)
    then show ?case using Cons.IH [of r] by simp
  qed simp
  then obtain r where r: "(case symbols p of None \<Rightarrow> Ret p | Some tbl \<Rightarrow> run_all cb_hash_report tbl p) = Ret r"
    using FOpen by (cases "symbols p") (auto simp: rets_iff)
  obtain u w where w: "s_fclose E f (world s) = (u, w)" by (cases "s_fclose E f (world s)")
  show ?thesis by (auto simp: profile_fini_def FOpen call_def r w)
qed (use assms in simp)

lemma conf_free_inv:
  assumes "conf_inv c" shows "conf_free c = Ret ()"
proof -
  have "cstr_own (cache_dir c)" "cstr_own (compression_method c)" "cstr_own (re_str (regex c))"
    using assms unfolding conf_inv_def by blast+
  then show ?thesis by (simp add: conf_free_def conf_dtor_def re_dtor_def)
qed

section \<open>Properties\<close>

text \<open>
  The end of every session uses freed memory: \<^verbatim>\<open>dfs_destroy\<close> empties the cache and the table, frees the
  configuration, and then traces the release of libdroplet, which reads \<^verbatim>\<open>conf->log_level\<close>.
\<close>

theorem destroy_use_after_free:
  assumes "heap_inv s" "conf_inv (cfg s)" "fp_log p \<noteq> FClosed"
  shows "dfs_destroy E CfLive p s = Stuck UseAfterFree"
proof -
  obtain p' w where 1: "profile_fini E p s = Ret (p', s\<lparr>world := w\<rparr>)"
    using profile_fini_returns [OF assms(3), of E s] by (auto simp: rets_iff)
  have "a \<noteq> NULL \<and> a \<in> dom (pes s)" if "(k, a) \<in> set (hash s)" for k a
    using assms(1) that heap_inv_not_null [OF assms(1), of a] heap_inv_tbl_ent [OF assms(1), of k a]
    by (auto simp: heap_inv_def table_ok_def view_simps)
  then obtain v where 2: "g_hash_table_foreach (cb_hash_unlink E) (hash s) (s\<lparr>world := w\<rparr>) = Ret (s\<lparr>world := v\<rparr>)"
    using foreach_hash_unlink [of "hash s" "s\<lparr>world := w\<rparr>" E] by auto
  obtain t where 3: "g_hash_table_remove_all E (s\<lparr>world := v\<rparr>) = Ret t" "cfg t = cfg s"
    using rets_remove_all [of "s\<lparr>world := v\<rparr>" E] assms(1) by (auto simp: rets_iff)
  show ?thesis
    by (simp add: dfs_destroy_def conf_trace_def 1 2 3 conf_release_def conf_free_inv [OF assms(2)])
qed

definition heap_conf :: conf where
  "heap_conf = sample_conf\<lparr>root_dir := CHeap ''/mnt'', cache_dir := CHeap ''/tmp'', compression_method := CHeap ''none'',
     encryption_method := CHeap ''none''\<rparr>"

lemma heap_conf_inv: "conf_inv heap_conf"
  by (simp add: conf_inv_def heap_conf_def sample_conf_def dir_ok_def)

theorem destroy_use_after_free_witness:
  "dfs_destroy (sample DPL_SUCCESS) CfLive prof0 (sample_open\<lparr>cfg := heap_conf\<rparr>) = Stuck UseAfterFree"
proof (rule destroy_use_after_free)
  show "heap_inv (sample_open\<lparr>cfg := heap_conf\<rparr>)"
    by (subst heap_inv_cong [of _ sample_open]) (simp_all add: md_of_def path_of_def fun_eq_iff)
qed (simp_all add: heap_conf_inv prof0_def)

text \<open>
  The documented command line \<^verbatim>\<open><bucket> -d <mountpoint>\<close> does not set the debug mode, and takes \<^verbatim>\<open>-d\<close> for
  the mount point that the configuration keeps; only a bucket whose name starts with \<^verbatim>\<open>-d\<close> sets it.
\<close>

theorem main_args_debug:
  "main_args ([prog, bucket, ''-d'', dir] @ opts) =
     Some (bucket, take 2 bucket = ''-d'', (if take 2 bucket = ''-d'' then [] else [bucket]) @ [''-d'', dir] @ opts)"
  by (simp add: main_args_def)

text \<open>\<^verbatim>\<open>main\<close> keeps the status of \<^verbatim>\<open>dpl_init\<close> as its result when a later step fails.\<close>

lemma main_hides_failure:
  assumes "main_args argv = Some (bucket, dbg, args)" "m_init M (world s) = (DPL_SUCCESS, w)" "m_ctx_new M w = (None, w')"
  shows "\<exists>t. main E M session argv p s = Ret (status_code E DPL_SUCCESS, [], t)"
  using assms by (auto simp: main_def call_def main_err2_def split: prod.split)

text \<open>What start-up runs before FUSE, and the release after it, on a configuration that keeps its invariant.\<close>

lemma okay_conf_log [okay_rule]:
  assumes "conf_inv (cfg s)" "Q ()" shows "okay (conf_log s) Q"
proof -
  have c: "encryption_method (cfg s) \<noteq> CFreed" "compression_method (cfg s) \<noteq> CFreed" "cache_dir (cfg s) \<noteq> CFreed"
    "re_str (regex (cfg s)) \<noteq> CFreed" "profiling_logfile (cfg s) \<noteq> CFreed"
    using assms(1) unfolding conf_inv_def by fastforce+
  have "0 \<le> sint (log_level (cfg s))" "sint (log_level (cfg s)) \<le> 7" using assms(1) unfolding conf_inv_def by blast+
  then have "\<exists>str. log_level_to_str (sint (log_level (cfg s))) = Ret str"
    by (auto simp: log_level_to_str_def split: if_splits)
  then show ?thesis using c assms(2) by (auto simp: conf_log_def LOG_def cstr_printable_def)
qed

lemma okay_profile_init [okay_rule]:
  assumes "conf_inv (cfg s)" "\<And>p' w. (fp_log p \<noteq> FClosed \<Longrightarrow> fp_log p' \<noteq> FClosed) \<Longrightarrow> Q (p', s\<lparr>world := w\<rparr>)"
  shows "okay (profile_init E p s) Q"
proof -
  have ok: "cstr_ok (profiling_logfile (cfg s))" using assms(1) unfolding conf_inv_def by blast
  have "s\<lparr>world := world s\<rparr> = s" by simp
  then have "Q (p, s)" using assms(2) [of p "world s"] by simp
  then show ?thesis
    using ok assms(2) by (auto simp: profile_init_def intro!: okay_cstr_get okay_call split: sum.split)
qed

lemma okay_main_err3 [okay_rule]:
  "conf_inv (cfg s) \<Longrightarrow> (\<And>w. Q (rc, s\<lparr>world := w\<rparr>)) \<Longrightarrow> okay (main_err3 M CfLive rc s) Q"
  by (auto simp: main_err3_def main_err2_def conf_release_def conf_free_inv call_def split: prod.split)

lemma conf_new_ok:
  assumes "allocs_ok E" shows "\<exists>w. conf_new E s = (Some conf_zero, s\<lparr>world := w\<rparr>)"
proof -
  obtain w where "malloc_ok E (world s) = (True, w)" using assms(1) unfolding allocs_ok_def by (metis prod.collapse)
  then show ?thesis by (auto simp: conf_new_def call_def)
qed

text \<open>Every run of \<^verbatim>\<open>main\<close> ends before the configuration, or goes on with it.\<close>

lemma main_cases:
  assumes "allocs_ok E" "main_args argv = Some (bucket, dbg, args)"
  obtains (early) st out w where "main E M session argv p s = Ret (status_code E st, out, s\<lparr>world := w\<rparr>)"
  | (conf) st out w where "main E M session argv p s =
      obind (main_conf E M session bucket dbg args (status_code E st) p (s\<lparr>world := w, cfg := conf_zero\<rparr>))
        (\<lambda>(rc, t). Ret (rc, out, t))"
proof -
  obtain rc w1 where 1: "m_init M (world s) = (rc, w1)" by (cases "m_init M (world s)")
  obtain ctx w2 where 2: "m_ctx_new M w1 = (ctx, w2)" by (cases "m_ctx_new M w1")
  obtain w3 where 3: "malloc_ok E w2 = (True, w3)" using assms(1) unfolding allocs_ok_def by (metis prod.collapse)
  obtain w4 where 4: "conf_new E (s\<lparr>world := w3\<rparr>) = (Some conf_zero, s\<lparr>world := w4\<rparr>)"
    using conf_new_ok [OF assms(1), of "s\<lparr>world := w3\<rparr>"] by auto
  show thesis
  proof (cases "rc \<noteq> DPL_SUCCESS \<or> ctx = None")
    case True
    then show thesis
      using that(1) 1 2 by (force simp: main_def Let_def assms(2) call_def main_err2_def split: prod.split)
  next
    case False
    then obtain c where c: "rc = DPL_SUCCESS" "ctx = Some c" by auto
    show thesis
      using 4 by (intro that(2)) (simp add: main_def Let_def assms(2) call_def 1 2 3 c)
  qed
qed

text \<open>
  When FUSE cannot mount, \<^verbatim>\<open>main\<close> has no undefined behaviour for the configurations for which \<^verbatim>\<open>conf_ctor\<close>
  has none: the configuration is released once, the table is left empty, and the result is 1, or the status of an
  earlier step.
\<close>

theorem main_unmounted:
  assumes "allocs_ok E" "file_ok E" "env_ok E" "bucket_ok bucket" "root_ok (arg_at args 1)"
    and "main_args argv = Some (bucket, dbg, args)" "\<And>w. \<not> fst (m_mount M args w)"
    and "hash s = []"
  shows "okay (main E M session argv p s) (\<lambda>(rc, out, t). hash t = [] \<and> pes t = pes s \<and> dicts t = dicts s \<and>
    (rc = 1 \<or> rc \<in> range (status_code E)))"
proof -
  have mount: "dfs_fuse_main E M session args CfLive q u =
      Ret (1, CfLive, q, u\<lparr>hash := [], world := snd (m_mount M args (world u))\<rparr>)" for q u
    using assms(7) [of "world u"] by (auto simp: dfs_fuse_main_def Let_def call_def split: prod.split)
  have conf: "okay (main_conf E M session bucket dbg args (status_code E st) p (s\<lparr>world := w, cfg := conf_zero\<rparr>))
      (\<lambda>(rc, u). hash u = [] \<and> pes u = pes s \<and> dicts u = dicts s \<and> (rc = 1 \<or> rc \<in> range (status_code E)))" for st w
    unfolding main_conf_def okay_obind
    by (rule okay_conf_ctor [OF assms(1,4,2,3,5)])
      (auto simp: conf_step_def mount g_hash_table_remove_all_def assms(8)
        intro!: okay_conf_log okay_profile_init okay_main_err3 okay_call)
  show ?thesis
  proof (rule main_cases [OF assms(1,6), of M session p s])
    show ?thesis if "main E M session argv p s = Ret (status_code E st, out, s\<lparr>world := w\<rparr>)" for st out w
      using assms(8) by (simp add: that)
    show ?thesis if "main E M session argv p s =
        obind (main_conf E M session bucket dbg args (status_code E st) p (s\<lparr>world := w, cfg := conf_zero\<rparr>))
          (\<lambda>(rc, t). Ret (rc, out, t))" for st out w
      unfolding that by (simp, rule okay_mono [OF conf]) auto
  qed
qed

definition sample_ctx :: dpl_ctx where
  "sample_ctx = \<lparr>n_conn_buckets = 1, n_conn_max = 900, n_conn_max_hits = 50, conn_idle_time = 100, conn_timeout = 5,
     read_timeout = 30, write_timeout = 30, use_https = 0, host = Some ''localhost'', port = 9000,
     access_key = Some ''key'', secret_key = Some ''secret'', ssl_cert_file = None, ssl_key_file = None,
     ssl_password = None, ssl_ca_list = None, trace_level = -1, pricing = None, read_buf_size = 8192, encrypt_key = None,
     delim = Some ''/'', n_conn_fds = 0, cur_bucket = None, droplet_dir = None, profile_name = None\<rparr>"

definition sample_ops :: "nat main_ops" where
  "sample_ops = \<lparr>m_init = Pair DPL_SUCCESS, m_ctx_new = Pair (Some sample_ctx), m_ctx_free = Pair (), m_free = Pair (),
     m_thread = (\<lambda>_. Pair 0), m_mount = (\<lambda>_. Pair False)\<rparr>"

theorem main_unmounted_witness:
  "okay (main home_env sample_ops (\<lambda>ths p s. Ret (0, p, s)) [''dropletfs'', ''bucket'', ''/mnt/''] prof0 (sample_state\<lparr>hash := []\<rparr>))
     (\<lambda>(rc, out, t). hash t = [] \<and> pes t = pes sample_state \<and> dicts t = dicts sample_state \<and>
       (rc = 1 \<or> rc \<in> range (status_code home_env)))"
  using main_unmounted [of home_env "''bucket''" "[''bucket'', ''/mnt/'']" "[''dropletfs'', ''bucket'', ''/mnt/'']" False
      sample_ops "sample_state\<lparr>hash := []\<rparr>" "\<lambda>ths p s. Ret (0, p, s)" prof0]
  by (simp add: bucket_ok_def root_ok_def main_args_def arg_at_def sample_ops_def)

text \<open>A run that may go on for ever, waits, or ends in freed memory, but returns only what \<open>P\<close> allows.\<close>

definition crashes_unless :: "('a \<Rightarrow> bool) \<Rightarrow> 'a outcome \<Rightarrow> bool" where
  "crashes_unless P m \<longleftrightarrow> (case m of Ret x \<Rightarrow> P x | Stuck h \<Rightarrow> waits h \<or> h = UseAfterFree)"

lemma crashes_unless_simps [simp]:
  "crashes_unless P (Ret x) \<longleftrightarrow> P x" "crashes_unless P (Stuck h) \<longleftrightarrow> waits h \<or> h = UseAfterFree"
  by (simp_all add: crashes_unless_def)

lemma crashes_unless_obind: "okay m (\<lambda>x. crashes_unless P (f x)) \<Longrightarrow> crashes_unless P (obind m f)"
  by (cases m) auto

lemma crashes_then: "crashes_unless (\<lambda>x. False) m \<Longrightarrow> crashes_unless P (obind m f)"
  by (cases m) auto

text \<open>What a session has to keep.\<close>

definition session_ok :: "('w, 'd) session \<Rightarrow> bool" where
  "session_ok session \<longleftrightarrow> (\<forall>threads p s. heap_inv s \<longrightarrow> conf_inv (cfg s) \<longrightarrow> fp_log p \<noteq> FClosed \<longrightarrow>
     okay (session threads p s) (\<lambda>(ret, p, s). heap_inv s \<and> conf_inv (cfg s) \<and> fp_log p \<noteq> FClosed))"

lemma mounted_crash:
  assumes "session_ok session" "heap_inv s" "hash s = []" "conf_inv (cfg s)" "fp_log p \<noteq> FClosed"
    and "fst (m_mount M args (world s))"
  shows "crashes_unless (\<lambda>x. False) (dfs_fuse_main E M session args CfLive p s)"
proof -
  obtain w where w: "m_mount M args (world s) = (True, w)" using assms(6) by (metis prod.collapse)
  have s: "s\<lparr>hash := []\<rparr> = s" using assms(3) by simp
  obtain ths v where init: "dfs_init M CfLive (s\<lparr>world := w\<rparr>) = Ret (ths, s\<lparr>world := v\<rparr>)"
    by (cases "m_thread M Thread_gc w"; cases "m_thread M Thread_cachedir (snd (m_thread M Thread_gc w))")
      (simp add: dfs_init_def conf_trace_def call_def)
  have "okay (session ths p (s\<lparr>world := v\<rparr>)) (\<lambda>(ret, p, s). heap_inv s \<and> conf_inv (cfg s) \<and> fp_log p \<noteq> FClosed)"
    using assms(1,2,4,5) unfolding session_ok_def by simp
  then show ?thesis
    unfolding dfs_fuse_main_def Let_def s call_def w
    by (simp add: init)
      (rule crashes_unless_obind, auto elim!: okay_mono simp: destroy_use_after_free)
qed



end
