(* ===== verification/Site.thy ===== *)
theory Site
  imports Release Io Zip_Data
begin

text \<open>
  What the handlers do to the data: an observation of the operating system and of the store, with the laws that the
  calls of \<open>World\<close> follow when nothing fails. The files of the cache are inodes with names and descriptors, as
  in POSIX; the store keeps with every object the value of the key \<^verbatim>\<open>compression\<close> of the metadata it was uploaded
  with. Reads and writes may be short and writes may be interrupted. \<open>Data\<close> proves on this ground what a file that was
  closed holds for those who open it later.
\<close>

section \<open>The observation\<close>

text \<open>
  The names of files, their bytes, the descriptors with their inode and offset, the streams of \<^verbatim>\<open>stdio\<close> with their
  inode, their descriptor and whether they write; which object an inode of libdroplet is, the objects, the uploads in
  progress with the path, the kind of compression, the announced size and what was sent; and how many more writes will be interrupted.
\<close>

record site =
  names :: "string \<Rightarrow> nat option"
  files :: "nat \<Rightarrow> byte list"
  fds :: "int \<Rightarrow> (nat \<times> nat) option"
  fps :: "int \<Rightarrow> (nat \<times> int \<times> bool) option"
  inos :: "ino \<Rightarrow> string option"
  objects :: "string \<Rightarrow> (byte list \<times> string option) option"
  uploads :: "nat \<Rightarrow> (string \<times> string option \<times> nat \<times> byte list) option"
  signals :: nat

text \<open>The file system takes several slashes for one.\<close>

fun squeeze :: "string \<Rightarrow> string" where
  "squeeze (a # b # cs) = (if a = CHR ''/'' \<and> b = CHR ''/'' then squeeze (b # cs) else a # squeeze (b # cs))"
| "squeeze cs = cs"

text \<open>Writing bytes at an offset; a gap is filled with zeros.\<close>

definition patch :: "byte list \<Rightarrow> nat \<Rightarrow> byte list \<Rightarrow> byte list" where
  "patch bs k new =
     (if new = [] then bs else take k (bs @ replicate (k - length bs) 0) @ new @ drop (k + length new) bs)"

lemma patch_Nil [simp]: "patch bs k [] = bs"
  by (simp add: patch_def)

lemma patch_end [simp]: "patch bs (length bs) new = bs @ new"
  by (simp add: patch_def)

lemma patch_patch: "patch (patch bs k xs) (k + length xs) ys = patch bs k (xs @ ys)"
proof (cases "xs = [] \<or> ys = []")
  case False
  obtain p where p: "p = take k (bs @ replicate (k - length bs) 0)" "length p = k" by simp
  have "patch bs k xs = p @ xs @ drop (k + length xs) bs" "patch bs k (xs @ ys) = p @ (xs @ ys) @ drop (k + length (xs @ ys)) bs"
    using False by (simp_all add: patch_def p(1))
  moreover have "patch (p @ xs @ d) (k + length xs) ys = p @ xs @ ys @ drop (length ys) d" for d
    using False p(2) by (simp add: patch_def)
  ultimately show ?thesis by (simp add: ac_simps)
qed auto

section \<open>The laws\<close>

text \<open>A call that leaves the streams of \<^verbatim>\<open>stdio\<close> and zlib alone, and what it does to the rest.\<close>

definition moves ::
  "'w zmodel \<Rightarrow> ('w \<Rightarrow> site) \<Rightarrow> ('w \<Rightarrow> 'a \<times> 'w) \<Rightarrow> (site \<Rightarrow> 'a \<Rightarrow> site \<Rightarrow> bool) \<Rightarrow> bool"
where
  "moves Z V f R \<longleftrightarrow> (\<forall>w. case f w of (r, w') \<Rightarrow> obs Z w' = obs Z w \<and> R (V w) r (V w'))"

text \<open>A call that changes nothing, with a condition on its answer.\<close>

definition calm :: "'w zmodel \<Rightarrow> ('w \<Rightarrow> site) \<Rightarrow> ('w \<Rightarrow> 'a \<times> 'w) \<Rightarrow> (site \<Rightarrow> 'a \<Rightarrow> bool) \<Rightarrow> bool" where
  "calm Z V f P \<longleftrightarrow> moves Z V f (\<lambda>o1 r o2. o2 = o1 \<and> P o1 r)"

text \<open>The inode of a name, or a new one.\<close>

definition resolves :: "site \<Rightarrow> string \<Rightarrow> nat \<Rightarrow> bool" where
  "resolves o1 p i \<longleftrightarrow>
     (case names o1 (squeeze p) of Some j \<Rightarrow> i = j
      | None \<Rightarrow> i \<notin> ran (names o1) \<and> (\<forall>f k. fds o1 f \<noteq> Some (i, k)))"

definition opens :: "string \<Rightarrow> u32 \<Rightarrow> site \<Rightarrow> errno + int \<Rightarrow> site \<Rightarrow> bool" where
  "opens p fl o1 r o2 \<longleftrightarrow>
     (if fl AND O_CREAT = 0 \<and> names o1 (squeeze p) = None then r = Inl ENOENT \<and> o2 = o1
      else \<exists>f i. r = Inr f \<and> 0 \<le> f \<and> fds o1 f = None \<and> resolves o1 p i \<and>
        o2 = o1\<lparr>names := (names o1)(squeeze p \<mapsto> i), fds := (fds o1)(f \<mapsto> (i, 0)),
          files := (if fl AND O_TRUNC \<noteq> 0 \<or> names o1 (squeeze p) = None then (files o1)(i := []) else files o1)\<rparr>)"

definition closes :: "int \<Rightarrow> site \<Rightarrow> errno + unit \<Rightarrow> site \<Rightarrow> bool" where
  "closes f o1 r o2 \<longleftrightarrow> (fds o1 f \<noteq> None \<longrightarrow> r = Inr () \<and> o2 = o1\<lparr>fds := (fds o1)(f := None)\<rparr>)"

definition reads :: "int \<Rightarrow> nat \<Rightarrow> site \<Rightarrow> errno + byte list \<Rightarrow> site \<Rightarrow> bool" where
  "reads f n o1 r o2 \<longleftrightarrow> (\<forall>i k. fds o1 f = Some (i, k) \<longrightarrow> (\<exists>bs m. bs = drop k (files o1 i) \<and> m \<le> min n (length bs) \<and>
     (m = 0 \<longrightarrow> n = 0 \<or> bs = []) \<and> r = Inr (take m bs) \<and> o2 = o1\<lparr>fds := (fds o1)(f \<mapsto> (i, k + m))\<rparr>))"

definition writes :: "int \<Rightarrow> byte list \<Rightarrow> site \<Rightarrow> errno + nat \<Rightarrow> site \<Rightarrow> bool" where
  "writes f bs o1 r o2 \<longleftrightarrow> (\<forall>i k. fds o1 f = Some (i, k) \<longrightarrow>
     0 < signals o1 \<and> r = Inl EINTR \<and> o2 = o1\<lparr>signals := signals o1 - 1\<rparr> \<or>
     (\<exists>m\<le>length bs. (m = 0 \<longrightarrow> bs = []) \<and> r = Inr m \<and>
       o2 = o1\<lparr>files := (files o1)(i := patch (files o1 i) k (take m bs)), fds := (fds o1)(f \<mapsto> (i, k + m))\<rparr>))"

definition preads :: "int \<Rightarrow> nat \<Rightarrow> int \<Rightarrow> site \<Rightarrow> errno + byte list \<Rightarrow> bool" where
  "preads f n off o1 r \<longleftrightarrow> (\<forall>i k. fds o1 f = Some (i, k) \<longrightarrow> 0 \<le> off \<longrightarrow> r = Inr (take n (drop (nat off) (files o1 i))))"

definition pwrites :: "int \<Rightarrow> byte list \<Rightarrow> int \<Rightarrow> site \<Rightarrow> errno + nat \<Rightarrow> site \<Rightarrow> bool" where
  "pwrites f bs off o1 r o2 \<longleftrightarrow> (\<forall>i k. fds o1 f = Some (i, k) \<longrightarrow> 0 \<le> off \<longrightarrow>
     r = Inr (length bs) \<and> o2 = o1\<lparr>files := (files o1)(i := patch (files o1 i) (nat off) bs)\<rparr>)"

definition os_laws :: "('w, 'd) env \<Rightarrow> 'w zmodel \<Rightarrow> ('w \<Rightarrow> site) \<Rightarrow> bool" where
  "os_laws E Z V \<longleftrightarrow>
     (\<forall>p fl. moves Z V (s_open E p fl) (opens p fl)) \<and>
     (\<forall>f. moves Z V (s_close E f) (closes f)) \<and>
     (\<forall>p. moves Z V (s_unlink E p) (\<lambda>o1 r o2. o2 = o1\<lparr>names := (names o1)(squeeze p := None)\<rparr>)) \<and>
     (\<forall>p. calm Z V (s_access E p) (\<lambda>o1 r. r = Inr () \<longleftrightarrow> names o1 (squeeze p) \<noteq> None)) \<and>
     (\<forall>f. calm Z V (s_fstat E f) (\<lambda>o1 r. \<forall>i k. fds o1 f = Some (i, k) \<longrightarrow>
       (\<exists>st. r = Inr st \<and> st_size st = of_nat (length (files o1 i))))) \<and>
     (\<forall>f n. moves Z V (s_read E f n) (reads f n)) \<and>
     (\<forall>f bs. moves Z V (s_write E f bs) (writes f bs)) \<and>
     (\<forall>f n off. calm Z V (s_pread E f n off) (preads f n off)) \<and>
     (\<forall>f bs off. moves Z V (s_pwrite E f bs off) (pwrites f bs off)) \<and>
     (\<forall>f. moves Z V (s_rewind E f) (\<lambda>o1 r o2. \<forall>i k. fds o1 f = Some (i, k) \<longrightarrow>
       o2 = o1\<lparr>fds := (fds o1)(f \<mapsto> (i, 0))\<rparr>)) \<and>
     (\<forall>p q. moves Z V (s_rename E p q) (\<lambda>o1 r o2. \<forall>i. names o1 (squeeze p) = Some i \<longrightarrow> squeeze p \<noteq> squeeze q \<longrightarrow>
       r = Inr () \<and> o2 = o1\<lparr>names := (names o1)(squeeze p := None, squeeze q \<mapsto> i)\<rparr>)) \<and>
     (\<forall>p. calm Z V (s_mkdir E p) (\<lambda>o1 r. True)) \<and> (\<forall>p. calm Z V (s_stat E p) (\<lambda>o1 r. True)) \<and>
     calm Z V (malloc_ok E) (\<lambda>o1 ok. ok) \<and> calm Z V (init_rc E) (\<lambda>o1 rc. rc = 0) \<and>
     calm Z V (pthread_rc E) (\<lambda>o1 rc. rc = 0)"

text \<open>
  A stream opened for reading has the bytes of its file ahead; what is written to a stream reaches the file when it is
  flushed, before \<^verbatim>\<open>fileno\<close> in \<^verbatim>\<open>release.c\<close> or when it is closed. Its descriptor is not 0, the
  standard input.
\<close>

definition opens_stream ::
  "string \<Rightarrow> string \<Rightarrow> site \<Rightarrow> disk \<Rightarrow> errno + int \<Rightarrow> site \<Rightarrow> disk \<Rightarrow> bool"
where
  "opens_stream p m o1 d1 r o2 d2 \<longleftrightarrow> (m = ''r'' \<longrightarrow> names o1 (squeeze p) \<noteq> None) \<longrightarrow>
     (\<exists>f g i. r = Inr f \<and> fps o1 f = None \<and> 0 < g \<and> fds o1 g = None \<and> resolves o1 p i \<and>
       (if m = ''r'' then o2 = o1\<lparr>fds := (fds o1)(g \<mapsto> (i, 0)), fps := (fps o1)(f \<mapsto> (i, g, False))\<rparr> \<and>
          d2 = d1\<lparr>unread := (unread d1)(f := files o1 i)\<rparr>
        else o2 = o1\<lparr>names := (names o1)(squeeze p \<mapsto> i), files := (files o1)(i := []),
            fds := (fds o1)(g \<mapsto> (i, 0)), fps := (fps o1)(f \<mapsto> (i, g, True))\<rparr> \<and>
          d2 = d1\<lparr>written := (written d1)(f := [])\<rparr>))"

definition stdio_laws :: "('w, 'd) env \<Rightarrow> 'w zmodel \<Rightarrow> ('w \<Rightarrow> site) \<Rightarrow> bool" where
  "stdio_laws E Z V \<longleftrightarrow> files_law E Z \<and> streams_law E Z \<and>
     (\<forall>f n w. V (snd (s_fread E f n w)) = V w) \<and> (\<forall>f bs w. V (snd (s_fwrite E f bs w)) = V w) \<and>
     (\<forall>c l w. V (snd (z_init E c l w)) = V w) \<and> (\<forall>z fl inp n w. V (snd (z_step E z fl inp n w)) = V w) \<and>
     (\<forall>z w. V (snd (z_end E z w)) = V w) \<and>
     (\<forall>p m w. case s_fopen E p m w of (r, w') \<Rightarrow> opens_stream p m (V w) (obs Z w) r (V w') (obs Z w')) \<and>
     (\<forall>f w. case s_fileno E f w of (r, w') \<Rightarrow> obs Z w' = obs Z w \<and> (\<forall>i g. fps (V w) f = Some (i, g, True) \<longrightarrow>
       r = Inr g \<and> V w' = (V w)\<lparr>files := (files (V w))(i := written (obs Z w) f),
         fds := (fds (V w))(g \<mapsto> (i, length (written (obs Z w) f)))\<rparr>)) \<and>
     (\<forall>f w. case s_fclose E f w of (r, w') \<Rightarrow> obs Z w' = obs Z w \<and> (\<forall>i g b. fps (V w) f = Some (i, g, b) \<longrightarrow>
       V w' = (V w)\<lparr>files := (if b then (files (V w))(i := written (obs Z w) f) else files (V w)),
         fds := (fds (V w))(g := None), fps := (fps (V w))(f := None)\<rparr>))"

text \<open>
  The store: an object that exists is found, its data arrives in pieces with the metadata it was stored with, and an
  upload replaces the object when it is closed with as many bytes as were announced.
\<close>

definition fetches :: "('w, 'd) env \<Rightarrow> string \<Rightarrow> site \<Rightarrow> byte list list \<times> (bool \<Rightarrow> dpl_status \<times> 'd option) \<Rightarrow> bool" where
  "fetches E p o1 = (\<lambda>(bufs, answer). \<forall>bs c. objects o1 p = Some (bs, c) \<longrightarrow>
     concat bufs = bs \<and> (\<exists>d. answer True = (DPL_SUCCESS, Some d) \<and> dict_get E d ''compression'' = c))"

definition uploads_end :: "nat \<Rightarrow> site \<Rightarrow> dpl_status \<times> unit \<Rightarrow> site \<Rightarrow> bool" where
  "uploads_end v o1 r o2 \<longleftrightarrow> (\<forall>p c n bs. uploads o1 v = Some (p, c, n, bs) \<longrightarrow>
     (fst r = DPL_SUCCESS \<longleftrightarrow> length bs = n) \<and>
     o2 = o1\<lparr>uploads := (uploads o1)(v := None),
       objects := (if length bs = n then (objects o1)(p \<mapsto> (bs, c)) else objects o1)\<rparr>)"

definition store_laws :: "('w, 'd) env \<Rightarrow> 'w zmodel \<Rightarrow> ('w \<Rightarrow> site) \<Rightarrow> bool" where
  "store_laws E Z V \<longleftrightarrow>
     dict_laws E \<and> (\<forall>k. dict_get E (dict_new E) k = None) \<and>
     (\<forall>c k v. calm Z V (dict_update E c k v) (\<lambda>o1 r. True)) \<and>
     (\<forall>c d. calm Z V (dict_copy E c d) (\<lambda>o1 r. fst r = DPL_SUCCESS)) \<and>
     (\<forall>h m. calm Z V (dpl_get_metadata_from_headers E h m) (\<lambda>o1 r. fst r = DPL_SUCCESS)) \<and>
     (\<forall>p i. calm Z V (dpl_namei E p i) (\<lambda>o1 (rc, ty, ino). objects o1 p \<noteq> None \<longrightarrow>
       rc = DPL_SUCCESS \<and> inos o1 ino = Some p)) \<and>
     (\<forall>ino. calm Z V (dpl_head_all E ino) (\<lambda>o1 (rc, d). \<forall>p. inos o1 ino = Some p \<longrightarrow> objects o1 p \<noteq> None \<longrightarrow>
       rc = DPL_SUCCESS \<and> d \<noteq> None)) \<and>
     (\<forall>p. calm Z V (dpl_openread E p False) (fetches E p)) \<and>
     (\<forall>p d n. moves Z V (dpl_openwrite E p False d n) (\<lambda>o1 (rc, v) o2. rc = DPL_SUCCESS \<and> uploads o1 v = None \<and>
       o2 = o1\<lparr>uploads := (uploads o1)(v \<mapsto> (p, dict_get E d ''compression'', unat n, []))\<rparr>)) \<and>
     (\<forall>v bs. moves Z V (dpl_write E v bs) (\<lambda>o1 r o2. \<forall>p c n got. uploads o1 v = Some (p, c, n, got) \<longrightarrow>
       fst r = DPL_SUCCESS \<and> o2 = o1\<lparr>uploads := (uploads o1)(v \<mapsto> (p, c, n, got @ bs))\<rparr>)) \<and>
     (\<forall>v. moves Z V (dpl_close E v) (uploads_end v))"

definition site_laws :: "('w, 'd) env \<Rightarrow> 'w zmodel \<Rightarrow> ('w \<Rightarrow> site) \<Rightarrow> bool" where
  "site_laws E Z V \<longleftrightarrow> os_laws E Z V \<and> stdio_laws E Z V \<and> store_laws E Z V"

section \<open>Rules for the calls\<close>

lemma rets_call:
  "(\<And>r w. f (world s) = (r, w) \<Longrightarrow> rets (k r (s\<lparr>world := w\<rparr>)) Q) \<Longrightarrow> rets (call f s k) Q"
  by (simp add: call_def split: prod.splits)

lemma rets_moves:
  assumes "moves Z V f R"
    and "\<And>r w. obs Z w = obs Z (world s) \<Longrightarrow> R (V (world s)) r (V w) \<Longrightarrow> rets (k r (s\<lparr>world := w\<rparr>)) Q"
  shows "rets (call f s k) Q"
proof (rule rets_call)
  fix r w
  assume f: "f (world s) = (r, w)"
  from spec [OF assms(1) [unfolded moves_def], of "world s"] show "rets (k r (s\<lparr>world := w\<rparr>)) Q" unfolding f using assms(2) by simp
qed

lemma rets_calm:
  assumes "calm Z V f P"
    and "\<And>r w. obs Z w = obs Z (world s) \<Longrightarrow> V w = V (world s) \<Longrightarrow> P (V (world s)) r \<Longrightarrow> rets (k r (s\<lparr>world := w\<rparr>)) Q"
  shows "rets (call f s k) Q"
  using assms(1) unfolding calm_def by (rule rets_moves) (use assms(2) in blast)

text \<open>The laws one by one, and the rules they give.\<close>

lemma site_lawsD:
  assumes "site_laws E Z V"
  shows "os_laws E Z V" "stdio_laws E Z V" "store_laws E Z V" "files_law E Z" "streams_law E Z" "dict_laws E"
    "dict_get E (dict_new E) k = None"
  using assms by (simp_all add: site_laws_def stdio_laws_def store_laws_def)

lemma os_calls:
  assumes "site_laws E Z V"
  shows "moves Z V (s_open E p fl) (opens p fl)" "moves Z V (s_close E f) (closes f)"
    "moves Z V (s_unlink E p) (\<lambda>o1 r o2. o2 = o1\<lparr>names := (names o1)(squeeze p := None)\<rparr>)"
    "calm Z V (s_access E p) (\<lambda>o1 r. r = Inr () \<longleftrightarrow> names o1 (squeeze p) \<noteq> None)"
    "calm Z V (s_fstat E f) (\<lambda>o1 r. \<forall>i k. fds o1 f = Some (i, k) \<longrightarrow>
       (\<exists>st. r = Inr st \<and> st_size st = of_nat (length (files o1 i))))"
    "moves Z V (s_read E f n) (reads f n)" "moves Z V (s_write E f bs) (writes f bs)"
    "calm Z V (s_pread E f n off) (preads f n off)" "moves Z V (s_pwrite E f bs off) (pwrites f bs off)"
    "moves Z V (s_rewind E f) (\<lambda>o1 r o2. \<forall>i k. fds o1 f = Some (i, k) \<longrightarrow> o2 = o1\<lparr>fds := (fds o1)(f \<mapsto> (i, 0))\<rparr>)"
    "moves Z V (s_rename E p q) (\<lambda>o1 r o2. \<forall>i. names o1 (squeeze p) = Some i \<longrightarrow> squeeze p \<noteq> squeeze q \<longrightarrow>
       r = Inr () \<and> o2 = o1\<lparr>names := (names o1)(squeeze p := None, squeeze q \<mapsto> i)\<rparr>)"
    "calm Z V (s_mkdir E p) (\<lambda>o1 r. True)" "calm Z V (s_stat E p) (\<lambda>o1 r. True)"
    "calm Z V (malloc_ok E) (\<lambda>o1 ok. ok)" "calm Z V (init_rc E) (\<lambda>o1 rc. rc = 0)"
    "calm Z V (pthread_rc E) (\<lambda>o1 rc. rc = 0)"
  using site_lawsD(1) [OF assms] unfolding os_laws_def by simp_all

lemma store_calls:
  assumes "site_laws E Z V"
  shows "calm Z V (dict_update E c k x) (\<lambda>o1 r. True)" "calm Z V (dict_copy E c d) (\<lambda>o1 r. fst r = DPL_SUCCESS)"
    "calm Z V (dpl_get_metadata_from_headers E h m) (\<lambda>o1 r. fst r = DPL_SUCCESS)"
    "calm Z V (dpl_namei E p i) (\<lambda>o1 (rc, ty, ino). objects o1 p \<noteq> None \<longrightarrow> rc = DPL_SUCCESS \<and> inos o1 ino = Some p)"
    "calm Z V (dpl_head_all E ino) (\<lambda>o1 (rc, d). \<forall>p. inos o1 ino = Some p \<longrightarrow> objects o1 p \<noteq> None \<longrightarrow>
       rc = DPL_SUCCESS \<and> d \<noteq> None)"
    "calm Z V (dpl_openread E p False) (fetches E p)"
    "moves Z V (dpl_openwrite E p False d n) (\<lambda>o1 (rc, v) o2. rc = DPL_SUCCESS \<and> uploads o1 v = None \<and>
       o2 = o1\<lparr>uploads := (uploads o1)(v \<mapsto> (p, dict_get E d ''compression'', unat n, []))\<rparr>)"
    "moves Z V (dpl_write E v bs) (\<lambda>o1 r o2. \<forall>p c n got. uploads o1 v = Some (p, c, n, got) \<longrightarrow>
       fst r = DPL_SUCCESS \<and> o2 = o1\<lparr>uploads := (uploads o1)(v \<mapsto> (p, c, n, got @ bs))\<rparr>)"
    "moves Z V (dpl_close E v) (uploads_end v)"
  using site_lawsD(3) [OF assms] unfolding store_laws_def by simp_all

end
