(* ===== verification/Upload.thy ===== *)
theory Upload
  imports Site
begin

text \<open>
  The data path from the cache to the store: \<^verbatim>\<open>write_all\<close>, \<^verbatim>\<open>read_write_all_vfile\<close>, the compression of
  \<^verbatim>\<open>release.c\<close> and the upload, on a site where nothing fails. Every rule says what a function returns and what it does to
  the site.
\<close>

text \<open>Updates of a function stay updates.\<close>

declare fun_upd_apply [simp del] fun_upd_same [simp] fun_upd_other [simp]

text \<open>One order for the updates of a site.\<close>

lemma site_order [simp]:
  "o1\<lparr>files := b, names := a\<rparr> = o1\<lparr>names := a, files := b\<rparr>" "o1\<lparr>fds := c, names := a\<rparr> = o1\<lparr>names := a, fds := c\<rparr>"
  "o1\<lparr>fps := d, names := a\<rparr> = o1\<lparr>names := a, fps := d\<rparr>" "o1\<lparr>objects := e, names := a\<rparr> = o1\<lparr>names := a, objects := e\<rparr>"
  "o1\<lparr>uploads := g, names := a\<rparr> = o1\<lparr>names := a, uploads := g\<rparr>" "o1\<lparr>signals := h, names := a\<rparr> = o1\<lparr>names := a, signals := h\<rparr>"
  "o1\<lparr>fds := c, files := b\<rparr> = o1\<lparr>files := b, fds := c\<rparr>" "o1\<lparr>fps := d, files := b\<rparr> = o1\<lparr>files := b, fps := d\<rparr>"
  "o1\<lparr>objects := e, files := b\<rparr> = o1\<lparr>files := b, objects := e\<rparr>" "o1\<lparr>uploads := g, files := b\<rparr> = o1\<lparr>files := b, uploads := g\<rparr>"
  "o1\<lparr>signals := h, files := b\<rparr> = o1\<lparr>files := b, signals := h\<rparr>" "o1\<lparr>fps := d, fds := c\<rparr> = o1\<lparr>fds := c, fps := d\<rparr>"
  "o1\<lparr>objects := e, fds := c\<rparr> = o1\<lparr>fds := c, objects := e\<rparr>" "o1\<lparr>uploads := g, fds := c\<rparr> = o1\<lparr>fds := c, uploads := g\<rparr>"
  "o1\<lparr>signals := h, fds := c\<rparr> = o1\<lparr>fds := c, signals := h\<rparr>" "o1\<lparr>objects := e, fps := d\<rparr> = o1\<lparr>fps := d, objects := e\<rparr>"
  "o1\<lparr>uploads := g, fps := d\<rparr> = o1\<lparr>fps := d, uploads := g\<rparr>" "o1\<lparr>signals := h, fps := d\<rparr> = o1\<lparr>fps := d, signals := h\<rparr>"
  "o1\<lparr>uploads := g, objects := e\<rparr> = o1\<lparr>objects := e, uploads := g\<rparr>" "o1\<lparr>signals := h, objects := e\<rparr> = o1\<lparr>objects := e, signals := h\<rparr>"
  "o1\<lparr>signals := h, uploads := g\<rparr> = o1\<lparr>uploads := g, signals := h\<rparr>"
  by (cases o1; simp)+

section \<open>Copying\<close>

text \<open>Bytes written at the offset of a descriptor, which moves; interrupts may have been used up.\<close>

definition wrote :: "int \<Rightarrow> byte list \<Rightarrow> site \<Rightarrow> site \<Rightarrow> bool" where
  "wrote f bs o1 o2 \<longleftrightarrow> (\<exists>i k m. fds o1 f = Some (i, k) \<and> m \<le> signals o1 \<and>
     o2 = o1\<lparr>files := (files o1)(i := patch (files o1 i) k bs), fds := (fds o1)(f \<mapsto> (i, k + length bs)), signals := m\<rparr>)"

lemma wroteI:
  "fds o1 f = Some (i, k) \<Longrightarrow> m \<le> signals o1 \<Longrightarrow>
    wrote f bs o1 (o1\<lparr>files := (files o1)(i := patch (files o1 i) k bs), fds := (fds o1)(f \<mapsto> (i, k + length bs)), signals := m\<rparr>)"
  unfolding wrote_def by blast

lemma wroteE:
  assumes "wrote f bs o1 o2" "fds o1 f = Some (i, k)"
  obtains m where "m \<le> signals o1"
    "o2 = o1\<lparr>files := (files o1)(i := patch (files o1 i) k bs), fds := (fds o1)(f \<mapsto> (i, k + length bs)), signals := m\<rparr>"
  using assms unfolding wrote_def by (metis Pair_inject option.inject)

lemma wrote_append:
  assumes "wrote f xs o1 o2" "wrote f ys o2 o3"
  shows "wrote f (xs @ ys) o1 o3"
proof -
  obtain i k where f: "fds o1 f = Some (i, k)" using assms(1) unfolding wrote_def by blast
  obtain m where m: "m \<le> signals o1"
    "o2 = o1\<lparr>files := (files o1)(i := patch (files o1 i) k xs), fds := (fds o1)(f \<mapsto> (i, k + length xs)), signals := m\<rparr>"
    using wroteE [OF assms(1) f] by blast
  have "fds o2 f = Some (i, k + length xs)" by (simp add: m(2))
  from wroteE [OF assms(2) this] obtain n where "n \<le> m"
    "o3 = o1\<lparr>files := (files o1)(i := patch (files o1 i) k (xs @ ys)),
      fds := (fds o1)(f \<mapsto> (i, k + length (xs @ ys))), signals := n\<rparr>"
    by (auto simp: m(2) patch_patch add.assoc)
  with wroteI [OF f, of n "xs @ ys"] m(1) show ?thesis by simp
qed

lemma writes_cases:
  assumes "writes f bs o1 r o2" "fds o1 f \<noteq> None"
  obtains (interrupted) "r = Inl EINTR" "signals o2 < signals o1" "wrote f [] o1 o2"
    | (wrote) m where "m \<le> length bs" "m = 0 \<longrightarrow> bs = []" "r = Inr m" "wrote f (take m bs) o1 o2"
proof -
  obtain i k where f: "fds o1 f = Some (i, k)" using assms(2) by auto
  consider "0 < signals o1" "r = Inl EINTR" "o2 = o1\<lparr>signals := signals o1 - 1\<rparr>"
    | m where "m \<le> length bs" "m = 0 \<longrightarrow> bs = []" "r = Inr m"
      "o2 = o1\<lparr>files := (files o1)(i := patch (files o1 i) k (take m bs)), fds := (fds o1)(f \<mapsto> (i, k + m))\<rparr>"
    using assms(1) [unfolded writes_def, rule_format, OF f] by (elim disjE exE conjE) assumption+
  then show thesis
  proof cases
    case 1
    then show thesis
      using wroteI [OF f, of "signals o1 - 1" "[]"] f by (intro interrupted) (simp_all add: fun_upd_idem)
  next
    case (2 m)
    then have "length (take m bs) = m" by simp
    with 2 show thesis
      using wroteI [OF f order_refl, of "take m bs"] by (intro that(2) [of m]) simp_all
  qed
qed

lemma wrote_fds: "wrote f bs o1 o2 \<Longrightarrow> fds o2 f \<noteq> None" "wrote f bs o1 o2 \<Longrightarrow> signals o2 \<le> signals o1"
  by (auto simp: wrote_def)

text \<open>
  \<^verbatim>\<open>write_all\<close> writes all of its buffer, whatever the calls of \<^verbatim>\<open>write\<close> take, and returns when every
  call takes a byte or is one of the interrupted ones.
\<close>

lemma rets_write_all:
  assumes laws: "site_laws E Z V"
    and "fds (V (world s)) f \<noteq> None" "signals (V (world s)) + length buf < n"
    and "\<And>w. obs Z w = obs Z (world s) \<Longrightarrow> wrote f buf (V (world s)) (V w) \<Longrightarrow> Q (0, s\<lparr>world := w\<rparr>)"
  shows "rets (write_all n E f buf s) Q"
  using assms(2-)
proof (induction n arbitrary: buf s)
  case (Suc n)
  show ?case
    unfolding write_all.simps
  proof (rule rets_moves [OF os_calls(7) [OF laws]])
    fix r w
    assume w: "obs Z w = obs Z (world s)" "writes f buf (V (world s)) r (V w)"
    have more: "rets (write_all n E f ys (s\<lparr>world := w\<rparr>)) Q"
      if "wrote f xs (V (world s)) (V w)" "buf = xs @ ys" "signals (V w) + length ys < n" for xs ys
    proof (rule Suc.IH)
      fix v
      assume "obs Z v = obs Z (world (s\<lparr>world := w\<rparr>))" "wrote f ys (V (world (s\<lparr>world := w\<rparr>))) (V v)"
      with wrote_append [OF that(1)] that(2) w(1) Suc.prems(3) show "Q (0, s\<lparr>world := w, world := v\<rparr>)" by simp
    qed (use that wrote_fds [OF that(1)] in auto)
    from w(2) Suc.prems(1) show "rets (case r of
        Inl e \<Rightarrow> if e = EINTR then write_all n E f buf (s\<lparr>world := w\<rparr>) else Ret (-1, s\<lparr>world := w\<rparr>)
      | Inr cc \<Rightarrow> if length buf < cc then Stuck OutOfBounds
          else if length buf - cc = 0 then Ret (0, s\<lparr>world := w\<rparr>)
          else write_all n E f (drop cc buf) (s\<lparr>world := w\<rparr>)) Q"
    proof (cases rule: writes_cases)
      case interrupted
      then show ?thesis using more [of "[]" buf] Suc.prems(2) by simp
    next
      case (wrote m)
      have "rets (write_all n E f (drop m buf) (s\<lparr>world := w\<rparr>)) Q" if "m < length buf"
        using more [OF wrote(4), of "drop m buf"] wrote(1,2) wrote_fds(2) [OF wrote(4)] Suc.prems(2) that by auto
      moreover have "Q (0, s\<lparr>world := w\<rparr>)" if "m = length buf"
        using wrote(4) w(1) that by (intro Suc.prems(3)) simp_all
      ultimately show ?thesis using wrote(1,3) by auto
    qed
  qed
qed simp

text \<open>The pieces of a download, one after the other.\<close>

lemma wrote_refl: "fds o1 f \<noteq> None \<Longrightarrow> wrote f [] o1 o1"
proof -
  assume "fds o1 f \<noteq> None"
  then obtain i k where "fds o1 f = Some (i, k)" by auto
  from wroteI [OF this order_refl, of "[]"] this show ?thesis by (simp add: fun_upd_idem)
qed

lemma rets_get_buffers:
  assumes laws: "site_laws E Z V"
    and "fds (V (world s)) f \<noteq> None" "signals (V (world s)) + length (concat bufs) < loop_fuel E"
    and "\<And>w. obs Z w = obs Z (world s) \<Longrightarrow> wrote f (concat bufs) (V (world s)) (V w) \<Longrightarrow> Q (True, s\<lparr>world := w\<rparr>)"
  shows "rets (get_buffers E f bufs s) Q"
  using assms(2-)
proof (induction bufs arbitrary: s)
  case Nil
  then show ?case using Nil.prems(3) [of "world s"] wrote_refl by simp
next
  case (Cons b bs)
  have "rets (get_buffers E f bs (s\<lparr>world := w\<rparr>)) Q"
    if w: "obs Z w = obs Z (world s)" "wrote f b (V (world s)) (V w)" for w
  proof (rule Cons.IH)
    fix v
    assume "obs Z v = obs Z (world (s\<lparr>world := w\<rparr>))" "wrote f (concat bs) (V (world (s\<lparr>world := w\<rparr>))) (V v)"
    with wrote_append [OF w(2)] w(1) Cons.prems(3) show "Q (True, s\<lparr>world := w, world := v\<rparr>)" by simp
  qed (use wrote_fds [OF w(2)] Cons.prems(2) in auto)
  then show ?case
    using Cons.prems(1,2) by (auto simp: cb_get_buffered_def intro!: rets_write_all [OF laws])
qed

text \<open>
  \<^verbatim>\<open>read_write_all_vfile\<close> sends the rest of the file, however short the reads are.
\<close>

lemma rets_read_write_all:
  assumes laws: "site_laws E Z V"
    and "fds (V (world s)) f = Some (i, k)" "uploads (V (world s)) v = Some (p, c, sz, got)"
    and "length (drop k (files (V (world s)) i)) < n"
    and "\<And>w j. obs Z w = obs Z (world s) \<Longrightarrow> V w = (V (world s))\<lparr>fds := (fds (V (world s)))(f \<mapsto> (i, j)),
      uploads := (uploads (V (world s)))(v \<mapsto> (p, c, sz, got @ drop k (files (V (world s)) i)))\<rparr> \<Longrightarrow>
      Q (0, s\<lparr>world := w\<rparr>)"
  shows "rets (read_write_all_vfile n E f v s) Q"
  using assms(2-)
proof (induction n arbitrary: s k got)
  case (Suc n)
  show ?case
    unfolding read_write_all_vfile.simps
  proof (rule rets_moves [OF os_calls(6) [OF laws]])
    fix r w
    let ?o = "V (world s)" and ?rest = "drop k (files (V (world s)) i)"
    assume w: "obs Z w = obs Z (world s)" "reads f WRITE_BLOCK_SIZE ?o r (V w)"
    obtain m where m: "m \<le> length ?rest" "m = 0 \<longrightarrow> ?rest = []" "r = Inr (take m ?rest)"
      "V w = ?o\<lparr>fds := (fds ?o)(f \<mapsto> (i, k + m))\<rparr>"
      using w(2) [unfolded reads_def, rule_format, OF Suc.prems(1)] by (auto simp: WRITE_BLOCK_SIZE_def)
    have more: "rets (read_write_all_vfile n E f v (s\<lparr>world := x\<rparr>)) Q"
      if x: "obs Z x = obs Z w" "V x = (V w)\<lparr>uploads := (uploads (V w))(v \<mapsto> (p, c, sz, got @ take m ?rest))\<rparr>" "m \<noteq> 0" for x
    proof (rule Suc.IH [of _ "k + m" "got @ take m ?rest"])
      fix y j
      assume obs: "obs Z y = obs Z (world (s\<lparr>world := x\<rparr>))" and y: "V y = (V (world (s\<lparr>world := x\<rparr>)))
        \<lparr>fds := (fds (V (world (s\<lparr>world := x\<rparr>))))(f \<mapsto> (i, j)), uploads := (uploads (V (world (s\<lparr>world := x\<rparr>))))
          (v \<mapsto> (p, c, sz, (got @ take m ?rest) @ drop (k + m) (files (V (world (s\<lparr>world := x\<rparr>))) i)))\<rparr>"
      have rest: "take m ?rest @ drop (k + m) (files ?o i) = ?rest"
        by (metis append_take_drop_id drop_drop add.commute)
      have "V y = ?o\<lparr>fds := (fds ?o)(f \<mapsto> (i, j)), uploads := (uploads ?o)(v \<mapsto> (p, c, sz, got @ ?rest))\<rparr>"
        unfolding y by (simp add: x(2) m(4) rest)
      from Suc.prems(4) [OF _ this] show "Q (0, s\<lparr>world := x, world := y\<rparr>)" using obs x(1) w(1) by simp
    qed (use m x Suc.prems(3) in auto)
    show "rets (case r of Inl e \<Rightarrow> Ret (-1, s\<lparr>world := w\<rparr>)
      | Inr buf \<Rightarrow> if buf = [] then Ret (0, s\<lparr>world := w\<rparr>)
        else call (dpl_write E v buf) (s\<lparr>world := w\<rparr>) (\<lambda>(rc, u) s.
          if rc \<noteq> DPL_SUCCESS then Ret (-1, s) else read_write_all_vfile n E f v s)) Q"
    proof (cases "m = 0")
      case True
      then have "(uploads ?o)(v \<mapsto> (p, c, sz, got @ ?rest)) = uploads ?o"
        using m(2) Suc.prems(2) by (simp add: fun_upd_idem)
      with True m(4) w(1) have "Q (0, s\<lparr>world := w\<rparr>)"
        by (intro Suc.prems(4) [of w k]) (simp_all del: fun_upd_apply)
      then show ?thesis using True m(3) by simp
    next
      case False
      then show ?thesis
        using m Suc.prems(2) more by (auto intro!: rets_moves [OF store_calls(8) [OF laws]])
    qed
  qed
qed simp

section \<open>The heap\<close>

text \<open>The operations of an entry that exists, and of a dictionary.\<close>

lemma heap_at:
  "pes s a = Some p \<Longrightarrow> a \<noteq> NULL \<Longrightarrow> pe_at a s = Ret p"
  "pes s a = Some p \<Longrightarrow> a \<noteq> NULL \<Longrightarrow> pe_upd a h s = Ret (s\<lparr>pes := (pes s)(a \<mapsto> h p)\<rparr>)"
  "dicts s d = Some c \<Longrightarrow> d \<noteq> NULL \<Longrightarrow> dict_at d s = Ret c"
  "dicts s d = Some c \<Longrightarrow> d \<noteq> NULL \<Longrightarrow> dict_set d c' s = Ret (s\<lparr>dicts := (dicts s)(d \<mapsto> c')\<rparr>)"
  "dicts s d = Some c \<Longrightarrow> d \<noteq> NULL \<Longrightarrow> dict_free_opt d s = Ret (s\<lparr>dicts := (dicts s)(d := None)\<rparr>)"
  by (simp_all add: pe_at_def pe_upd_def dict_at_def dict_set_def dict_free_opt_def dpl_dict_free_def)

text \<open>One order for the updates of a state.\<close>

lemma state_order:
  "s\<lparr>pes := p, hash := h\<rparr> = s\<lparr>hash := h, pes := p\<rparr>" "s\<lparr>dicts := d, hash := h\<rparr> = s\<lparr>hash := h, dicts := d\<rparr>"
  "s\<lparr>nxt := n, hash := h\<rparr> = s\<lparr>hash := h, nxt := n\<rparr>" "s\<lparr>world := w, hash := h\<rparr> = s\<lparr>hash := h, world := w\<rparr>"
  "s\<lparr>dicts := d, pes := p\<rparr> = s\<lparr>pes := p, dicts := d\<rparr>" "s\<lparr>nxt := n, pes := p\<rparr> = s\<lparr>pes := p, nxt := n\<rparr>"
  "s\<lparr>world := w, pes := p\<rparr> = s\<lparr>pes := p, world := w\<rparr>" "s\<lparr>nxt := n, dicts := d\<rparr> = s\<lparr>dicts := d, nxt := n\<rparr>"
  "s\<lparr>world := w, dicts := d\<rparr> = s\<lparr>dicts := d, world := w\<rparr>" "s\<lparr>world := w, nxt := n\<rparr> = s\<lparr>nxt := n, world := w\<rparr>"
  by (cases s; simp)+

lemmas entry_ops = pentry_get_fd_def pentry_set_fd_def pentry_set_flag_def pentry_get_exclude_def pentry_get_path_def
  pentry_get_placeholder_def pentry_set_placeholder_def pentry_inc_refcount_def pentry_dec_refcount_def

lemma rets_unlock:
  assumes "site_laws E Z V" "pes s a = Some p" "a \<noteq> NULL"
    and "\<And>w. obs Z w = obs Z (world s) \<Longrightarrow> V w = V (world s) \<Longrightarrow>
      Q (0, s\<lparr>pes := (pes s)(a \<mapsto> p\<lparr>mutex := False\<rparr>), world := w\<rparr>)"
  shows "rets (pentry_unlock E a s) Q"
  unfolding pentry_unlock_def pentry_gen_unlock_def
  using assms(2-4) by (auto simp: heap_at state_order intro!: rets_calm [OF os_calls(16) [OF assms(1)]])

lemma rets_lock:
  assumes "site_laws E Z V" "pes s a = Some p" "a \<noteq> NULL" "\<not> mutex p"
    and "\<And>w. obs Z w = obs Z (world s) \<Longrightarrow> V w = V (world s) \<Longrightarrow>
      Q (0, s\<lparr>pes := (pes s)(a \<mapsto> p\<lparr>mutex := True\<rparr>), world := w\<rparr>)"
  shows "rets (pentry_lock E a s) Q"
  unfolding pentry_lock_def pentry_gen_lock_def
  using assms(2-5) by (auto simp: heap_at state_order intro!: rets_calm [OF os_calls(16) [OF assms(1)]])

lemma rets_dict_new:
  assumes "site_laws E Z V"
    and "\<And>w. obs Z w = obs Z (world s) \<Longrightarrow> V w = V (world s) \<Longrightarrow>
      rets (k (nxt s) (s\<lparr>dicts := (dicts s)(nxt s \<mapsto> dict_new E), nxt := Suc (nxt s), world := w\<rparr>)) Q"
  shows "rets (dpl_dict_new E s k) Q"
  unfolding dpl_dict_new_def
  using assms(2) by (auto simp: dict_store_def state_order intro!: rets_calm [OF os_calls(14) [OF assms(1)]])

text \<open>The metadata of an upload says nothing about compression.\<close>

lemma rets_dict_update:
  assumes "site_laws E Z V"
    and "\<And>w c'. obs Z w = obs Z (world s) \<Longrightarrow> V w = V (world s) \<Longrightarrow>
      (\<And>j. dict_get E c' j = (if j = k then Some x else dict_get E c j)) \<Longrightarrow> rets (h (DPL_SUCCESS, c') (s\<lparr>world := w\<rparr>)) Q"
  shows "rets (call (dict_update E c k x) s h) Q"
proof (rule rets_call, clarify)
  fix rc c' w
  assume u: "dict_update E c k x (world s) = ((rc, c'), w)"
  have "rc = DPL_SUCCESS" "\<And>j. dict_get E c' j = (if j = k then Some x else dict_get E c j)"
    using site_lawsD(6) [OF assms(1)] unfolding dict_laws_def by (metis u fst_conv snd_conv)+
  moreover have "obs Z w = obs Z (world s) \<and> V w = V (world s)"
    using spec [OF store_calls(1) [OF assms(1), unfolded calm_def moves_def], of "world s" c k x] by (simp add: u)
  ultimately show "rets (h (rc, c') (s\<lparr>world := w\<rparr>)) Q" using assms(2) by simp
qed

lemma rets_assign_meta:
  assumes "site_laws E Z V" "dicts s d = Some c" "d \<noteq> NULL" "k \<noteq> j"
    and "\<And>w c'. obs Z w = obs Z (world s) \<Longrightarrow> V w = V (world s) \<Longrightarrow> dict_get E c' j = dict_get E c j \<Longrightarrow>
      Q (s\<lparr>dicts := (dicts s)(d \<mapsto> c'), world := w\<rparr>)"
  shows "rets (assign_meta_to_dict E d k v s) Q"
  unfolding assign_meta_to_dict_def
  using assms(2-5) by (auto simp: Let_def heap_at state_order intro!: rets_dict_update [OF assms(1)])

lemma rets_fill_metadata:
  assumes "site_laws E Z V" "dicts s d = Some c" "d \<noteq> NULL"
    and "\<And>w c'. obs Z w = obs Z (world s) \<Longrightarrow> V w = V (world s) \<Longrightarrow>
      dict_get E c' ''compression'' = dict_get E c ''compression'' \<Longrightarrow>
      Q (s\<lparr>dicts := (dicts s)(d \<mapsto> c'), world := w\<rparr>)"
  shows "rets (fill_metadata_from_stat E d st s) Q"
proof -
  have fin: "rets (assign_all E d kvs (s\<lparr>dicts := (dicts s)(d \<mapsto> c'), world := w\<rparr>)) Q"
    if "''compression'' \<notin> fst ` set kvs" "obs Z w = obs Z (world s)" "V w = V (world s)"
      "dict_get E c' ''compression'' = dict_get E c ''compression''" for kvs c' w
    using that
  proof (induction kvs arbitrary: c' w)
    case (Cons kv kvs)
    obtain k v where kv: "kv = (k, v)" "k \<noteq> ''compression''" using Cons.prems(1) by (cases kv) auto
    show ?case
      unfolding kv(1) assign_all.simps rets_obind
    proof (rule rets_assign_meta [OF assms(1) _ assms(3) kv(2), of _ c'])
      fix w' c''
      assume "obs Z w' = obs Z (world (s\<lparr>dicts := (dicts s)(d \<mapsto> c'), world := w\<rparr>))"
        "V w' = V (world (s\<lparr>dicts := (dicts s)(d \<mapsto> c'), world := w\<rparr>))"
        "dict_get E c'' ''compression'' = dict_get E c' ''compression''"
      then show "rets (assign_all E d kvs (s\<lparr>dicts := (dicts s)(d \<mapsto> c'), world := w,
          dicts := (dicts (s\<lparr>dicts := (dicts s)(d \<mapsto> c'), world := w\<rparr>))(d \<mapsto> c''), world := w'\<rparr>)) Q"
        using Cons.IH [of w' c''] Cons.prems by (simp add: state_order)
    qed simp
  qed (use assms(4) in auto)
  have "s = s\<lparr>dicts := (dicts s)(d \<mapsto> c), world := world s\<rparr>" using assms(2) by (cases s) (simp add: fun_upd_idem)
  moreover have "rets (fill_metadata_from_stat E d st (s\<lparr>dicts := (dicts s)(d \<mapsto> c), world := world s\<rparr>)) Q"
    unfolding fill_metadata_all by (rule fin) simp_all
  ultimately show ?thesis by simp
qed

section \<open>Closing\<close>

text \<open>What an object holds: the data itself, or its compressed form.\<close>

definition stands_for :: "'w zmodel \<Rightarrow> byte list \<times> string option \<Rightarrow> byte list \<Rightarrow> bool" where
  "stands_for Z x bs \<longleftrightarrow> (case snd x of None \<Rightarrow> fst x = bs | Some m \<Rightarrow>
     m = ''zlib'' \<and> codec Z (fst x) bs \<and> length (fst x) \<le> zbound Z (length bs))"

lemma unat_size: "n < 2 ^ 64 \<Longrightarrow> unat (of_nat n :: u64) = n"
  by (simp add: unat_of_nat take_bit_nat_eq_self)

lemma rets_release_exc:
  assumes "site_laws E Z V" "pes s a = Some p" "a \<noteq> NULL"
    and "\<And>w. obs Z w = obs Z (world s) \<Longrightarrow> V w = V (world s) \<Longrightarrow>
      Q (r, s\<lparr>pes := (pes s)(a \<mapsto> p\<lparr>flag := FLAG_CLEAN, mutex := False\<rparr>), world := w\<rparr>)"
  shows "rets (release_exc E a r s) Q"
  unfolding release_exc_def
  using assms by (auto simp: entry_ops heap_at state_order intro!: rets_unlock [OF assms(1)])

lemma rets_release_plain:
  assumes laws: "site_laws E Z V"
    and "pes s fh = Some pe" "fh \<noteq> NULL" "\<exists>c. dicts s d = Some c \<and> dict_get E c ''compression'' = x" "d \<noteq> NULL"
    and "fds (V (world s)) f = Some (i, 0)" "files (V (world s)) i = bs" "length bs < loop_fuel E" "length bs < 2 ^ 64"
    and "cstr_get (encryption_method (cfg s)) = Ret m" "\<not> strncasecmp_eq m ''aes'' 3"
    and "\<And>w. V w = (V (world s))\<lparr>objects := (objects (V (world s)))(pth \<mapsto> (bs, x))\<rparr> \<Longrightarrow>
      Q (0, s\<lparr>pes := (pes s)(fh \<mapsto> pe\<lparr>flag := FLAG_CLEAN, mutex := False\<rparr>), dicts := (dicts s)(d := None), world := w\<rparr>)"
  shows "rets (release_send E fh pth f (upload0\<lparr>up_dict := d\<rparr>) f (of_nat (length bs)) s) Q"
  unfolding release_send_def release_err_def
  using assms(2-11)
  by (auto simp: upload0_def Let_def heap_at state_order unat_size uploads_end_def fun_upd_idem
    intro!: rets_moves [OF store_calls(7) [OF laws]]
      rets_read_write_all [OF laws, where i = i and k = 0 and p = pth and c = x and got = "[]"
        and sz = "length bs"]
      rets_moves [OF store_calls(9) [OF laws]] rets_moves [OF os_calls(10) [OF laws]] rets_release_exc [OF laws, where p = pe] assms(12))

section \<open>Compression\<close>

text \<open>\<^verbatim>\<open>zip\<close> and \<^verbatim>\<open>unzip\<close> work on streams only.\<close>

definition stream_stable :: "('w, 'd) env \<Rightarrow> ('w \<Rightarrow> bool) \<Rightarrow> bool" where
  "stream_stable E P \<longleftrightarrow> (\<forall>w. P w \<longrightarrow>
     (\<forall>f n. P (snd (s_fread E f n w))) \<and> (\<forall>f bs. P (snd (s_fwrite E f bs w))) \<and> (\<forall>c l. P (snd (z_init E c l w))) \<and>
     (\<forall>z fl inp n. P (snd (z_step E z fl inp n w))) \<and> (\<forall>z. P (snd (z_end E z w))))"

abbreviation stays :: "('w \<Rightarrow> bool) \<Rightarrow> ('a \<times> ('w, 'd) state) outcome \<Rightarrow> bool" where
  "stays P m \<equiv> keeps m (\<lambda>(r, t). P (world t))"

lemma stays_call:
  "P (snd (f (world s))) \<Longrightarrow> (\<And>r w. P w \<Longrightarrow> stays P (k r (s\<lparr>world := w\<rparr>))) \<Longrightarrow> stays P (call f s k)"
  by (auto simp: call_def split: prod.splits)

lemma stream_stable:
  assumes "stream_stable E P" "P w"
  shows "P (snd (s_fread E f n w))" "P (snd (s_fwrite E f bs w))" "P (snd (z_init E c l w))"
    "P (snd (z_step E z fl inp n w))" "P (snd (z_end E z w))"
  using assms unfolding stream_stable_def by blast+

lemma stays_zip_inner: "stream_stable E P \<Longrightarrow> P (world s) \<Longrightarrow> stays P (zip_inner n E z fl inp f s)"
proof (induction n arbitrary: inp s)
  case (Suc n)
  then show ?case by (auto intro!: stays_call simp: stream_stable [OF Suc.prems(1)])
qed simp

lemma stays_zip_outer: "stream_stable E P \<Longrightarrow> P (world s) \<Longrightarrow> stays P (zip_outer n E z src f s)"
proof (induction n arbitrary: s)
  case (Suc n)
  note i = stays_zip_inner [OF Suc.prems(1)]
  show ?case
    using Suc by (auto intro!: stays_call keeps_mono [OF i] simp: Let_def stream_stable [OF Suc.prems(1)] split: sum.split)
qed simp

lemma stays_zip: "stream_stable E P \<Longrightarrow> P (world s) \<Longrightarrow> stays P (zip E src f level s)"
  by (auto simp: zip_def intro!: stays_call stays_zip_outer intro: stream_stable)

lemma stays_unzip_inner: "stream_stable E P \<Longrightarrow> P (world s) \<Longrightarrow> stays P (unzip_inner n E z inp f s)"
proof (induction n arbitrary: inp s)
  case (Suc n)
  then show ?case by (auto intro!: stays_call simp: stream_stable [OF Suc.prems(1)] split: option.split)
qed simp

lemma stays_unzip_outer: "stream_stable E P \<Longrightarrow> P (world s) \<Longrightarrow> stays P (unzip_outer n E z r src f s)"
proof (induction n arbitrary: r s)
  case (Suc n)
  note i = stays_unzip_inner [OF Suc.prems(1)]
  show ?case
    using Suc by (auto intro!: stays_call keeps_mono [OF i] simp: Let_def stream_stable [OF Suc.prems(1)] split: sum.split)
qed simp

lemma stays_unzip: "stream_stable E P \<Longrightarrow> P (world s) \<Longrightarrow> stays P (unzip E src f s)"
  by (auto simp: unzip_def intro!: stays_call stays_unzip_outer intro: stream_stable)

lemma site_stable: "site_laws E Z V \<Longrightarrow> stream_stable E (\<lambda>w. V w = o1)"
  by (simp add: site_laws_def stdio_laws_def stream_stable_def)

lemma rets_zip:
  assumes laws: "site_laws E Z V"
    and "unread (obs Z (world s)) src = bs" "written (obs Z (world s)) f = []"
    and "length bs < loop_fuel E * CHUNK" "zbound Z (length bs) < loop_fuel E * CHUNK"
    and "\<And>w cs. V w = V (world s) \<Longrightarrow> written (obs Z w) f = cs \<Longrightarrow> codec Z cs bs \<Longrightarrow>
      length cs \<le> zbound Z (length bs) \<Longrightarrow> Q (Z_OK, s\<lparr>world := w\<rparr>)"
  shows "rets (zip E src f level s) Q"
proof -
  obtain w cs where z: "zip E src f level s = Ret (Z_OK, s\<lparr>world := w\<rparr>)" "written (obs Z w) f = cs" "codec Z cs bs"
    "length cs \<le> zbound Z (length bs)"
    using zip_total [OF site_lawsD(4,5) [OF laws], where src = src and s = s and f = f and level = level] assms(2-5) by auto
  moreover have "V w = V (world s)" using stays_zip [OF site_stable [OF laws] refl, where s = s and src = src and f = f and level = level] z(1) by simp
  ultimately show ?thesis using assms(6) by simp
qed

lemma rets_unzip:
  assumes laws: "site_laws E Z V"
    and "unread (obs Z (world s)) src = cs" "codec Z cs bs" "written (obs Z (world s)) f = []"
    and "length bs < loop_fuel E * CHUNK" "length cs < loop_fuel E * CHUNK"
    and "\<And>w. V w = V (world s) \<Longrightarrow> written (obs Z w) f = bs \<Longrightarrow> Q (Z_OK, s\<lparr>world := w\<rparr>)"
  shows "rets (unzip E src f s) Q"
proof -
  obtain w where z: "unzip E src f s = Ret (Z_OK, s\<lparr>world := w\<rparr>)" "written (obs Z w) f = bs"
    using unzip_total [OF site_lawsD(4,5) [OF laws], where src = src and s = s and bs = bs and f = f] assms(2-6) by auto
  moreover have "V w = V (world s)" using stays_unzip [OF site_stable [OF laws] refl, where s = s and src = src and f = f] z(1) by simp
  ultimately show ?thesis using assms(7) by simp
qed

text \<open>The streams of \<^verbatim>\<open>stdio\<close>.\<close>

lemma rets_fopen:
  assumes "site_laws E Z V" "m = ''r'' \<longrightarrow> names (V (world s)) (squeeze p) \<noteq> None"
    and "\<And>r w. opens_stream p m (V (world s)) (obs Z (world s)) r (V w) (obs Z w) \<Longrightarrow> rets (k r (s\<lparr>world := w\<rparr>)) Q"
  shows "rets (call (s_fopen E p m) s k) Q"
proof (rule rets_call)
  fix r w
  assume "s_fopen E p m (world s) = (r, w)"
  moreover have "\<forall>p m w. case s_fopen E p m w of (r, w') \<Rightarrow> opens_stream p m (V w) (obs Z w) r (V w') (obs Z w')"
    using site_lawsD(2) [OF assms(1)] by (simp add: stdio_laws_def)
  ultimately show "rets (k r (s\<lparr>world := w\<rparr>)) Q" by (intro assms(3)) (metis (no_types, lifting) case_prod_conv)
qed

lemma rets_fopen_r:
  assumes "site_laws E Z V" "names (V (world s)) (squeeze p) = Some i"
    and "\<And>f g w. fps (V (world s)) f = None \<Longrightarrow> 0 < g \<Longrightarrow> fds (V (world s)) g = None \<Longrightarrow>
      V w = (V (world s))\<lparr>fds := (fds (V (world s)))(g \<mapsto> (i, 0)), fps := (fps (V (world s)))(f \<mapsto> (i, g, False))\<rparr> \<Longrightarrow>
      obs Z w = (obs Z (world s))\<lparr>unread := (unread (obs Z (world s)))(f := files (V (world s)) i)\<rparr> \<Longrightarrow>
      rets (k (Inr f) (s\<lparr>world := w\<rparr>)) Q"
  shows "rets (call (s_fopen E p ''r'') s k) Q"
  using assms(2) by (intro rets_fopen [OF assms(1)]) (auto simp: opens_stream_def resolves_def intro!: assms(3))

lemma rets_fopen_w:
  assumes "site_laws E Z V" "m \<noteq> ''r''"
    and "\<And>f g i w. fps (V (world s)) f = None \<Longrightarrow> 0 < g \<Longrightarrow> fds (V (world s)) g = None \<Longrightarrow> resolves (V (world s)) p i \<Longrightarrow>
      V w = (V (world s))\<lparr>names := (names (V (world s)))(squeeze p \<mapsto> i), files := (files (V (world s)))(i := []),
        fds := (fds (V (world s)))(g \<mapsto> (i, 0)), fps := (fps (V (world s)))(f \<mapsto> (i, g, True))\<rparr> \<Longrightarrow>
      obs Z w = (obs Z (world s))\<lparr>written := (written (obs Z (world s)))(f := [])\<rparr> \<Longrightarrow>
      rets (k (Inr f) (s\<lparr>world := w\<rparr>)) Q"
  shows "rets (call (s_fopen E p m) s k) Q"
  using assms(2) by (intro rets_fopen [OF assms(1)]) (auto simp: opens_stream_def intro!: assms(3))

text \<open>A name that is not one of a file leads elsewhere.\<close>

lemma resolves_neq: "resolves o1 p j \<Longrightarrow> names o1 n = Some i \<Longrightarrow> names o1 (squeeze p) \<noteq> Some i \<Longrightarrow> j \<noteq> i"
  by (auto simp: resolves_def ran_def split: option.splits)

lemma rets_fileno:
  assumes "site_laws E Z V" "fps (V (world s)) f = Some (i, g, True)"
    and "\<And>w. obs Z w = obs Z (world s) \<Longrightarrow> V w = (V (world s))\<lparr>
      files := (files (V (world s)))(i := written (obs Z (world s)) f),
      fds := (fds (V (world s)))(g \<mapsto> (i, length (written (obs Z (world s)) f)))\<rparr> \<Longrightarrow> rets (k (Inr g) (s\<lparr>world := w\<rparr>)) Q"
  shows "rets (call (s_fileno E f) s k) Q"
proof (rule rets_call)
  fix r w
  assume r: "s_fileno E f (world s) = (r, w)"
  have "\<forall>f w. case s_fileno E f w of (r, w') \<Rightarrow> obs Z w' = obs Z w \<and> (\<forall>i g. fps (V w) f = Some (i, g, True) \<longrightarrow>
       r = Inr g \<and> V w' = (V w)\<lparr>files := (files (V w))(i := written (obs Z w) f),
         fds := (fds (V w))(g \<mapsto> (i, length (written (obs Z w) f)))\<rparr>)"
    using site_lawsD(2) [OF assms(1)] by (simp add: stdio_laws_def)
  from spec [OF spec [OF this, of f], of "world s"] show "rets (k r (s\<lparr>world := w\<rparr>)) Q"
    using assms(2,3) unfolding r by simp
qed

lemma rets_fclose:
  assumes "site_laws E Z V" "fps (V (world s)) f = Some (i, g, b)"
    and "\<And>r w. obs Z w = obs Z (world s) \<Longrightarrow> V w = (V (world s))\<lparr>
      files := (if b then (files (V (world s)))(i := written (obs Z (world s)) f) else files (V (world s))),
      fds := (fds (V (world s)))(g := None), fps := (fps (V (world s)))(f := None)\<rparr> \<Longrightarrow> rets (k r (s\<lparr>world := w\<rparr>)) Q"
  shows "rets (call (s_fclose E f) s k) Q"
proof (rule rets_call)
  fix r w
  assume r: "s_fclose E f (world s) = (r, w)"
  have "\<forall>f w. case s_fclose E f w of (r, w') \<Rightarrow> obs Z w' = obs Z w \<and> (\<forall>i g b. fps (V w) f = Some (i, g, b) \<longrightarrow>
       V w' = (V w)\<lparr>files := (if b then (files (V w))(i := written (obs Z w) f) else files (V w)),
         fds := (fds (V w))(g := None), fps := (fps (V w))(f := None)\<rparr>)"
    using site_lawsD(2) [OF assms(1)] by (simp add: stdio_laws_def)
  from spec [OF spec [OF this, of f], of "world s"] show "rets (k r (s\<lparr>world := w\<rparr>)) Q"
    using assms(2,3) unfolding r by simp
qed

lemma rets_compress:
  assumes laws: "site_laws E Z V"
    and "unread (obs Z (world s)) src = bs" "written (obs Z (world s)) dst = []"
    and "length bs < loop_fuel E * CHUNK" "zbound Z (length bs) < loop_fuel E * CHUNK"
    and "fps (V (world s)) dst = Some (j, g, True)" "dicts s d = Some c" "d \<noteq> NULL"
    and "\<And>w cs c'. V w = (V (world s))\<lparr>files := (files (V (world s)))(j := cs), fds := (fds (V (world s)))(g \<mapsto> (j, 0))\<rparr> \<Longrightarrow>
      codec Z cs bs \<Longrightarrow> length cs \<le> zbound Z (length bs) \<Longrightarrow> written (obs Z w) dst = cs \<Longrightarrow>
      dict_get E c' ''compression'' = Some ''zlib'' \<Longrightarrow>
      Q (g, of_nat (length cs), s\<lparr>dicts := (dicts s)(d \<mapsto> c'), world := w\<rparr>)"
  shows "rets (compress_before_sending E src dst d sz s) Q"
  unfolding compress_before_sending_def
  using assms(2-8)
  by (auto simp: heap_at state_order intro!: rets_zip [OF laws, where bs = bs] rets_fileno [OF laws, where i = j and g = g]
    rets_calm [OF os_calls(5) [OF laws]] rets_moves [OF os_calls(10) [OF laws]] rets_dict_update [OF laws] assms(9))

lemma upd_absorb [simp]: "F(g := x, h := y, f := z, g := u) = F(h := y, f := z, g := u)"
  by (simp add: fun_eq_iff fun_upd_apply)

lemma rets_release_zipped:
  assumes laws: "site_laws E Z V"
    and "pes s fh = Some pe" "fh \<noteq> NULL" "\<exists>c. dicts s d = Some c \<and> dict_get E c ''compression'' = x" "d \<noteq> NULL"
    and "fds (V (world s)) f = Some (i, k)" "fds (V (world s)) g = Some (j, 0)" "f \<noteq> g" "f \<noteq> h" "g \<noteq> h" "src \<noteq> dst"
    and "fps (V (world s)) src = Some (i, h, False)" "fps (V (world s)) dst = Some (j, g, True)"
    and "files (V (world s)) j = cs" "written (obs Z (world s)) dst = cs"
    and "length cs < loop_fuel E" "length cs < 2 ^ 64"
    and "cstr_get (encryption_method (cfg s)) = Ret m" "\<not> strncasecmp_eq m ''aes'' 3"
    and "\<And>w. V w = (V (world s))\<lparr>names := (names (V (world s)))(squeeze z := None),
        fds := (fds (V (world s)))(h := None, f \<mapsto> (i, 0), g := None),
        fps := (fps (V (world s)))(src := None, dst := None),
        objects := (objects (V (world s)))(pth \<mapsto> (cs, x))\<rparr> \<Longrightarrow>
      Q (0, s\<lparr>pes := (pes s)(fh \<mapsto> pe\<lparr>flag := FLAG_CLEAN, mutex := False\<rparr>), dicts := (dicts s)(d := None), world := w\<rparr>)"
  shows "rets (release_send E fh pth f (upload0\<lparr>up_dict := d, up_zlocal := Some z, up_fpsrc := Some src, up_fpdst := Some dst\<rparr>)
    g (of_nat (length cs)) s) Q"
  unfolding release_send_def release_err_def
  using assms(2-19)
  by (auto simp: upload0_def Let_def heap_at state_order unat_size uploads_end_def fun_upd_idem
    intro!: rets_moves [OF store_calls(7) [OF laws]]
      rets_read_write_all [OF laws, where i = j and k = 0 and p = pth and c = x and got = "[]"
        and sz = "length cs"]
      rets_moves [OF store_calls(9) [OF laws]] rets_moves [OF os_calls(10) [OF laws]]
      rets_fclose [OF laws, where f = src and i = i and g = h and b = False]
      rets_fclose [OF laws, where f = dst and i = j and g = g and b = True]
      rets_moves [OF os_calls(3) [OF laws]] rets_release_exc [OF laws, where p = pe] assms(20))

section \<open>Names in the cache\<close>

lemma squeeze_slash: "squeeze (a @ CHR ''/'' # CHR ''/'' # q) = squeeze (a @ CHR ''/'' # q)"
  by (induction a rule: squeeze.induct) simp_all

lemma squeeze_drop: "squeeze (a @ CHR ''/'' # dropWhile (\<lambda>c. c = CHR ''/'') q) = squeeze (a @ CHR ''/'' # q)"
  by (induction q) (simp_all add: squeeze_slash)

lemma squeeze_tmp: "squeeze (a @ ''.tmp'') = squeeze a @ ''.tmp''"
  by (induction a rule: squeeze.induct) simp_all

text \<open>The file of the cache for a path, and the paths that fit into a temporary string.\<close>

definition cache_file :: "conf \<Rightarrow> string \<Rightarrow> string" where
  "cache_file c p = squeeze (cstr_print (cache_dir c) @ p)"

definition short_path :: "conf \<Rightarrow> string \<Rightarrow> bool" where
  "short_path c p \<longleftrightarrow> take 1 p = ''/'' \<and> length (cstr_print (cache_dir c)) + length p + 6 \<le> TMPSTR_MAX"

lemma cache_names:
  assumes "short_path c p"
  shows "tmpstr_fit (cstr_print (cache_dir c) @ p) = cstr_print (cache_dir c) @ p"
    "tmpstr_fit ((cstr_print (cache_dir c) @ p) @ ''.tmp'') = (cstr_print (cache_dir c) @ p) @ ''.tmp''"
    "tmpstr_fit (cstr_print (cache_dir c) @ ''/'' @ p) = cstr_print (cache_dir c) @ ''/'' @ p"
    "tmpstr_fit ((cstr_print (cache_dir c) @ ''/'' @ p) @ ''.tmp'') = (cstr_print (cache_dir c) @ ''/'' @ p) @ ''.tmp''"
    "tmpstr_fit (cstr_print (cache_dir c) @ ''/'' @ dropWhile (\<lambda>c. c = CHR ''/'') p) =
      cstr_print (cache_dir c) @ ''/'' @ dropWhile (\<lambda>c. c = CHR ''/'') p"
    "squeeze (cstr_print (cache_dir c) @ p) = cache_file c p"
    "squeeze (cstr_print (cache_dir c) @ ''/'' @ p) = cache_file c p"
    "squeeze (cstr_print (cache_dir c) @ ''/'' @ dropWhile (\<lambda>c. c = CHR ''/'') p) = cache_file c p"
    "squeeze ((cstr_print (cache_dir c) @ p) @ ''.tmp'') = cache_file c p @ ''.tmp''"
    "squeeze ((cstr_print (cache_dir c) @ ''/'' @ p) @ ''.tmp'') = cache_file c p @ ''.tmp''"
proof -
  have len: "length (cstr_print (cache_dir c)) + length p + 6 \<le> TMPSTR_MAX" using assms by (simp add: short_path_def)
  show "tmpstr_fit (cstr_print (cache_dir c) @ p) = cstr_print (cache_dir c) @ p"
    "tmpstr_fit ((cstr_print (cache_dir c) @ p) @ ''.tmp'') = (cstr_print (cache_dir c) @ p) @ ''.tmp''"
    "tmpstr_fit (cstr_print (cache_dir c) @ ''/'' @ p) = cstr_print (cache_dir c) @ ''/'' @ p"
    "tmpstr_fit ((cstr_print (cache_dir c) @ ''/'' @ p) @ ''.tmp'') = (cstr_print (cache_dir c) @ ''/'' @ p) @ ''.tmp''"
    using len by (simp_all add: tmpstr_fit_def)
  have "length (dropWhile (\<lambda>c. c = CHR ''/'') p) \<le> length p" by (rule length_dropWhile_le)
  then show "tmpstr_fit (cstr_print (cache_dir c) @ ''/'' @ dropWhile (\<lambda>c. c = CHR ''/'') p) =
      cstr_print (cache_dir c) @ ''/'' @ dropWhile (\<lambda>c. c = CHR ''/'') p"
    using len by (simp add: tmpstr_fit_def)
  obtain q where q: "p = CHR ''/'' # q" using assms by (cases p) (auto simp: short_path_def)
  show "squeeze (cstr_print (cache_dir c) @ p) = cache_file c p"
    "squeeze (cstr_print (cache_dir c) @ ''/'' @ p) = cache_file c p"
    "squeeze (cstr_print (cache_dir c) @ ''/'' @ dropWhile (\<lambda>c. c = CHR ''/'') p) = cache_file c p"
    by (simp_all add: cache_file_def q squeeze_slash squeeze_drop)
  show "squeeze ((cstr_print (cache_dir c) @ p) @ ''.tmp'') = cache_file c p @ ''.tmp''"
    "squeeze ((cstr_print (cache_dir c) @ ''/'' @ p) @ ''.tmp'') = cache_file c p @ ''.tmp''"
    unfolding squeeze_tmp by (simp_all add: cache_file_def q squeeze_slash)
qed

text \<open>What the handlers need of the configuration, and the sizes that the loops of the model can treat.\<close>

definition data_conf :: "conf \<Rightarrow> bool" where
  "data_conf c \<longleftrightarrow> conf_ready c \<and> \<not> rets (cstr_get (encryption_method c)) (\<lambda>m. strncasecmp_eq m ''aes'' 3)"

lemma data_confD:
  assumes "data_conf c"
  obtains m n where "cstr_get (encryption_method c) = Ret m" "\<not> strncasecmp_eq m ''aes'' 3"
    "cstr_get (compression_method c) = Ret n" "conf_ready c"
proof -
  have "conf_ready c" using assms by (simp add: data_conf_def)
  then obtain m n where "cstr_get (encryption_method c) = Ret m" "cstr_get (compression_method c) = Ret n"
    by (auto simp: conf_ready_def cstr_ok_def)
  then show thesis using assms \<open>conf_ready c\<close> by (intro that) (auto simp: data_conf_def)
qed

definition zlib_on :: "conf \<Rightarrow> bool" where
  "zlib_on c \<longleftrightarrow> rets (cstr_get (compression_method c)) (\<lambda>m. strncasecmp_eq m ''zlib'' 4)"

definition fits :: "('w, 'd) env \<Rightarrow> 'w zmodel \<Rightarrow> nat \<Rightarrow> bool" where
  "fits E Z n \<longleftrightarrow> n < loop_fuel E \<and> zbound Z n < loop_fuel E \<and> n < 2 ^ 64 \<and> zbound Z n < 2 ^ 64"

lemma fitsD:
  assumes "fits E Z n"
  shows "n < loop_fuel E" "zbound Z n < loop_fuel E" "n < 2 ^ 64" "zbound Z n < 2 ^ 64"
    "n < loop_fuel E * CHUNK" "zbound Z n < loop_fuel E * CHUNK"
proof -
  show f: "n < loop_fuel E" "zbound Z n < loop_fuel E" "n < 2 ^ 64" "zbound Z n < 2 ^ 64"
    using assms by (simp_all add: fits_def)
  have "k \<le> k * CHUNK" for k by (simp add: CHUNK_def)
  then show "n < loop_fuel E * CHUNK" "zbound Z n < loop_fuel E * CHUNK" using f(1,2) by (metis order_less_le_trans)+
qed

section \<open>The upload\<close>

text \<open>
  What an upload leaves: the object holds the file, which is as before, with its descriptor at the start. With
  compression, the name with \<^verbatim>\<open>.tmp\<close> is gone, and a file that had it is overwritten.
\<close>

definition uploaded :: "'w zmodel \<Rightarrow> conf \<Rightarrow> string \<Rightarrow> nat \<Rightarrow> int \<Rightarrow> site \<Rightarrow> site \<Rightarrow> bool" where
  "uploaded Z c p i f o1 o2 \<longleftrightarrow>
     (\<exists>x. objects o2 = (objects o1)(p \<mapsto> x) \<and> stands_for Z x (files o1 i) \<and>
        (\<forall>j. zlib_on c \<longrightarrow> names o1 (cache_file c p @ ''.tmp'') = Some j \<longrightarrow> files o2 j = fst x)) \<and>
     fds o2 f = Some (i, 0) \<and> files o2 i = files o1 i \<and> signals o2 = signals o1 \<and>
     names o2 = (if zlib_on c then (names o1)(cache_file c p @ ''.tmp'' := None) else names o1)"

lemma uploadedI:
  assumes "objects o2 = (objects o1)(p \<mapsto> x)" "stands_for Z x (files o1 i)"
    "fds o2 f = Some (i, 0)" "files o2 i = files o1 i" "signals o2 = signals o1"
    "names o2 = (if zlib_on c then (names o1)(cache_file c p @ ''.tmp'' := None) else names o1)"
    "\<And>j. zlib_on c \<Longrightarrow> names o1 (cache_file c p @ ''.tmp'') = Some j \<Longrightarrow> files o2 j = fst x"
  shows "uploaded Z c p i f o1 o2"
  unfolding uploaded_def using assms by blast

lemma upd_None [simp]: "(h(a \<mapsto> x)) b = None \<longleftrightarrow> b \<noteq> a \<and> h b = None"
  by (simp add: fun_upd_apply)

text \<open>The compression and what follows it.\<close>

lemma rets_compress_send:
  assumes laws: "site_laws E Z V"
    and "pes s fh = Some pe" "fh \<noteq> NULL" "dicts s d = Some c" "d \<noteq> NULL"
    and "fds (V (world s)) f = Some (i, k)" "fds (V (world s)) g = Some (j, l)" "f \<noteq> g" "f \<noteq> h" "g \<noteq> h" "src \<noteq> dst" "0 < g"
    and "fps (V (world s)) src = Some (i, h, False)" "fps (V (world s)) dst = Some (j, g, True)"
    and "unread (obs Z (world s)) src = bs" "written (obs Z (world s)) dst = []" "fits E Z (length bs)"
    and "cstr_get (encryption_method (cfg s)) = Ret m" "\<not> strncasecmp_eq m ''aes'' 3"
    and "\<And>w cs. codec Z cs bs \<Longrightarrow> length cs \<le> zbound Z (length bs) \<Longrightarrow> V w = (V (world s))\<lparr>names := (names (V (world s)))(squeeze z := None),
        files := (files (V (world s)))(j := cs), fds := (fds (V (world s)))(h := None, f \<mapsto> (i, 0), g := None),
        fps := (fps (V (world s)))(src := None, dst := None),
        objects := (objects (V (world s)))(pth \<mapsto> (cs, Some ''zlib''))\<rparr> \<Longrightarrow>
      Q (0, s\<lparr>pes := (pes s)(fh \<mapsto> pe\<lparr>flag := FLAG_CLEAN, mutex := False\<rparr>), dicts := (dicts s)(d := None), world := w\<rparr>)"
  shows "rets (compress_before_sending E src dst d sz s) (\<lambda>x. rets (case x of (zfd, zsize, t) \<Rightarrow>
      if zfd < 0 then E1 t
      else if 0 < zfd then release_send E fh pth f (upload0\<lparr>up_dict := d, up_zlocal := Some z, up_fpsrc := Some src,
        up_fpdst := Some dst\<rparr>) zfd zsize t
      else E2 t) Q)"
  using assms(2-19) fitsD [OF assms(17)]
  by (auto simp: state_order intro!: rets_compress [OF laws, where bs = bs and j = j and g = g and c = c]
    rets_release_zipped [OF laws, where i = i and k = k and j = j and g = g and h = h and pe = pe and m = m and
      x = "Some ''zlib''"] assms(20))

lemma rets_release_upload:
  assumes laws: "site_laws E Z V"
    and pe: "pes s fh = Some pe" "fh \<noteq> NULL" "nxt s \<noteq> NULL"
    and conf: "data_conf (cfg s)" "short_path (cfg s) pth"
    and cached: "fds (V (world s)) f = Some (i, 0)" "names (V (world s)) (cache_file (cfg s) pth) = Some i"
      "names (V (world s)) (cache_file (cfg s) pth @ ''.tmp'') \<noteq> Some i"
    and size: "fits E Z (length (files (V (world s)) i))" "st_size st = of_nat (length (files (V (world s)) i))"
    and post: "\<And>w. uploaded Z (cfg s) pth i f (V (world s)) (V w) \<Longrightarrow>
      Q (0, s\<lparr>pes := (pes s)(fh \<mapsto> pe\<lparr>flag := FLAG_CLEAN, mutex := False\<rparr>), dicts := (dicts s)(nxt s := None),
        nxt := Suc (nxt s), world := w\<rparr>)"
  shows "rets (release_upload E fh pth f st s) Q"
proof -
  obtain m n where mn: "cstr_get (encryption_method (cfg s)) = Ret m" "\<not> strncasecmp_eq m ''aes'' 3"
    "cstr_get (compression_method (cfg s)) = Ret n" using data_confD [OF conf(1)] .
  have z: "zlib_on (cfg s) \<longleftrightarrow> strncasecmp_eq n ''zlib'' 4" by (simp add: zlib_on_def mn)
  note c = cache_names [OF conf(2), simplified] and d = site_lawsD(7) [OF laws] and fuel = fitsD [OF size(1)]
  let ?o = "V (world s)" and ?bs = "files (V (world s)) i"
  show ?thesis
  proof (cases "strncasecmp_eq n ''zlib'' 4")
    case False
    have fin: "uploaded Z (cfg s) pth i f ?o (V w)"
      if "V w = ?o\<lparr>objects := (objects ?o)(pth \<mapsto> (?bs, None))\<rparr>" for w
      using that cached(1) z False by (intro uploadedI [where x = "(?bs, None)"]) (simp_all add: stands_for_def)
    show ?thesis
      unfolding release_upload_def
      using pe cached(1) size(2) mn False fuel
      by (auto simp: Let_def d state_order intro!: rets_dict_new [OF laws] rets_fill_metadata [OF laws, where c = "dict_new E"]
          rets_release_plain [OF laws, where i = i and pe = pe and m = m and x = None] post fin)
  next
    case True
    let ?t = "cache_file (cfg s) pth @ ''.tmp''"
    have fin: "uploaded Z (cfg s) pth i f ?o (V w)"
      if "j \<noteq> i" "\<forall>k. names ?o ?t = Some k \<longrightarrow> k = j" "codec Z cs ?bs" "length cs \<le> zbound Z (length ?bs)"
        "objects (V w) = (objects ?o)(pth \<mapsto> (cs, Some ''zlib''))" "fds (V w) f = Some (i, 0)" "signals (V w) = signals ?o"
        "files (V w) = (files ?o)(j := cs)" "names (V w) = (names ?o)(?t := None)" for w j cs
      using that z True by (intro uploadedI [where x = "(cs, Some ''zlib'')"]) (auto simp: stands_for_def)
    show ?thesis
      unfolding release_upload_def
      using pe cached size(2) mn True fuel
    proof (auto simp: Let_def d c state_order intro!: rets_dict_new [OF laws] rets_fill_metadata [OF laws, where c = "dict_new E"]
        rets_fopen_r [OF laws, where i = i] rets_fopen_w [OF laws, where m = "''w+''"], goal_cases)
      case (1 w wa c' src h wb dst g j wc)
      have j: "j \<noteq> i" "\<forall>k. names ?o ?t = Some k \<longrightarrow> k = j"
        using resolves_neq [OF 1(29), of "cache_file (cfg s) pth" i] 1(5,6,29) c by (auto simp: resolves_def)
      have f: "f \<noteq> g" "f \<noteq> h" using 1(4,25,35) by auto
      show ?case
        by (rule rets_compress_send [OF laws, where pe = pe and c = c' and i = i and k = 0 and l = 0 and g = g and j = j and h = h
              and bs = "?bs" and m = m])
          (use 1 j f size(1) in \<open>auto simp: state_order c intro!: post fin\<close>)
    qed
  qed
qed

text \<open>
  Closing a file that was open for writing: the object holds what the file held.
\<close>

lemma conf_ready_no_debug: "conf_ready (cfg s) \<Longrightarrow> \<not> log_debug s"
  by (simp add: conf_ready_def log_debug_def)

lemma rets_dfs_release:
  assumes laws: "site_laws E Z V"
    and pe: "pes s fh = Some pe" "fh \<noteq> NULL" "nxt s \<noteq> NULL" "fd pe = f" "0 \<le> f" "refcount pe = Suc n" "\<not> exclude pe"
    and conf: "data_conf (cfg s)" "short_path (cfg s) pth" "flags AND O_ACCMODE \<noteq> O_RDONLY"
    and cached: "fds (V (world s)) f = Some (i, 0)" "names (V (world s)) (cache_file (cfg s) pth) = Some i"
      "names (V (world s)) (cache_file (cfg s) pth @ ''.tmp'') \<noteq> Some i"
    and size: "fits E Z (length (files (V (world s)) i))"
    and post: "\<And>w. uploaded Z (cfg s) pth i f (V (world s)) (V w) \<Longrightarrow>
      Q (0, s\<lparr>pes := (pes s)(fh \<mapsto> pe\<lparr>refcount := n, flag := FLAG_CLEAN, mutex := False\<rparr>), dicts := (dicts s)(nxt s := None),
        nxt := Suc (nxt s), world := w\<rparr>)"
  shows "rets (dfs_release E pth flags fh s) Q"
proof -
  have quiet: "\<not> log_debug s" using conf(1) by (simp add: data_conf_def conf_ready_no_debug)
  show ?thesis
    unfolding dfs_release_def
    using pe conf cached size quiet
    by (auto simp: log_flags_def entry_ops heap_at state_order
      intro!: rets_calm [OF os_calls(5) [OF laws]] rets_release_upload [OF laws, where i = i and pe = "pe\<lparr>refcount := n\<rparr>"] post)
qed

end
