(* ===== verification/Fetch.thy ===== *)
theory Fetch
  imports Upload
begin

text \<open>
  The data path from the store to the cache: \<^verbatim>\<open>dfs_get_local_copy\<close> of \<^verbatim>\<open>file.c\<close> on a site where nothing
  fails. The file it opens holds what the object stands for, compressed or not.
\<close>

section \<open>Headers and metadata\<close>

lemma rets_namei:
  assumes laws: "site_laws E Z V" and "\<not> log_debug s" "objects (V (world s)) p \<noteq> None"
    and "\<And>w ty ino. obs Z w = obs Z (world s) \<Longrightarrow> V w = V (world s) \<Longrightarrow> inos (V w) ino = Some p \<Longrightarrow>
      Q (DPL_SUCCESS, (ty, ino), s\<lparr>world := w\<rparr>)"
  shows "rets (dfs_namei_timeout E p i False x s) Q"
proof -
  obtain rc ty ino w where c: "dpl_namei E p i (world s) = ((rc, ty, ino), w)" by (metis prod.collapse)
  have w: "obs Z w = obs Z (world s)" "V w = V (world s)" "rc = DPL_SUCCESS" "inos (V w) ino = Some p"
    using spec [OF store_calls(4) [OF laws, unfolded calm_def moves_def], of "world s" p i] assms(3) by (simp_all add: c)
  have "namei_attempt E p i False x s = Ret (DPL_SUCCESS, (ty, ino), s\<lparr>world := w\<rparr>)"
    using assms(2) by (simp add: namei_attempt_def plain_def call_def c w(3) log_debug_def)
  from namei_r.success [OF this] show ?thesis using assms(4) [OF w(1,2,4)] by simp
qed

lemma rets_head_all:
  assumes laws: "site_laws E Z V" and "inos (V (world s)) ino = Some p" "objects (V (world s)) p \<noteq> None"
    and "\<And>w h. obs Z w = obs Z (world s) \<Longrightarrow> V w = V (world s) \<Longrightarrow>
      Q (DPL_SUCCESS, nxt s, s\<lparr>dicts := (dicts s)(nxt s \<mapsto> h), nxt := Suc (nxt s), world := w\<rparr>)"
  shows "rets (dfs_head_all_timeout E ino NULL s) Q"
proof -
  obtain rc d w where c: "dpl_head_all E ino (world s) = ((rc, d), w)" by (metis prod.collapse)
  have w: "obs Z w = obs Z (world s)" "V w = V (world s)" "rc = DPL_SUCCESS" "d \<noteq> None"
    using spec [OF store_calls(5) [OF laws, unfolded calm_def moves_def], of "world s" ino] assms(2,3) by (auto simp: c)
  then obtain h where d: "d = Some h" by auto
  have "plain_dict (dpl_head_all E ino) NULL s =
      Ret (DPL_SUCCESS, nxt s, s\<lparr>dicts := (dicts s)(nxt s \<mapsto> h), nxt := Suc (nxt s), world := w\<rparr>)"
    by (simp add: plain_dict_def call_def c w(3) d dict_store_def state_order)
  from head_all_r.success [OF this] show ?thesis using assms(4) [OF w(1,2)] by simp
qed

lemma rets_download_headers:
  assumes laws: "site_laws E Z V" and "\<not> log_debug s" "objects (V (world s)) p \<noteq> None"
    and "\<And>w h. obs Z w = obs Z (world s) \<Longrightarrow> V w = V (world s) \<Longrightarrow>
      Q (0, nxt s, s\<lparr>dicts := (dicts s)(nxt s \<mapsto> h), nxt := Suc (nxt s), world := w\<rparr>)"
  shows "rets (download_headers E p s) Q"
  unfolding download_headers_def
  using assms(2,3)
  by (auto intro!: rets_namei [OF laws] rets_head_all [OF laws, where p = p] assms(4))

lemma rets_fetch_metadata:
  assumes laws: "site_laws E Z V"
    and "pes s pe = Some x" "pe \<noteq> NULL" "metadata x = NULL" "dicts s h \<noteq> None" "h \<noteq> NULL"
    and "dicts s md \<noteq> None" "md \<noteq> NULL" "md < nxt s" "h < nxt s"
    and "\<And>w c d. obs Z w = obs Z (world s) \<Longrightarrow> V w = V (world s) \<Longrightarrow>
      Q (True, s\<lparr>pes := (pes s)(pe \<mapsto> x\<lparr>metadata := nxt s\<rparr>), dicts := (dicts s)(md \<mapsto> c, nxt s \<mapsto> d),
        nxt := Suc (nxt s), world := w\<rparr>)"
  shows "rets (fetch_metadata E pe md h s) Q"
  unfolding fetch_metadata_def pentry_set_metadata_def
  using assms(2-10)
  by (auto simp: heap_at state_order check_permissions_def
    intro!: rets_calm [OF store_calls(3) [OF laws]] rets_dict_new [OF laws] rets_calm [OF store_calls(2) [OF laws]] assms(11))

section \<open>Opening and closing\<close>

text \<open>Opening a file that exists, and closing a descriptor.\<close>

lemma rets_open_existing_name:
  assumes "site_laws E Z V" "names (V (world s)) (squeeze p) = Some i" "fl AND O_TRUNC = 0"
    and "\<And>f w. obs Z w = obs Z (world s) \<Longrightarrow> 0 \<le> f \<Longrightarrow> fds (V (world s)) f = None \<Longrightarrow>
      V w = (V (world s))\<lparr>fds := (fds (V (world s)))(f \<mapsto> (i, 0))\<rparr> \<Longrightarrow> rets (k (Inr f) (s\<lparr>world := w\<rparr>)) Q"
  shows "rets (call (s_open E p fl) s k) Q"
  using assms(2,3)
  by (intro rets_moves [OF os_calls(1) [OF assms(1)]])
    (auto simp: opens_def resolves_def fun_upd_idem intro!: assms(4) split: if_splits)

lemma rets_close:
  assumes "site_laws E Z V" "fds (V (world s)) f \<noteq> None"
    and "\<And>w. obs Z w = obs Z (world s) \<Longrightarrow> V w = (V (world s))\<lparr>fds := (fds (V (world s)))(f := None)\<rparr> \<Longrightarrow>
      rets (k (Inr ()) (s\<lparr>world := w\<rparr>)) Q"
  shows "rets (call (s_close E f) s k) Q"
  using assms(2) by (intro rets_moves [OF os_calls(2) [OF assms(1)]]) (auto simp: closes_def intro!: assms(3))

section \<open>Decompression\<close>

text \<open>
  What \<^verbatim>\<open>handle_compression\<close> leaves: a descriptor, and under the name of the cache file a file with the data, to which the name
  with \<^verbatim>\<open>.tmp\<close> does not lead. Nothing of the store changes.
\<close>

definition unpacked :: "string \<Rightarrow> byte list \<Rightarrow> int \<Rightarrow> site \<Rightarrow> site \<Rightarrow> bool" where
  "unpacked local bs g o1 o2 \<longleftrightarrow> fds o2 g \<noteq> None \<and>
     (\<exists>j. names o2 (squeeze local) = Some j \<and> names o2 (squeeze (tmpstr_fit (local @ ''.tmp''))) \<noteq> Some j \<and> files o2 j = bs) \<and>
     objects o2 = objects o1 \<and> signals o2 = signals o1"

lemma del_None [simp]: "(h(a := None)) b = None \<longleftrightarrow> b = a \<or> h b = None"
  by (simp add: fun_upd_apply)

lemma rets_fcloses:
  assumes laws: "site_laws E Z V" and "src \<noteq> dst"
    and "fps (V (world s)) src = Some (i, h, False)" "fps (V (world s)) dst = Some (j, g, True)"
    and "\<And>w. V w = (V (world s))\<lparr>files := (files (V (world s)))(j := written (obs Z (world s)) dst),
      fds := (fds (V (world s)))(h := None, g := None), fps := (fps (V (world s)))(src := None, dst := None)\<rparr> \<Longrightarrow>
      Q (s\<lparr>world := w\<rparr>)"
  shows "rets (fcloses E [src, dst] s) Q"
  using assms(2-4)
  by (auto intro!: rets_fclose [OF laws, where f = src and i = i and g = h and b = False]
    rets_fclose [OF laws, where f = dst and i = j and g = g and b = True] assms(5))

text \<open>From the two streams on.\<close>

lemma rets_unzip_file:
  assumes laws: "site_laws E Z V"
    and "codec Z cs bs" "unread (obs Z (world s)) src = cs" "written (obs Z (world s)) dst = []" "src \<noteq> dst"
    and "length bs < loop_fuel E * CHUNK" "length cs < loop_fuel E * CHUNK"
    and "fps (V (world s)) src = Some (i, h, False)" "fps (V (world s)) dst = Some (j, g, True)"
    and "names (V (world s)) (squeeze uz) = Some j" "squeeze uz \<noteq> squeeze local" "uz = tmpstr_fit (local @ ''.tmp'')"
    and "fds (V (world s)) gfd \<noteq> None" "fds (V (world s)) h \<noteq> None" "fds (V (world s)) g \<noteq> None" "gfd \<noteq> h" "gfd \<noteq> g"
    and "dicts s md = Some c" "md \<noteq> NULL"
    and "\<And>f w c'. unpacked local bs f (V (world s)) (V w) \<Longrightarrow> Q (0, f, s\<lparr>dicts := (dicts s)(md \<mapsto> c'), world := w\<rparr>)"
  shows "rets (unzip E src dst s) (\<lambda>x. rets (case x of (zret, s) \<Rightarrow>
         if zret \<noteq> Z_OK then E1 zret s
         else obind (dict_at md s) (\<lambda>c.
         call (dict_update E c ''compression'' ''none'') s (\<lambda>(rc, c) s.
         obind (dict_set md c s) (\<lambda>s.
         if rc \<noteq> DPL_SUCCESS then E2 s
         else call (s_rename E uz local) s (\<lambda>r s.
         case r of Inl e \<Rightarrow> E3 s
         | Inr u \<Rightarrow>
         call (s_close E gfd) s (\<lambda>r s.
         call (s_open E local O_RDONLY) s (\<lambda>r s.
         case r of Inl e \<Rightarrow> E4 s
         | Inr gfd \<Rightarrow> obind (fcloses E [src, dst] s) (\<lambda>s. Ret (0, gfd, s))))))))) Q)"
proof -
  have ne: "f \<noteq> h" "f \<noteq> g" if "fds (V (world s)) f = None \<or> f = gfd" for f using that assms(14-17) by auto
  show ?thesis
    using assms(2-19)
    by (auto simp: heap_at state_order unpacked_def ne simp del: fcloses.simps
      intro!: rets_unzip [OF laws, where cs = cs and bs = bs] rets_dict_update [OF laws]
      rets_moves [OF os_calls(11) [OF laws]] rets_close [OF laws] rets_open_existing_name [OF laws, where i = j]
      rets_fcloses [OF laws, where i = i and h = h and j = j and g = g] assms(20))
qed

lemma rets_handle_compression:
  assumes laws: "site_laws E Z V"
    and "dicts s md = Some c" "md \<noteq> NULL" "names (V (world s)) (squeeze local) = Some i"
    and "names (V (world s)) (squeeze (tmpstr_fit (local @ ''.tmp''))) \<noteq> Some i" "squeeze (tmpstr_fit (local @ ''.tmp'')) \<noteq> squeeze local"
    and "fds (V (world s)) gfd \<noteq> None" "files (V (world s)) i = cs"
    and "stands_for Z (cs, dict_get E c ''compression'') bs"
    and "length bs < loop_fuel E * CHUNK" "length cs < loop_fuel E * CHUNK"
    and "\<And>f w c'. unpacked local bs f (V (world s)) (V w) \<Longrightarrow> Q (0, f, s\<lparr>dicts := (dicts s)(md \<mapsto> c'), world := w\<rparr>)"
  shows "rets (handle_compression E local gfd md s) Q"
proof (cases "dict_get E c ''compression''")
  case None
  have "s = s\<lparr>dicts := (dicts s)(md \<mapsto> c), world := world s\<rparr>" using assms(2) by (simp add: fun_upd_idem)
  moreover have "unpacked local bs gfd (V (world s)) (V (world s))"
    using assms(4,5,7-9) None by (simp add: unpacked_def stands_for_def)
  ultimately have "Q (0, gfd, s)" using assms(12) by metis
  then show ?thesis using assms(2,3) None by (simp add: handle_compression_def heap_at Let_def)
next
  case (Some m)
  let ?uz = "tmpstr_fit (local @ ''.tmp'')"
  have m: "m = ''zlib''" "codec Z cs bs" using assms(9) Some by (simp_all add: stands_for_def)
  have "\<not> strncmp_eq ''zlib'' ''none'' 4" "strncmp_eq ''zlib'' ''zlib'' 4" by (simp_all add: strncmp_eq_def)
  note facts = Some [unfolded m] this
  show ?thesis
    unfolding handle_compression_def Let_def
    using assms(2,3,4) facts
  proof (auto simp: heap_at simp del: fcloses.simps
      intro!: rets_fopen_r [OF laws, where i = i] rets_fopen_w [OF laws, where m = "''w''"], goal_cases)
    case (1 src h w dst g j w')
    have j: "j \<noteq> i" using resolves_neq [OF 1(13), of "squeeze local" i] 1(10) assms(4,5) by simp
    have ne: "gfd \<noteq> h" "gfd \<noteq> g" using assms(7) 1 by auto
    show ?case
      by (rule rets_unzip_file [OF laws m(2), where i = i and h = h and j = j and g = g and c = c, simplified])
        (use 1 j ne assms in \<open>auto simp: unpacked_def intro!: assms(12)\<close>)
  qed
qed

section \<open>The download\<close>

text \<open>What a download leaves: a descriptor at the start of the cache file, which holds the data.\<close>

definition fetched :: "string \<Rightarrow> byte list \<Rightarrow> int \<Rightarrow> site \<Rightarrow> site \<Rightarrow> bool" where
  "fetched local bs f o1 o2 \<longleftrightarrow> 0 \<le> f \<and> (\<exists>j. names o2 (squeeze local) = Some j \<and> fds o2 f = Some (j, 0) \<and>
       names o2 (squeeze (tmpstr_fit (local @ ''.tmp''))) \<noteq> Some j \<and> files o2 j = bs) \<and>
     objects o2 = objects o1 \<and> signals o2 \<le> signals o1"

lemma rets_fetch_end:
  assumes laws: "site_laws E Z V"
    and "dicts s md = Some c" "md \<noteq> NULL" "names (V (world s)) (squeeze local) = Some i"
    and "names (V (world s)) (squeeze (tmpstr_fit (local @ ''.tmp''))) \<noteq> Some i" "squeeze (tmpstr_fit (local @ ''.tmp'')) \<noteq> squeeze local"
    and "fds (V (world s)) gfd \<noteq> None" "files (V (world s)) i = cs"
    and "stands_for Z (cs, dict_get E c ''compression'') bs"
    and "length bs < loop_fuel E * CHUNK" "length cs < loop_fuel E * CHUNK" "fl AND O_TRUNC = 0"
    and "\<And>f w c'. fetched local bs f (V (world s)) (V w) \<Longrightarrow> Q (f, md, s\<lparr>dicts := (dicts s)(md \<mapsto> c'), world := w\<rparr>)"
  shows "rets (fetch_end E local fl gfd DPL_SUCCESS md s) Q"
proof -
  have tail: "rets (call (s_close E f) (s\<lparr>dicts := (dicts s)(md \<mapsto> c'), world := w\<rparr>) (\<lambda>r s.
          case r of Inl e \<Rightarrow> Ret (-1, md, s)
          | Inr u \<Rightarrow> call (s_open E local fl) s (\<lambda>r s. case r of Inl e \<Rightarrow> Ret (-1, md, s) | Inr f \<Rightarrow> Ret (f, md, s)))) Q"
    if "unpacked local bs f (V (world s)) (V w)" for f w c'
  proof -
    from that obtain j where "names (V w) (squeeze local) = Some j" "files (V w) j = bs"
      "names (V w) (squeeze (tmpstr_fit (local @ ''.tmp''))) \<noteq> Some j" "fds (V w) f \<noteq> None"
      "objects (V w) = objects (V (world s))" "signals (V w) = signals (V (world s))"
      by (auto simp: unpacked_def)
    then show ?thesis
      using assms(12)
      by (auto simp: state_order fetched_def intro!: rets_close [OF laws] rets_open_existing_name [OF laws, where i = j] assms(13))
  qed
  show ?thesis
    unfolding fetch_end_def
    using assms(2-11) tail by (auto intro!: rets_handle_compression [OF laws, where c = c and i = i and cs = cs and bs = bs])
qed

lemma check_encryption_False:
  "dicts s md = Some c \<Longrightarrow> md \<noteq> NULL \<Longrightarrow> cstr_get (encryption_method (cfg s)) = Ret m \<Longrightarrow> check_encryption_flag E md s = Ret False"
  by (simp add: check_encryption_flag_def heap_at Let_def)

lemma rets_fetch_into:
  assumes laws: "site_laws E Z V"
    and "dicts s md = Some c" "md \<noteq> NULL" "nxt s \<noteq> NULL" "names (V (world s)) (squeeze local) = Some i"
    and "names (V (world s)) (squeeze (tmpstr_fit (local @ ''.tmp''))) \<noteq> Some i" "squeeze (tmpstr_fit (local @ ''.tmp'')) \<noteq> squeeze local"
    and "fds (V (world s)) gfd = Some (i, 0)" "files (V (world s)) i = []"
    and "objects (V (world s)) p = Some x" "stands_for Z x bs" "cstr_get (encryption_method (cfg s)) = Ret m"
    and "length bs < loop_fuel E * CHUNK" "signals (V (world s)) + length (fst x) < loop_fuel E" "fl AND O_TRUNC = 0"
    and "\<And>f w c'. fetched local bs f (V (world s)) (V w) \<Longrightarrow>
      Q (f, nxt s, s\<lparr>dicts := (dicts s)(nxt s \<mapsto> c'), nxt := Suc (nxt s), world := w\<rparr>)"
  shows "rets (fetch_into E p local fl gfd md s) Q"
proof -
  let ?o = "V (world s)"
  obtain cs k where x: "x = (cs, k)" by (cases x)
  have cs: "length cs < loop_fuel E * CHUNK" using assms(14) x by (auto simp: CHUNK_def)
  have tail: "rets (get_buffers E gfd bufs (s\<lparr>world := w\<rparr>)) (\<lambda>y. rets (case y of (ok, s) \<Rightarrow>
       (case answer ok of
         (rc, None) \<Rightarrow> fetch_end E local fl gfd rc md s
       | (rc, Some d) \<Rightarrow> (case dict_store d s of (md, s) \<Rightarrow> fetch_end E local fl gfd rc md s))) Q)"
    if a: "V w = ?o" "concat bufs = cs" "answer True = (DPL_SUCCESS, Some d)" "dict_get E d ''compression'' = k" for w bufs answer d
  proof (rule rets_get_buffers [OF laws])
    fix v
    assume "wrote gfd (concat bufs) (V (world (s\<lparr>world := w\<rparr>))) (V v)"
    then have v: "wrote gfd cs ?o (V v)" using a(1,2) by simp
    from wroteE [OF v assms(8)] obtain m where
      m: "m \<le> signals ?o" "V v = ?o\<lparr>files := (files ?o)(i := cs), fds := (fds ?o)(gfd \<mapsto> (i, length cs)), signals := m\<rparr>"
      using assms(9) patch_end [of "[]" cs] by auto
    have "rets (fetch_end E local fl gfd DPL_SUCCESS (nxt s)
        (s\<lparr>dicts := (dicts s)(nxt s \<mapsto> d), nxt := Suc (nxt s), world := v\<rparr>)) Q"
      using assms(4-7,10,11,13,15) cs a(4) x m(1)
      by (intro rets_fetch_end [OF laws, where c = d and i = i and cs = cs and bs = bs])
        (auto simp: m(2) state_order fetched_def intro!: assms(16) elim: order_trans)
    then show "rets (case (True, s\<lparr>world := w, world := v\<rparr>) of (ok, s) \<Rightarrow>
       (case answer ok of
         (rc, None) \<Rightarrow> fetch_end E local fl gfd rc md s
       | (rc, Some d) \<Rightarrow> (case dict_store d s of (md, s) \<Rightarrow> fetch_end E local fl gfd rc md s))) Q"
      by (simp add: a(3) dict_store_def state_order)
  qed (use a assms(8,14) x in auto)
  show ?thesis
    unfolding fetch_into_def check_encryption_False [OF assms(2,3,12)] obind.simps
  proof (rule rets_calm [OF store_calls(6) [OF laws]])
    fix r w
    assume "V w = ?o" "fetches E p ?o r"
    then show "rets ((case r of (bufs, answer) \<Rightarrow> \<lambda>s. obind (get_buffers E gfd bufs s) (\<lambda>(ok, s).
        case answer ok of
          (rc, None) \<Rightarrow> fetch_end E local fl gfd rc md s
        | (rc, Some d) \<Rightarrow> (case dict_store d s of (md, s) \<Rightarrow> fetch_end E local fl gfd rc md s))) (s\<lparr>world := w\<rparr>)) Q"
      using tail assms(10) unfolding x fetches_def by (cases r) auto
  qed
qed

text \<open>An old file of the cache is removed and a new one takes its name.\<close>

lemma rets_fetch_if_changed:
  assumes laws: "site_laws E Z V"
    and "pes s pe = Some y" "pe \<noteq> NULL" "ondisk y \<noteq> FILE_LOCAL"
    and "dicts s md \<noteq> None" "md \<noteq> NULL" "nxt s \<noteq> NULL" "squeeze (tmpstr_fit (local @ ''.tmp'')) \<noteq> squeeze local"
    and "objects (V (world s)) p = Some x" "stands_for Z x bs" "cstr_get (encryption_method (cfg s)) = Ret m"
    and "length bs < loop_fuel E * CHUNK" "signals (V (world s)) + length (fst x) < loop_fuel E" "fl AND O_TRUNC = 0"
    and "\<And>f w c'. fetched local bs f (V (world s)) (V w) \<Longrightarrow>
      Q (f, nxt s, s\<lparr>dicts := (dicts s)(nxt s \<mapsto> c'), nxt := Suc (nxt s), world := w\<rparr>)"
  shows "rets (fetch_if_changed E pe p local fl md h s) Q"
proof -
  let ?o = "V (world s)"
  obtain c where md: "dicts s md = Some c" using assms(5) by auto
  define how :: u32 where "how = O_RDWR OR O_CREAT OR O_TRUNC"
  have how: "how AND O_CREAT \<noteq> 0" "how AND O_TRUNC \<noteq> 0" by (simp_all add: how_def)
  have create: "rets (call (s_open E local how) (s\<lparr>world := w\<rparr>) (\<lambda>r s.
      case r of Inl e \<Rightarrow> Ret (-1, md, s) | Inr gfd \<Rightarrow> fetch_into E p local fl gfd md s)) Q"
    if w: "V w = ?o\<lparr>names := (names ?o)(squeeze local := None)\<rparr>" for w
  proof (rule rets_moves [OF os_calls(1) [OF laws]])
    fix r v
    assume "opens local how (V (world (s\<lparr>world := w\<rparr>))) r (V v)"
    then obtain f i where v: "r = Inr f" "resolves (V w) local i"
      "V v = (V w)\<lparr>names := (names (V w))(squeeze local \<mapsto> i), files := (files (V w))(i := []), fds := (fds (V w))(f \<mapsto> (i, 0))\<rparr>"
      by (auto simp: opens_def w how)
    have "names ?o (squeeze (tmpstr_fit (local @ ''.tmp''))) \<noteq> Some i"
      using v(2) assms(8) by (auto simp: resolves_def w ran_def) (metis fun_upd_other)
    then have "rets (fetch_into E p local fl f md (s\<lparr>world := v\<rparr>)) Q"
      using assms(6-15) md
      by (intro rets_fetch_into [OF laws, where i = i and c = c and x = x and bs = bs and m = m])
        (auto simp: v(3) w state_order fetched_def intro!: assms(15))
    then show "rets (case r of Inl e \<Rightarrow> Ret (-1, md, s\<lparr>world := w, world := v\<rparr>)
        | Inr gfd \<Rightarrow> fetch_into E p local fl gfd md (s\<lparr>world := w, world := v\<rparr>)) Q" using v(1) by simp
  qed
  have gone: "?o = ?o\<lparr>names := (names ?o)(squeeze local := None)\<rparr>" if "names ?o (squeeze local) = None"
    using that by (simp add: fun_upd_idem)
  have digests: "compare_digests E pe h s = Ret (-1, s)"
    using assms(2-4) by (simp add: compare_digests_def entry_ops heap_at)
  have unlinked: "rets (call (s_unlink E local) (s\<lparr>world := w\<rparr>) (\<lambda>_. Ret)) (\<lambda>s. rets (call (s_open E local how) s (\<lambda>r s.
      case r of Inl e \<Rightarrow> Ret (-1, md, s) | Inr gfd \<Rightarrow> fetch_into E p local fl gfd md s)) Q)" if "V w = ?o" for w
    using that create by (auto intro!: rets_moves [OF os_calls(3) [OF laws]])
  have kept: "rets (call (s_open E local how) (s\<lparr>world := w\<rparr>) (\<lambda>r s.
      case r of Inl e \<Rightarrow> Ret (-1, md, s) | Inr gfd \<Rightarrow> fetch_into E p local fl gfd md s)) Q"
    if "V w = ?o" "names ?o (squeeze local) = None" for w
    by (rule create, rule trans [OF that(1) gone [OF that(2)]])
  have choice: "rets (case r of Inl e \<Rightarrow> Ret (s\<lparr>world := w\<rparr>) | Inr u \<Rightarrow> call (s_unlink E local) (s\<lparr>world := w\<rparr>) (\<lambda>_. Ret))
      (\<lambda>s. rets (call (s_open E local how) s (\<lambda>r s.
        case r of Inl e \<Rightarrow> Ret (-1, md, s) | Inr gfd \<Rightarrow> fetch_into E p local fl gfd md s)) Q)"
    if "V w = ?o" "r = Inr () \<longleftrightarrow> names ?o (squeeze local) \<noteq> None" for r :: "errno + unit" and w
    using that unlinked kept by (cases r) auto
  show ?thesis
    unfolding fetch_if_changed_def digests how_def [symmetric]
    by (simp, intro rets_calm [OF os_calls(4) [OF laws]], unfold rets_obind, intro choice) simp_all
qed

lemma rets_get_local_copy:
  assumes laws: "site_laws E Z V"
    and "pes s pe = Some y" "pe \<noteq> NULL" "ondisk y \<noteq> FILE_LOCAL" "metadata y = NULL" "nxt s \<noteq> NULL"
    and conf: "data_conf (cfg s)" "short_path (cfg s) p"
    and "objects (V (world s)) p = Some x" "stands_for Z x bs"
    and "length bs < loop_fuel E * CHUNK" "signals (V (world s)) + length (fst x) < loop_fuel E" "fl AND O_TRUNC = 0"
    and "\<And>f t m. hash t = hash s \<Longrightarrow> pes t = (pes s)(pe \<mapsto> y\<lparr>metadata := m\<rparr>) \<Longrightarrow> cfg t = cfg s \<Longrightarrow> nxt t \<noteq> NULL \<Longrightarrow>
      fetched (cstr_print (cache_dir (cfg s)) @ p) bs f (V (world s)) (V (world t)) \<Longrightarrow> Q (f, t)"
  shows "rets (dfs_get_local_copy E pe p fl s) Q"
proof -
  obtain m where m: "cstr_get (encryption_method (cfg s)) = Ret m" "conf_ready (cfg s)" using data_confD [OF conf(1)] by metis
  have quiet: "\<not> log_debug s" using m(2) by (rule conf_ready_no_debug)
  note c = cache_names [OF conf(2), simplified]
  show ?thesis
    unfolding dfs_get_local_copy_def local_copy_end_def
    using assms(2-6,9-13) quiet m(1)
    by (auto simp: Let_def c heap_at state_order
      intro!: rets_download_headers [OF laws] rets_dict_new [OF laws] rets_fetch_metadata [OF laws, where x = y]
        rets_fetch_if_changed [OF laws, where x = x and bs = bs and m = m and y = "y\<lparr>metadata := Suc (Suc (nxt s))\<rparr>"]
        assms(14) [where m = "Suc (Suc (nxt s))"])
qed

end
