(* ===== verification/Data.thy ===== *)
theory Data
  imports Fetch
begin

text \<open>
  What a file holds, from the handler that writes it to the one that reads it: a file opened for writing starts empty, the
  writes go to the cache, closing it stores the object, and whoever opens the path later reads these bytes.
\<close>

section \<open>Opening\<close>

lemma rets_mkdir_loop:
  assumes laws: "site_laws E Z V"
  shows "\<exists>w. mkdir_loop E d cs s = s\<lparr>world := w\<rparr> \<and> obs Z w = obs Z (world s) \<and> V w = V (world s)"
proof (induction cs arbitrary: d s)
  case Nil
  then show ?case by (intro exI [of _ "world s"]) simp
next
  case (Cons c cs)
  have "obs Z w = obs Z (world s) \<and> V w = V (world s)" if "s_mkdir E d (world s) = (r, w)" for r w
    using spec [OF os_calls(12) [OF laws, unfolded calm_def moves_def], of "world s" d] by (simp add: that)
  then show ?case
    using Cons.IH [of "d @ [c]" "s\<lparr>world := snd (s_mkdir E d (world s))\<rparr>"] Cons.IH [of "d @ [c]" s]
    by (cases "s_mkdir E d (world s)") (auto simp: call_def)
qed

lemma rets_mkdir_tree:
  assumes laws: "site_laws E Z V" and "d \<noteq> []"
    and "\<And>w. obs Z w = obs Z (world s) \<Longrightarrow> V w = V (world s) \<Longrightarrow> Q (s\<lparr>world := w\<rparr>)"
  shows "rets (mkdir_tree E d s) Q"
proof -
  obtain c cs where c: "tmpstr_fit d = c # cs" using assms(2) by (cases "tmpstr_fit d") auto
  obtain w where "mkdir_loop E [c] cs s = s\<lparr>world := w\<rparr>" "obs Z w = obs Z (world s)" "V w = V (world s)"
    using rets_mkdir_loop [OF laws] by blast
  then show ?thesis
    by (auto simp: mkdir_tree_def c intro!: rets_calm [OF os_calls(12) [OF laws]] assms(3))
qed

lemma rets_build_cache_tree:
  assumes laws: "site_laws E Z V" and "short_path (cfg s) p"
    and "\<And>w local. obs Z w = obs Z (world s) \<Longrightarrow> V w = V (world s) \<Longrightarrow> squeeze local = cache_file (cfg s) p \<Longrightarrow>
      Q (Some local, s\<lparr>world := w\<rparr>)"
  shows "rets (build_cache_tree E p s) Q"
proof -
  note c = cache_names [OF assms(2), simplified]
  show ?thesis
    unfolding build_cache_tree_def
    by (auto simp: Let_def c dirname_not_Nil split: sum.split
      intro!: rets_calm [OF os_calls(14) [OF laws]] rets_calm [OF os_calls(13) [OF laws]] rets_mkdir_tree [OF laws] assms(3))
qed

text \<open>The entry that \<^verbatim>\<open>dfs_open\<close> works on: the one of the table, or a new one.\<close>

definition fresh_entry :: "string \<Rightarrow> pentry \<Rightarrow> bool" where
  "fresh_entry p x \<longleftrightarrow> fd x = -1 \<and> path x = Some p \<and> refcount x = 0 \<and> \<not> mutex x \<and> \<not> exclude x \<and> ondisk x = FILE_UNSET \<and>
     metadata x = NULL"

lemma rets_pentry_inits:
  assumes laws: "site_laws E Z V"
  shows "\<exists>w. pentry_inits n E s = (True, s\<lparr>world := w\<rparr>) \<and> obs Z w = obs Z (world s) \<and> V w = V (world s)"
proof (induction n arbitrary: s)
  case 0
  then show ?case by (intro exI [of _ "world s"]) simp
next
  case (Suc n)
  obtain rc w where c: "init_rc E (world s) = (rc, w)" by (metis prod.collapse)
  have "rc = 0" "obs Z w = obs Z (world s)" "V w = V (world s)"
    using spec [OF os_calls(15) [OF laws, unfolded calm_def moves_def], of "world s"] by (simp_all add: c)
  then show ?case using Suc [of "s\<lparr>world := w\<rparr>"] by (auto simp: call_def c)
qed

lemma rets_pentry_new:
  assumes laws: "site_laws E Z V"
    and "\<And>w x. obs Z w = obs Z (world s) \<Longrightarrow> V w = V (world s) \<Longrightarrow> fresh_entry p (x\<lparr>path := Some p\<rparr>) \<Longrightarrow>
      Q (nxt s, s\<lparr>pes := (pes s)(nxt s \<mapsto> x), nxt := Suc (nxt s), world := w\<rparr>)"
  shows "rets (pentry_new E s) Q"
  unfolding pentry_new_def
proof (rule rets_calm [OF os_calls(14) [OF laws]])
  fix ok w
  assume w: "obs Z w = obs Z (world s)" "V w = V (world s)" "ok"
  obtain v where v: "pentry_inits 5 E (s\<lparr>world := w\<rparr>) = (True, s\<lparr>world := v\<rparr>)" "obs Z v = obs Z w" "V v = V w"
    using rets_pentry_inits [OF laws, of 5 "s\<lparr>world := w\<rparr>"] by auto
  show "rets (if \<not> ok then Ret (NULL, s\<lparr>world := w\<rparr>)
    else case pentry_inits 5 E (s\<lparr>world := w\<rparr>) of (ok, s) \<Rightarrow>
      if \<not> ok then Stuck UninitUse
      else let pe = (junk E (world s)) \<lparr>refcount := 0, mutex := False, md_mutex := False,
               metadata := NULL, ondisk := FILE_UNSET, fd := -1, dirent := [], path := None,
               exclude := False, flag := FLAG_DIRTY\<rparr>
           in Ret (nxt s, s\<lparr>pes := (pes s)(nxt s \<mapsto> pe), nxt := Suc (nxt s)\<rparr>)) Q"
    using w v by (auto simp: Let_def state_order fresh_entry_def intro!: assms(2))
qed

lemma rets_populate_hash:
  assumes laws: "site_laws E Z V" and "g_hash_table_lookup p s = NULL" "nxt s \<noteq> NULL" "heap_inv s"
    and "\<And>w x. obs Z w = obs Z (world s) \<Longrightarrow> V w = V (world s) \<Longrightarrow> fresh_entry p x \<Longrightarrow>
      Q (0, nxt s, s\<lparr>hash := AList.update p (nxt s) (hash s), pes := (pes s)(nxt s \<mapsto> x), nxt := Suc (nxt s), world := w\<rparr>)"
  shows "rets (populate_hash E p s) Q"
proof -
  have none: "map_of (hash s) p = None"
    using assms(4) by (cases rule: lookup_cases [where k = p]) (use assms(2) in \<open>auto simp: view_simps\<close>)
  show ?thesis
    unfolding populate_hash_def pentry_set_path_def
    using assms(3) none
    by (auto simp: entry_ops heap_at state_order g_hash_table_insert_def fresh_entry_def
      intro!: rets_pentry_new [OF laws, where p = p] rets_calm [OF os_calls(14) [OF laws]] assms(5))
qed

section \<open>Opening for writing\<close>

text \<open>A path that can be opened for writing at once: it has no entry, or one that nobody has locked and that is not excluded.\<close>

definition idle :: "string \<Rightarrow> ('w, 'd) state \<Rightarrow> bool" where
  "idle p s \<longleftrightarrow> (case map_of (hash s) p of None \<Rightarrow> True
     | Some a \<Rightarrow> (case pes s a of None \<Rightarrow> False | Some x \<Rightarrow> \<not> mutex x \<and> \<not> exclude x))"

text \<open>
  An open file: the table leads to its entry, whose descriptor is at the start of the inode that has the name of the cache file, and no
  other name that the upload uses leads to it.
\<close>

definition opened :: "('w \<Rightarrow> site) \<Rightarrow> string \<Rightarrow> addr \<Rightarrow> nat \<Rightarrow> ('w, 'd) state \<Rightarrow> bool" where
  "opened V p a i s \<longleftrightarrow> a \<noteq> NULL \<and> nxt s \<noteq> NULL \<and> map_of (hash s) p = Some a \<and>
     (\<exists>x n. pes s a = Some x \<and> refcount x = Suc n \<and> \<not> exclude x \<and> 0 \<le> fd x \<and> fds (V (world s)) (fd x) = Some (i, 0)) \<and>
     names (V (world s)) (cache_file (cfg s) p) = Some i \<and> names (V (world s)) (cache_file (cfg s) p @ ''.tmp'') \<noteq> Some i"

text \<open>The name with \<^verbatim>\<open>.tmp\<close> is not another name of the same file.\<close>

definition apart :: "conf \<Rightarrow> string \<Rightarrow> site \<Rightarrow> bool" where
  "apart c p o1 \<longleftrightarrow> (\<forall>i. names o1 (cache_file c p) = Some i \<longrightarrow> names o1 (cache_file c p @ ''.tmp'') \<noteq> Some i)"

lemma rets_open_lookup:
  assumes laws: "site_laws E Z V" and "heap_inv s" "idle p s"
    and "\<And>t a x. obs Z (world t) = obs Z (world s) \<Longrightarrow> V (world t) = V (world s) \<Longrightarrow> cfg t = cfg s \<Longrightarrow> a \<noteq> NULL \<Longrightarrow>
      nxt t \<noteq> NULL \<Longrightarrow> pes t a = Some x \<Longrightarrow> \<not> mutex x \<Longrightarrow> \<not> exclude x \<Longrightarrow>
      map_of (hash t) p = Some a \<Longrightarrow> (map_of (hash s) p = None \<Longrightarrow> fresh_entry p x) \<Longrightarrow> Q (0, a, t)"
  shows "rets (open_lookup E p s) Q"
proof -
  have n: "nxt s \<noteq> NULL" using nxt_fresh [OF assms(2)] by blast
  from assms(2) show ?thesis
  proof (cases rule: lookup_cases [where k = p])
    case 1
    then show ?thesis
      using n assms(2) by (auto simp: open_lookup_def fresh_entry_def update_conv' intro!: rets_populate_hash [OF laws] assms(4))
  next
    case (2 a)
    then obtain x where "pes s a = Some x" "\<not> mutex x" "\<not> exclude x"
      using assms(3) by (auto simp: idle_def view_simps split: option.splits)
    then show ?thesis
      using 2 n assms(4) [of s a x] by (simp add: open_lookup_def entry_ops heap_at view_simps)
  qed
qed

lemma rets_open_creat:
  assumes laws: "site_laws E Z V"
    and "pes s a = Some x" "a \<noteq> NULL" "nxt s \<noteq> NULL" "map_of (hash s) p = Some a" "refcount x = Suc n" "\<not> exclude x" "short_path (cfg s) p" "apart (cfg s) p (V (world s))"
    and "fl AND O_CREAT \<noteq> 0" "fl AND O_TRUNC \<noteq> 0"
    and "\<And>t i y. opened V p a i t \<Longrightarrow> cfg t = cfg s \<Longrightarrow> files (V (world t)) i = [] \<Longrightarrow> pes t a = Some y \<Longrightarrow>
      objects (V (world t)) = objects (V (world s)) \<Longrightarrow> signals (V (world t)) = signals (V (world s)) \<Longrightarrow> Q (0, t)"
  shows "rets (open_creat E p a fl s) Q"
proof -
  let ?o = "V (world s)"
  have tail: "rets (case r of Inl e \<Rightarrow> Ret (-1, s\<lparr>world := w, world := v\<rparr>)
      | Inr f \<Rightarrow> obind (pentry_set_fd a f (s\<lparr>world := w, world := v\<rparr>)) (\<lambda>s. obind (pentry_set_flag a FLAG_DIRTY s) (\<lambda>s. Ret (0, s)))) Q"
    if op: "squeeze local = cache_file (cfg s) p" "opens local fl ?o r (V v)" for local r v w
  proof -
    obtain f i where v: "r = Inr f" "0 \<le> f" "resolves ?o local i"
      "V v = ?o\<lparr>names := (names ?o)(cache_file (cfg s) p \<mapsto> i), files := (files ?o)(i := []), fds := (fds ?o)(f \<mapsto> (i, 0))\<rparr>"
      using op assms(10,11) by (auto simp: opens_def)
    have "names ?o (cache_file (cfg s) p @ ''.tmp'') \<noteq> Some i"
      using v(3) assms(9) op(1) by (auto simp: resolves_def apart_def ran_def split: option.splits)
    then show ?thesis
      using assms(2-7) by (auto simp: v entry_ops heap_at opened_def intro!: assms(12))
  qed
  show ?thesis
    unfolding open_creat_def
    using tail assms(8) by (auto intro!: rets_build_cache_tree [OF laws] rets_moves [OF os_calls(1) [OF laws]])
qed

lemma opened_update:
  assumes "opened V p a i t" "pes t a = Some y"
  shows "opened V p a i (t\<lparr>pes := (pes t)(a \<mapsto> y\<lparr>ondisk := d\<rparr>)\<rparr>)"
    "opened V p a i (t\<lparr>pes := (pes t)(a \<mapsto> y\<lparr>flag := g, ondisk := d\<rparr>)\<rparr>)"
  using assms by (auto simp: opened_def)

text \<open>
  Opening for writing truncates the file of the cache, whatever the store holds: nothing is fetched.
\<close>

lemma rets_open_write:
  assumes laws: "site_laws E Z V" and "heap_inv s" "idle p s" "data_conf (cfg s)" "short_path (cfg s) p" "apart (cfg s) p (V (world s))"
    and "get_mode_from_flags flags = MODE_CREAT"
    and "\<And>t a i. opened V p a i t \<Longrightarrow> cfg t = cfg s \<Longrightarrow> files (V (world t)) i = [] \<Longrightarrow>
      objects (V (world t)) = objects (V (world s)) \<Longrightarrow> signals (V (world t)) = signals (V (world s)) \<Longrightarrow> Q (0, a, t)"
  shows "rets (dfs_open E p flags s) Q"
proof -
  have quiet: "\<not> log_debug t" if "cfg t = cfg s" for t :: "('a, 'b) state"
    using assms(4) that by (simp add: data_conf_def conf_ready_def log_debug_def)
  have entry: "rets (open_entry E p flags a t) Q"
    if "V (world t) = V (world s)" "cfg t = cfg s" "a \<noteq> NULL" "nxt t \<noteq> NULL" "map_of (hash t) p = Some a" "pes t a = Some x" "\<not> mutex x"
      "\<not> exclude x" for t a x
    unfolding open_entry_def
    using that assms(5-7)
    by (auto simp: Let_def entry_ops heap_at log_fd_def quiet
      intro!: rets_lock [OF laws, where p = "x\<lparr>refcount := Suc (refcount x)\<rparr>"]
        rets_open_creat [OF laws, where x = "x\<lparr>refcount := Suc (refcount x), mutex := True\<rparr>" and n = "refcount x"]
        assms(8) opened_update)
  show ?thesis
    unfolding dfs_open_def
    using assms(2,3) entry quiet
    by (auto simp: log_flags_def intro!: rets_open_lookup [OF laws])
qed

section \<open>Reading and writing\<close>

lemma opened_write:
  assumes "opened V p a i s" "V w = (V (world s))\<lparr>files := fl\<rparr>"
  shows "opened V p a i (s\<lparr>world := w\<rparr>)"
  using assms by (simp add: opened_def)

lemma rets_dfs_write:
  assumes laws: "site_laws E Z V" and "opened V p a i s" "0 \<le> off"
    and "\<And>w. V w = (V (world s))\<lparr>files := (files (V (world s)))(i := patch (files (V (world s)) i) (nat off) bs)\<rparr> \<Longrightarrow>
      Q (int (length bs), s\<lparr>world := w\<rparr>)"
  shows "rets (dfs_write E a bs off s) Q"
  unfolding dfs_write_def
  using assms(2,3) by (auto simp: opened_def entry_ops heap_at pwrites_def intro!: rets_moves [OF os_calls(9) [OF laws]] assms(4))

text \<open>Any number of writes, and the file they make of an empty one.\<close>

fun dfs_writes ::
  "('w, 'd) env \<Rightarrow> addr \<Rightarrow> (byte list \<times> int) list \<Rightarrow> ('w, 'd) state \<Rightarrow> ('w, 'd) state outcome"
where
  "dfs_writes E fh [] s = Ret s"
| "dfs_writes E fh ((bs, off) # ws) s = obind (dfs_write E fh bs off s) (\<lambda>(r, s). dfs_writes E fh ws s)"

definition patches :: "(byte list \<times> int) list \<Rightarrow> byte list \<Rightarrow> byte list" where
  "patches ws bs = fold (\<lambda>(new, off) bs. patch bs (nat off) new) ws bs"

lemma rets_dfs_writes:
  assumes laws: "site_laws E Z V" and "opened V p a i s" "\<forall>(bs, off)\<in>set ws. 0 \<le> off"
    and "\<And>w. V w = (V (world s))\<lparr>files := (files (V (world s)))(i := patches ws (files (V (world s)) i))\<rparr> \<Longrightarrow> Q (s\<lparr>world := w\<rparr>)"
  shows "rets (dfs_writes E a ws s) Q"
  using assms(2-)
proof (induction ws arbitrary: s)
  case Nil
  then show ?case using Nil(3) [of "world s"] by (simp add: patches_def fun_upd_idem)
next
  case (Cons b ws)
  obtain bs off where b: "b = (bs, off)" by (cases b)
  have off: "0 \<le> off" using Cons.prems(2) b by simp
  show ?case
    unfolding b dfs_writes.simps rets_obind
  proof (rule rets_dfs_write [OF laws Cons.prems(1) off], simp)
    fix w
    assume w: "V w = (V (world s))\<lparr>files := (files (V (world s)))(i := patch (files (V (world s)) i) (nat off) bs)\<rparr>"
    show "rets (dfs_writes E a ws (s\<lparr>world := w\<rparr>)) Q"
    proof (rule Cons.IH)
      show "opened V p a i (s\<lparr>world := w\<rparr>)" using Cons.prems(1) w by (rule opened_write)
    qed (use Cons.prems(2,3) w in \<open>auto simp: patches_def b\<close>)
  qed
qed

text \<open>A handle whose file holds given bytes.\<close>

definition reading :: "('w \<Rightarrow> site) \<Rightarrow> addr \<Rightarrow> byte list \<Rightarrow> ('w, 'd) state \<Rightarrow> bool" where
  "reading V a bs s \<longleftrightarrow> a \<noteq> NULL \<and> (\<exists>y j k. pes s a = Some y \<and> 0 \<le> fd y \<and> fds (V (world s)) (fd y) = Some (j, k) \<and>
     files (V (world s)) j = bs)"

lemma rets_dfs_read:
  assumes laws: "site_laws E Z V" and "reading V a bs s" "0 \<le> off"
    and "\<And>w. V w = V (world s) \<Longrightarrow> Q (int (length (take n (drop (nat off) bs))), take n (drop (nat off) bs), s\<lparr>world := w\<rparr>)"
  shows "rets (dfs_read E a n off s) Q"
proof -
  obtain y j k where "a \<noteq> NULL" "pes s a = Some y" "0 \<le> fd y" "fds (V (world s)) (fd y) = Some (j, k)" "files (V (world s)) j = bs"
    using assms(2) by (auto simp: reading_def)
  then show ?thesis
    unfolding dfs_read_def
    using assms(3,4) by (auto simp: entry_ops heap_at preads_def simp del: length_take length_drop
      intro!: rets_calm [OF os_calls(8) [OF laws]])
qed

section \<open>Opening what the store has\<close>

lemma fetched_fails [simp]: "\<not> fetched local bs (-1) o1 o2"
  by (simp add: fetched_def)

lemma fetched_opened:
  assumes "fetched (cstr_print (cache_dir c) @ p) bs f o1 (V (world t))" "short_path c p" "cfg t = c" "a \<noteq> NULL" "nxt t \<noteq> NULL"
    "map_of (hash t) p = Some a" "pes t a = Some x" "fd x = f" "refcount x = Suc n" "\<not> exclude x"
  obtains i where "opened V p a i t" "files (V (world t)) i = bs"
proof -
  note c = cache_names [OF assms(2), simplified]
  obtain j where "names (V (world t)) (cache_file c p) = Some j" "fds (V (world t)) f = Some (j, 0)"
    "names (V (world t)) (cache_file c p @ ''.tmp'') \<noteq> Some j" "files (V (world t)) j = bs" "0 \<le> f"
    using assms(1) by (auto simp: fetched_def c)
  then show thesis using assms(3-) by (intro that [of j]) (auto simp: opened_def)
qed

text \<open>An entry without a descriptor is fetched.\<close>

lemma rets_open_existing:
  assumes laws: "site_laws E Z V" and "pes s a = Some x" "a \<noteq> NULL" "nxt s \<noteq> NULL" "map_of (hash s) p = Some a"
    and "refcount x = Suc n" "\<not> exclude x" "fd x = -1" "metadata x = NULL" "ondisk x \<noteq> FILE_LOCAL"
    and "data_conf (cfg s)" "short_path (cfg s) p" "fl AND O_TRUNC = 0"
    and "objects (V (world s)) p = Some y" "stands_for Z y bs"
    and "length bs < loop_fuel E * CHUNK" "signals (V (world s)) + length (fst y) < loop_fuel E"
    and "\<And>t i z. opened V p a i t \<Longrightarrow> cfg t = cfg s \<Longrightarrow> files (V (world t)) i = bs \<Longrightarrow> pes t a = Some z \<Longrightarrow>
      objects (V (world t)) = objects (V (world s)) \<Longrightarrow> signals (V (world t)) \<le> signals (V (world s)) \<Longrightarrow> Q (0, t)"
  shows "rets (open_existing E p a fl s) Q"
proof -
  have fin: "Q (0, t\<lparr>pes := (pes s)(a \<mapsto> x\<lparr>metadata := m, fd := f\<rparr>)\<rparr>)"
    if t: "hash t = hash s" "pes t = (pes s)(a \<mapsto> x\<lparr>metadata := m\<rparr>)" "cfg t = cfg s" "nxt t \<noteq> NULL"
      "fetched (cstr_print (cache_dir (cfg s)) @ p) bs f (V (world s)) (V (world t))" for f t m
  proof -
    let ?x = "x\<lparr>metadata := m, fd := f\<rparr>"
    let ?t = "t\<lparr>pes := (pes s)(a \<mapsto> ?x)\<rparr>"
    have "fetched (cstr_print (cache_dir (cfg s)) @ p) bs f (V (world s)) (V (world ?t))" "pes ?t a = Some ?x" using t(5) by simp_all
    then obtain i where "opened V p a i ?t" "files (V (world ?t)) i = bs"
      using fetched_opened [of "cfg s" p bs f "V (world s)" V ?t a ?x n] t(1,3,4) assms(3,5-7,12) by auto
    moreover have "objects (V (world t)) = objects (V (world s))" "signals (V (world t)) \<le> signals (V (world s))"
      using t(5) by (simp_all add: fetched_def)
    ultimately show ?thesis using t(3) by (intro assms(18)) simp_all
  qed
  show ?thesis
    unfolding open_existing_def
    using assms(2-17)
    by (auto simp: entry_ops heap_at
      intro!: rets_build_cache_tree [OF laws] rets_get_local_copy [OF laws, where x = y and bs = bs and y = x] fin)
qed

text \<open>A path without an entry, opened for reading or to append. A reader takes no lock.\<close>

lemma rets_open_fetch:
  assumes laws: "site_laws E Z V" and "heap_inv s" "map_of (hash s) p = None" "data_conf (cfg s)" "short_path (cfg s) p"
    and "get_mode_from_flags flags \<in> {MODE_RDONLY, MODE_RDWR}"
    and "objects (V (world s)) p = Some y" "stands_for Z y bs"
    and "length bs < loop_fuel E * CHUNK" "signals (V (world s)) + length (fst y) < loop_fuel E"
    and "\<And>t a i. opened V p a i t \<Longrightarrow> cfg t = cfg s \<Longrightarrow> files (V (world t)) i = bs \<Longrightarrow>
      objects (V (world t)) = objects (V (world s)) \<Longrightarrow> signals (V (world t)) \<le> signals (V (world s)) \<Longrightarrow> Q (0, a, t)"
  shows "rets (dfs_open E p flags s) Q"
proof -
  have quiet: "\<not> log_debug t" if "cfg t = cfg s" for t :: "('a, 'b) state"
    using assms(4) that by (simp add: data_conf_def conf_ready_def log_debug_def)
  have entry: "rets (open_entry E p flags a t) Q"
    if t: "V (world t) = V (world s)" "cfg t = cfg s" "a \<noteq> NULL" "nxt t \<noteq> NULL" "map_of (hash t) p = Some a" "pes t a = Some x"
      "fresh_entry p x" for t a x
  proof -
    note r = assms(4,5,7-10) t(1-6) t(7) [unfolded fresh_entry_def]
    let ?x = "x\<lparr>refcount := Suc (refcount x)\<rparr>"
    consider "get_mode_from_flags flags = MODE_RDONLY" | "get_mode_from_flags flags = MODE_RDWR" using assms(6) by auto
    then show ?thesis
    proof cases
      case 1
      then show ?thesis
        unfolding open_entry_def
        using r
        by (auto simp: Let_def entry_ops heap_at log_fd_def quiet open_rdonly_def
          intro!: rets_open_existing [OF laws, where x = ?x and n = "refcount x" and y = y and bs = bs] assms(11) opened_update)
    next
      case 2
      then show ?thesis
        unfolding open_entry_def
        using r
        by (auto simp: Let_def entry_ops heap_at log_fd_def quiet open_rdwr_def open_wronly_def
          intro!: rets_lock [OF laws, where p = ?x]
            rets_open_existing [OF laws, where x = "?x\<lparr>mutex := True\<rparr>" and n = "refcount x" and y = y and bs = bs]
            assms(11) opened_update) (assumption, rule refl)
    qed
  qed
  show ?thesis
    unfolding dfs_open_def
    using assms(2,3) entry quiet
    by (auto simp: log_flags_def idle_def intro!: rets_open_lookup [OF laws])
qed

text \<open>A path whose entry has a descriptor, opened for reading: the store is not asked.\<close>

lemma rets_reopen:
  assumes laws: "site_laws E Z V" and "map_of (hash s) p = Some a" "a \<noteq> NULL" "pes s a = Some x" "0 \<le> fd x"
    and "fds (V (world s)) (fd x) = Some (i, k)" "data_conf (cfg s)" "get_mode_from_flags flags = MODE_RDONLY"
    and "\<And>t. reading V a (files (V (world s)) i) t \<Longrightarrow> Q (0, a, t)"
  shows "rets (dfs_open E p flags s) Q"
proof -
  have quiet: "\<not> log_debug t" if "cfg t = cfg s" for t :: "('a, 'b) state"
    using assms(7) that by (simp add: data_conf_def conf_ready_def log_debug_def)
  show ?thesis
    unfolding dfs_open_def open_lookup_def open_entry_def open_existing_def
    using assms(2-8) quiet
    by (auto simp: Let_def log_flags_def log_fd_def entry_ops heap_at g_hash_table_lookup_def open_rdonly_def open_existing_def
      reading_def intro!: assms(9))
qed

end
