(* ===== verification/Sample_Site.thy ===== *)
theory Sample_Site
  imports Site
begin

text \<open>
  A site that follows the laws of \<open>Site\<close>: a small operating system and store over association lists, with the codec of
  \<open>Zip_Data\<close>. The theorems of \<open>Data\<close> are applied on it.
\<close>

section \<open>The world\<close>

record toy =
  t_disk :: disk
  t_names :: "(string \<times> nat) list"
  t_files :: "nat \<Rightarrow> byte list"
  t_fds :: "(int \<times> nat \<times> nat) list"
  t_fps :: "(int \<times> nat \<times> int \<times> bool) list"
  t_objects :: "string \<Rightarrow> (byte list \<times> string option) option"
  t_uploads :: "(nat \<times> string \<times> string option \<times> nat \<times> byte list) list"
  t_signals :: nat

definition toy_site :: "toy \<Rightarrow> site" where
  "toy_site w = \<lparr>names = map_of (t_names w), files = t_files w, fds = map_of (t_fds w), fps = map_of (t_fps w), inos = Some,
     objects = t_objects w, uploads = map_of (t_uploads w), signals = t_signals w\<rparr>"

lemma toy_site_simps [simp]:
  "names (toy_site w) = map_of (t_names w)" "files (toy_site w) = t_files w" "fds (toy_site w) = map_of (t_fds w)"
  "fps (toy_site w) = map_of (t_fps w)" "inos (toy_site w) = Some" "objects (toy_site w) = t_objects w"
  "uploads (toy_site w) = map_of (t_uploads w)" "signals (toy_site w) = t_signals w"
  by (simp_all add: toy_site_def)

text \<open>Numbers that no list has.\<close>

definition fresh_fd :: "toy \<Rightarrow> int" where
  "fresh_fd w = 3 + int (sum_list (map (nat \<circ> fst) (t_fds w)))"

definition fresh_fp :: "toy \<Rightarrow> int" where
  "fresh_fp w = 3 + int (sum_list (map (nat \<circ> fst) (t_fps w)))"

definition fresh_ino :: "toy \<Rightarrow> nat" where
  "fresh_ino w = Suc (sum_list (map snd (t_names w)) + sum_list (map (fst \<circ> snd) (t_fds w)))"

definition fresh_up :: "toy \<Rightarrow> nat" where
  "fresh_up w = Suc (sum_list (map fst (t_uploads w)))"

lemma below_sum: "x \<in> set xs \<Longrightarrow> g x \<le> sum_list (map g xs)" for g :: "'a \<Rightarrow> nat"
  by (induction xs) auto

lemma fresh_key:
  assumes "\<And>x. x \<in> set xs \<Longrightarrow> fst x \<noteq> k" shows "map_of xs k = None"
  using assms by (force simp: map_of_eq_None_iff)

lemma fresh_numbers [simp]:
  "map_of (t_fds w) (fresh_fd w) = None" "map_of (t_fps w) (fresh_fp w) = None" "map_of (t_uploads w) (fresh_up w) = None"
  "0 < fresh_fd w" "0 \<le> fresh_fd w"
  "fresh_ino w \<notin> ran (map_of (t_names w))" "map_of (t_fds w) f \<noteq> Some (fresh_ino w, k)"
proof -
  have "fst x \<noteq> fresh_fd w" if "x \<in> set (t_fds w)" for x
    using below_sum [OF that, of "nat \<circ> fst"] by (auto simp: fresh_fd_def)
  then show "map_of (t_fds w) (fresh_fd w) = None" by (rule fresh_key)
  have "fst x \<noteq> fresh_fp w" if "x \<in> set (t_fps w)" for x
    using below_sum [OF that, of "nat \<circ> fst"] by (auto simp: fresh_fp_def)
  then show "map_of (t_fps w) (fresh_fp w) = None" by (rule fresh_key)
  have "fst x \<noteq> fresh_up w" if "x \<in> set (t_uploads w)" for x
    using below_sum [OF that, of fst] by (auto simp: fresh_up_def)
  then show "map_of (t_uploads w) (fresh_up w) = None" by (rule fresh_key)
  show "0 < fresh_fd w" "0 \<le> fresh_fd w" by (simp_all add: fresh_fd_def)
  show "fresh_ino w \<notin> ran (map_of (t_names w))"
  proof
    assume "fresh_ino w \<in> ran (map_of (t_names w))"
    then obtain n where "(n, fresh_ino w) \<in> set (t_names w)" by (auto simp: ran_def dest: map_of_SomeD)
    from below_sum [OF this, of snd] show False by (simp add: fresh_ino_def)
  qed
  show "map_of (t_fds w) f \<noteq> Some (fresh_ino w, k)"
  proof
    assume "map_of (t_fds w) f = Some (fresh_ino w, k)"
    from below_sum [OF map_of_SomeD [OF this], of "fst \<circ> snd"] show False by (simp add: fresh_ino_def)
  qed
qed

section \<open>The calls\<close>

definition toy_ino :: "string \<Rightarrow> toy \<Rightarrow> nat" where
  "toy_ino p w = (case map_of (t_names w) (squeeze p) of Some i \<Rightarrow> i | None \<Rightarrow> fresh_ino w)"

lemma toy_resolves: "resolves (toy_site w) p (toy_ino p w)"
  by (simp add: resolves_def toy_ino_def split: option.split)

definition toy_open :: "string \<Rightarrow> u32 \<Rightarrow> toy \<Rightarrow> (errno + int) \<times> toy" where
  "toy_open p fl w =
     (if fl AND O_CREAT = 0 \<and> map_of (t_names w) (squeeze p) = None then (Inl ENOENT, w)
      else let i = toy_ino p w; f = fresh_fd w in
        (Inr f, w\<lparr>t_names := AList.update (squeeze p) i (t_names w), t_fds := AList.update f (i, 0) (t_fds w),
           t_files := (if fl AND O_TRUNC \<noteq> 0 \<or> map_of (t_names w) (squeeze p) = None then (t_files w)(i := []) else t_files w)\<rparr>))"

definition toy_close :: "int \<Rightarrow> toy \<Rightarrow> (errno + unit) \<times> toy" where
  "toy_close f w = (if map_of (t_fds w) f = None then (Inl EBADF, w) else (Inr (), w\<lparr>t_fds := AList.delete f (t_fds w)\<rparr>))"

text \<open>Reads and writes take at most two bytes at a time.\<close>

definition toy_read :: "int \<Rightarrow> nat \<Rightarrow> toy \<Rightarrow> (errno + byte list) \<times> toy" where
  "toy_read f n w = (case map_of (t_fds w) f of None \<Rightarrow> (Inl EBADF, w)
     | Some (i, k) \<Rightarrow> let bs = drop k (t_files w i); m = min (min n 2) (length bs) in
         (Inr (take m bs), w\<lparr>t_fds := AList.update f (i, k + m) (t_fds w)\<rparr>))"

definition toy_write :: "int \<Rightarrow> byte list \<Rightarrow> toy \<Rightarrow> (errno + nat) \<times> toy" where
  "toy_write f bs w = (case map_of (t_fds w) f of None \<Rightarrow> (Inl EBADF, w)
     | Some (i, k) \<Rightarrow>
         if 0 < t_signals w then (Inl EINTR, w\<lparr>t_signals := t_signals w - 1\<rparr>)
         else let m = min 2 (length bs) in
           (Inr m, w\<lparr>t_files := (t_files w)(i := patch (t_files w i) k (take m bs)), t_fds := AList.update f (i, k + m) (t_fds w)\<rparr>))"

definition toy_at :: "int \<Rightarrow> toy \<Rightarrow> (errno + nat)" where
  "toy_at f w = (case map_of (t_fds w) f of None \<Rightarrow> Inl EBADF | Some (i, k) \<Rightarrow> Inr i)"

definition toy_rewind :: "int \<Rightarrow> toy \<Rightarrow> (errno + unit) \<times> toy" where
  "toy_rewind f w = (case toy_at f w of Inl e \<Rightarrow> (Inl e, w) | Inr i \<Rightarrow> (Inr (), w\<lparr>t_fds := AList.update f (i, 0) (t_fds w)\<rparr>))"

definition toy_pwrite :: "int \<Rightarrow> byte list \<Rightarrow> int \<Rightarrow> toy \<Rightarrow> (errno + nat) \<times> toy" where
  "toy_pwrite f bs off w = (case toy_at f w of Inl e \<Rightarrow> (Inl e, w)
     | Inr i \<Rightarrow> (Inr (length bs), w\<lparr>t_files := (t_files w)(i := patch (t_files w i) (nat off) bs)\<rparr>))"

definition toy_rename :: "string \<Rightarrow> string \<Rightarrow> toy \<Rightarrow> (errno + unit) \<times> toy" where
  "toy_rename p q w = (case map_of (t_names w) (squeeze p) of None \<Rightarrow> (Inl ENOENT, w)
     | Some i \<Rightarrow> (Inr (), w\<lparr>t_names := AList.update (squeeze q) i (AList.delete (squeeze p) (t_names w))\<rparr>))"

definition toy_fopen :: "string \<Rightarrow> string \<Rightarrow> toy \<Rightarrow> (errno + int) \<times> toy" where
  "toy_fopen p m w =
     (let i = toy_ino p w; f = fresh_fp w; g = fresh_fd w in
      if m = ''r'' then
        (Inr f, w\<lparr>t_fds := AList.update g (i, 0) (t_fds w), t_fps := AList.update f (i, g, False) (t_fps w),
           t_disk := (t_disk w)\<lparr>unread := (unread (t_disk w))(f := t_files w i)\<rparr>\<rparr>)
      else (Inr f, w\<lparr>t_names := AList.update (squeeze p) i (t_names w), t_files := (t_files w)(i := []),
           t_fds := AList.update g (i, 0) (t_fds w), t_fps := AList.update f (i, g, True) (t_fps w),
           t_disk := (t_disk w)\<lparr>written := (written (t_disk w))(f := [])\<rparr>\<rparr>))"

definition toy_fileno :: "int \<Rightarrow> toy \<Rightarrow> (errno + int) \<times> toy" where
  "toy_fileno f w = (case map_of (t_fps w) f of None \<Rightarrow> (Inl EBADF, w)
     | Some (i, g, b) \<Rightarrow> let bs = written (t_disk w) f in
         (Inr g, if b then w\<lparr>t_files := (t_files w)(i := bs), t_fds := AList.update g (i, length bs) (t_fds w)\<rparr> else w))"

definition toy_fclose :: "int \<Rightarrow> toy \<Rightarrow> (errno + unit) \<times> toy" where
  "toy_fclose f w = (case map_of (t_fps w) f of None \<Rightarrow> (Inl EBADF, w)
     | Some (i, g, b) \<Rightarrow> (Inr (), w\<lparr>t_files := (if b then (t_files w)(i := written (t_disk w) f) else t_files w),
         t_fds := AList.delete g (t_fds w), t_fps := AList.delete f (t_fps w)\<rparr>))"

definition toy_openread ::
  "string \<Rightarrow> bool \<Rightarrow> toy \<Rightarrow> (byte list list \<times> (bool \<Rightarrow> dpl_status \<times> sample_dict option)) \<times> toy"
where
  "toy_openread p enc w = (case t_objects w p of None \<Rightarrow> (([], \<lambda>ok. (DPL_ENOENT, None)), w)
     | Some (bs, c) \<Rightarrow> (([take 1 bs, drop 1 bs], \<lambda>ok. (if ok then DPL_SUCCESS else DPL_FAILURE,
         Some (case c of None \<Rightarrow> [] | Some m \<Rightarrow> [(''compression'', m)]))), w))"

definition toy_openwrite :: "string \<Rightarrow> bool \<Rightarrow> sample_dict \<Rightarrow> u64 \<Rightarrow> toy \<Rightarrow> (dpl_status \<times> nat) \<times> toy" where
  "toy_openwrite p enc d n w = (let v = fresh_up w in
     ((DPL_SUCCESS, v), w\<lparr>t_uploads := AList.update v (p, map_of d ''compression'', unat n, []) (t_uploads w)\<rparr>))"

definition toy_send :: "nat \<Rightarrow> byte list \<Rightarrow> toy \<Rightarrow> (dpl_status \<times> unit) \<times> toy" where
  "toy_send v bs w = (case map_of (t_uploads w) v of None \<Rightarrow> ((DPL_FAILURE, ()), w)
     | Some (p, c, n, got) \<Rightarrow> ((DPL_SUCCESS, ()), w\<lparr>t_uploads := AList.update v (p, c, n, got @ bs) (t_uploads w)\<rparr>))"

definition toy_finish :: "nat \<Rightarrow> toy \<Rightarrow> (dpl_status \<times> unit) \<times> toy" where
  "toy_finish v w = (case map_of (t_uploads w) v of None \<Rightarrow> ((DPL_FAILURE, ()), w)
     | Some (p, c, n, got) \<Rightarrow> ((if length got = n then DPL_SUCCESS else DPL_FAILURE, ()),
         w\<lparr>t_uploads := AList.delete v (t_uploads w),
           t_objects := (if length got = n then (t_objects w)(p \<mapsto> (got, c)) else t_objects w)\<rparr>))"

text \<open>A call on the streams.\<close>

definition on_disk :: "(disk \<Rightarrow> 'a \<times> disk) \<Rightarrow> toy \<Rightarrow> 'a \<times> toy" where
  "on_disk f w = (case f (t_disk w) of (r, d) \<Rightarrow> (r, w\<lparr>t_disk := d\<rparr>))"

definition site_env :: "(toy, sample_dict) env" where
  "site_env = (still (\<lambda>_ w. ((), w)) DPL_SUCCESS)\<lparr>
     s_open := toy_open, s_close := toy_close,
     s_unlink := \<lambda>p w. (Inr (), w\<lparr>t_names := AList.delete (squeeze p) (t_names w)\<rparr>),
     s_access := \<lambda>p w. (if map_of (t_names w) (squeeze p) = None then Inl ENOENT else Inr (), w),
     s_fstat := \<lambda>f w. (case toy_at f w of Inl e \<Rightarrow> Inl e | Inr i \<Rightarrow> Inr (stat0\<lparr>st_size := of_nat (length (t_files w i))\<rparr>), w),
     s_read := toy_read, s_write := toy_write,
     s_pread := \<lambda>f n off w. (case toy_at f w of Inl e \<Rightarrow> Inl e | Inr i \<Rightarrow> Inr (take n (drop (nat off) (t_files w i))), w),
     s_pwrite := toy_pwrite, s_rewind := toy_rewind, s_rename := toy_rename,
     s_fopen := toy_fopen, s_fileno := toy_fileno, s_fclose := toy_fclose,
     s_fread := \<lambda>f n. on_disk (s_fread toy_env f n), s_fwrite := \<lambda>f bs. on_disk (s_fwrite toy_env f bs),
     z_init := \<lambda>c l. on_disk (z_init toy_env c l), z_step := \<lambda>z fl inp n. on_disk (z_step toy_env z fl inp n),
     z_end := \<lambda>z. on_disk (z_end toy_env z),
     dpl_namei := \<lambda>p i w. ((if t_objects w p = None then DPL_ENOENT else DPL_SUCCESS, DPL_FTYPE_REG, p), w),
     dpl_head_all := \<lambda>p w. (if t_objects w p = None then (DPL_ENOENT, None) else (DPL_SUCCESS, Some []), w),
     dpl_openread := toy_openread, dpl_openwrite := toy_openwrite, dpl_write := toy_send, dpl_close := toy_finish,
     loop_fuel := 100\<rparr>"

definition site_model :: "toy zmodel" where
  "site_model = \<lparr>obs = t_disk, codec = codec toy_model, zbound = zbound toy_model, zvalid = zvalid toy_model\<rparr>"

section \<open>The laws\<close>

lemma site_env_simps [simp]:
  "s_open site_env = toy_open" "s_close site_env = toy_close"
  "s_unlink site_env = (\<lambda>p w. (Inr (), w\<lparr>t_names := AList.delete (squeeze p) (t_names w)\<rparr>))"
  "s_access site_env = (\<lambda>p w. (if map_of (t_names w) (squeeze p) = None then Inl ENOENT else Inr (), w))"
  "s_fstat site_env = (\<lambda>f w. (case toy_at f w of Inl e \<Rightarrow> Inl e | Inr i \<Rightarrow> Inr (stat0\<lparr>st_size := of_nat (length (t_files w i))\<rparr>), w))"
  "s_read site_env = toy_read" "s_write site_env = toy_write"
  "s_pread site_env = (\<lambda>f n off w. (case toy_at f w of Inl e \<Rightarrow> Inl e | Inr i \<Rightarrow> Inr (take n (drop (nat off) (t_files w i))), w))"
  "s_pwrite site_env = toy_pwrite" "s_rewind site_env = toy_rewind" "s_rename site_env = toy_rename"
  "s_fopen site_env = toy_fopen" "s_fileno site_env = toy_fileno" "s_fclose site_env = toy_fclose"
  "s_fread site_env = (\<lambda>f n. on_disk (s_fread toy_env f n))" "s_fwrite site_env = (\<lambda>f bs. on_disk (s_fwrite toy_env f bs))"
  "z_init site_env = (\<lambda>c l. on_disk (z_init toy_env c l))"
  "z_step site_env = (\<lambda>z fl inp n. on_disk (z_step toy_env z fl inp n))" "z_end site_env = (\<lambda>z. on_disk (z_end toy_env z))"
  "dpl_namei site_env = (\<lambda>p i w. ((if t_objects w p = None then DPL_ENOENT else DPL_SUCCESS, DPL_FTYPE_REG, p), w))"
  "dpl_head_all site_env = (\<lambda>p w. (if t_objects w p = None then (DPL_ENOENT, None) else (DPL_SUCCESS, Some []), w))"
  "dpl_openread site_env = toy_openread" "dpl_openwrite site_env = toy_openwrite" "dpl_write site_env = toy_send"
  "dpl_close site_env = toy_finish" "loop_fuel site_env = 100" "dict_new site_env = []" "dict_get site_env = (\<lambda>d k. map_of d k)"
  "dict_update site_env = (\<lambda>d k v w. ((DPL_SUCCESS, AList.update k v d), w))"
  "dict_copy site_env = (\<lambda>d e w. ((DPL_SUCCESS, AList.merge d e), w))"
  "dpl_get_metadata_from_headers site_env = (\<lambda>h m w. ((DPL_SUCCESS, m), w))"
  "s_mkdir site_env = (\<lambda>p w. (Inr (), w))" "s_stat site_env = (\<lambda>p w. (Inr (), w))"
  "malloc_ok site_env = (\<lambda>w. (True, w))" "init_rc site_env = (\<lambda>w. (0, w))" "pthread_rc site_env = (\<lambda>w. (0, w))"
  by (simp_all only: site_env_def still_def env.simps sys_ops.simps)

lemma site_model_simps [simp]:
  "obs site_model = t_disk" "codec site_model = codec toy_model" "zbound site_model = zbound toy_model"
  "zvalid site_model = zvalid toy_model"
  by (simp_all add: site_model_def)

lemmas toy_calls = toy_open_def toy_close_def toy_read_def toy_write_def toy_at_def toy_rewind_def toy_pwrite_def toy_rename_def
  toy_fopen_def toy_fileno_def toy_fclose_def toy_openread_def toy_openwrite_def toy_send_def toy_finish_def

lemmas toy_maps = update_conv' delete_conv'

lemma toy_reads: "reads f n (toy_site w) (fst (toy_read f n w)) (toy_site (snd (toy_read f n w)))"
  unfolding reads_def
proof (intro allI impI)
  fix i k
  assume f: "fds (toy_site w) f = Some (i, k)"
  let ?bs = "drop k (t_files w i)"
  let ?m = "min (min n 2) (length ?bs)"
  have "toy_read f n w = (Inr (take ?m ?bs), w\<lparr>t_fds := AList.update f (i, k + ?m) (t_fds w)\<rparr>)"
    using f by (simp add: toy_read_def Let_def)
  moreover have "?m = 0 \<longrightarrow> n = 0 \<or> ?bs = []" by (cases n) auto
  ultimately show "\<exists>bs m. bs = drop k (files (toy_site w) i) \<and> m \<le> min n (length bs) \<and> (m = 0 \<longrightarrow> n = 0 \<or> bs = []) \<and>
      fst (toy_read f n w) = Inr (take m bs) \<and>
      toy_site (snd (toy_read f n w)) = (toy_site w)\<lparr>fds := (fds (toy_site w))(f \<mapsto> (i, k + m))\<rparr>"
    by (intro exI [of _ ?bs] exI [of _ ?m]) (simp add: toy_maps toy_site_def)
qed

lemma toy_os: "os_laws site_env site_model toy_site"
  unfolding os_laws_def
proof (intro conjI allI)
  fix p q :: string and f :: int and fl :: u32 and n off and bs :: "byte list"
  have i: "resolves (toy_site w) p (toy_ino p w)" for w by (rule toy_resolves)
  show "moves site_model toy_site (s_open site_env p fl) (opens p fl)"
    using i by (auto simp: moves_def opens_def toy_calls Let_def toy_maps toy_site_def)
  show "moves site_model toy_site (s_close site_env f) (closes f)"
    by (auto simp: moves_def closes_def toy_calls toy_maps toy_site_def)
  show "moves site_model toy_site (s_unlink site_env p) (\<lambda>o1 r o2. o2 = o1\<lparr>names := (names o1)(squeeze p := None)\<rparr>)"
    by (simp add: moves_def toy_maps toy_site_def)
  show "calm site_model toy_site (s_access site_env p) (\<lambda>o1 r. r = Inr () \<longleftrightarrow> names o1 (squeeze p) \<noteq> None)"
    by (simp add: calm_def moves_def)
  show "calm site_model toy_site (s_fstat site_env f) (\<lambda>o1 r. \<forall>i k. fds o1 f = Some (i, k) \<longrightarrow>
       (\<exists>st. r = Inr st \<and> st_size st = of_nat (length (files o1 i))))"
    by (auto simp: calm_def moves_def toy_calls)
  show "moves site_model toy_site (s_read site_env f n) (reads f n)"
    using toy_reads by (auto simp: moves_def case_prod_unfold) (simp add: toy_read_def Let_def split: option.split)
  show "moves site_model toy_site (s_write site_env f bs) (writes f bs)"
    by (auto simp: moves_def writes_def toy_calls Let_def toy_maps toy_site_def min_def split: option.split)
  show "calm site_model toy_site (s_pread site_env f n off) (preads f n off)"
    by (auto simp: calm_def moves_def preads_def toy_calls)
  show "moves site_model toy_site (s_pwrite site_env f bs off) (pwrites f bs off)"
    by (auto simp: moves_def pwrites_def toy_calls toy_site_def split: option.split)
  show "moves site_model toy_site (s_rewind site_env f) (\<lambda>o1 r o2. \<forall>i k. fds o1 f = Some (i, k) \<longrightarrow>
       o2 = o1\<lparr>fds := (fds o1)(f \<mapsto> (i, 0))\<rparr>)"
    by (auto simp: moves_def toy_calls toy_maps toy_site_def split: option.split)
  show "moves site_model toy_site (s_rename site_env p q) (\<lambda>o1 r o2. \<forall>i. names o1 (squeeze p) = Some i \<longrightarrow>
       squeeze p \<noteq> squeeze q \<longrightarrow> r = Inr () \<and> o2 = o1\<lparr>names := (names o1)(squeeze p := None, squeeze q \<mapsto> i)\<rparr>)"
    by (auto simp: moves_def toy_calls toy_maps toy_site_def split: option.split)
qed (simp_all add: calm_def moves_def)

lemma toy_streams: "stdio_laws site_env site_model toy_site"
proof -
  have obs: "obs toy_model = (\<lambda>d. d)" by (simp add: toy_model_def)
  have defl: "deflate_law site_model = deflate_law toy_model" by (intro ext) (simp add: deflate_law_def)
  have still: "V (snd (on_disk f w)) = toy_site w" if "V = toy_site" for V f w
    using that by (simp add: on_disk_def toy_site_def split: prod.split)
  show ?thesis
    unfolding stdio_laws_def
  proof (intro conjI allI)
    show "files_law site_env site_model"
      by (simp add: files_law_def on_disk_def Let_def toy_env_def)
    show "streams_law site_env site_model"
      using toy_laws(2) unfolding streams_law_def obs defl
      by (elim conjE, intro conjI allI) ((simp add: on_disk_def Let_def case_prod_unfold; fail) | simp only: site_model_simps, blast)+
    fix p m and f :: int and w
    show "case s_fopen site_env p m w of (r, w') \<Rightarrow> opens_stream p m (toy_site w) (obs site_model w) r (toy_site w') (obs site_model w')"
      using toy_resolves [of w p] unfolding opens_stream_def toy_site_def
      by (auto simp: toy_calls Let_def toy_maps
        intro!: exI [of _ "fresh_fp w"] exI [of _ "fresh_fd w"] exI [of _ "toy_ino p w"])
    show "case s_fileno site_env f w of (r, w') \<Rightarrow> obs site_model w' = obs site_model w \<and>
      (\<forall>i g. fps (toy_site w) f = Some (i, g, True) \<longrightarrow> r = Inr g \<and> toy_site w' = (toy_site w)
        \<lparr>files := (files (toy_site w))(i := written (obs site_model w) f),
         fds := (fds (toy_site w))(g \<mapsto> (i, length (written (obs site_model w) f)))\<rparr>)"
      by (auto simp: toy_calls Let_def toy_maps toy_site_def split: option.split)
    show "case s_fclose site_env f w of (r, w') \<Rightarrow> obs site_model w' = obs site_model w \<and>
      (\<forall>i g b. fps (toy_site w) f = Some (i, g, b) \<longrightarrow> toy_site w' = (toy_site w)
        \<lparr>files := (if b then (files (toy_site w))(i := written (obs site_model w) f) else files (toy_site w)),
         fds := (fds (toy_site w))(g := None), fps := (fps (toy_site w))(f := None)\<rparr>)"
      by (auto simp: toy_calls toy_maps toy_site_def split: option.split)
  qed (simp_all add: still)
qed

lemma toy_store: "store_laws site_env site_model toy_site"
  unfolding store_laws_def
proof (intro conjI allI)
  fix v :: nat and p :: string
  show "dict_laws site_env" by (simp add: dict_laws_def update_conv')
  show "calm site_model toy_site (dpl_openread site_env p False) (fetches site_env p)"
    by (auto simp: calm_def moves_def fetches_def toy_calls split: option.split)
  show "moves site_model toy_site (dpl_close site_env v) (uploads_end v)"
    by (auto simp: moves_def uploads_end_def toy_calls toy_maps toy_site_def split: option.split)
qed (auto simp: calm_def moves_def toy_calls toy_maps toy_site_def Let_def split: option.split)

lemma toy_site_laws: "site_laws site_env site_model toy_site"
  by (simp add: site_laws_def toy_os toy_streams toy_store)

end
