(* ===== verification/Sessions.thy ===== *)
theory Sessions
  imports Data Sample_Site
begin

text \<open>
  Whole sessions on a file: opened, written and closed, and later opened and read. What a session stores, what a reader finds, and
  where the handlers lose data: an open for writing that truncates a file which it has not fetched, and a compression
  that works in a file whose name belongs to another path.
\<close>

section \<open>Sessions\<close>

definition write_session ::
  "('w, 'd) env \<Rightarrow> string \<Rightarrow> u32 \<Rightarrow> (byte list \<times> int) list \<Rightarrow> ('w, 'd) state \<Rightarrow> (int \<times> ('w, 'd) state) outcome"
where
  "write_session E p flags ws s =
     obind (dfs_open E p flags s) (\<lambda>(r, fh, s). obind (dfs_writes E fh ws s) (\<lambda>s. dfs_release E p flags fh s))"

definition read_session ::
  "('w, 'd) env \<Rightarrow> string \<Rightarrow> u32 \<Rightarrow> nat \<Rightarrow> int \<Rightarrow> ('w, 'd) state \<Rightarrow> (int \<times> byte list \<times> ('w, 'd) state) outcome"
where
  "read_session E p flags n off s = obind (dfs_open E p flags s) (\<lambda>(r, fh, s). dfs_read E fh n off s)"

text \<open>A mounted file system on which a path can be opened for writing at once.\<close>

definition writer_ready :: "('w \<Rightarrow> site) \<Rightarrow> string \<Rightarrow> ('w, 'd) state \<Rightarrow> bool" where
  "writer_ready V p s \<longleftrightarrow>
     heap_inv s \<and> idle p s \<and> data_conf (cfg s) \<and> short_path (cfg s) p \<and> apart (cfg s) p (V (world s))"

text \<open>
  A mounted file system that has no entry for the path, with the fuel to fetch a file with these bytes, compressed or not. It need not be
  the one that wrote it, and may have another configuration.
\<close>

definition reader_ready :: "('w, 'd) env \<Rightarrow> 'w zmodel \<Rightarrow> ('w \<Rightarrow> site) \<Rightarrow> string \<Rightarrow> byte list \<Rightarrow> ('w, 'd) state \<Rightarrow> bool" where
  "reader_ready E Z V p bs s \<longleftrightarrow> heap_inv s \<and> map_of (hash s) p = None \<and> data_conf (cfg s) \<and> short_path (cfg s) p \<and>
     signals (V (world s)) + length bs < loop_fuel E \<and> signals (V (world s)) + zbound Z (length bs) < loop_fuel E"

lemma stands_for_length:
  "stands_for Z x bs \<Longrightarrow> k + length bs < n \<Longrightarrow> k + zbound Z (length bs) < n \<Longrightarrow> k + length (fst x) < n"
  by (auto simp: stands_for_def split: option.splits)

lemma reader_fuel:
  assumes "reader_ready E Z V p bs s" "stands_for Z x bs"
  shows "length bs < loop_fuel E * CHUNK" "signals (V (world s)) + length (fst x) < loop_fuel E"
proof -
  show "length bs < loop_fuel E * CHUNK" using assms(1) by (simp add: reader_ready_def CHUNK_def)
  show "signals (V (world s)) + length (fst x) < loop_fuel E"
    using assms(1) by (intro stands_for_length [OF assms(2)]) (simp_all add: reader_ready_def)
qed

text \<open>A path whose entry has a descriptor of a cached file with these bytes.\<close>

definition cached :: "('w \<Rightarrow> site) \<Rightarrow> string \<Rightarrow> byte list \<Rightarrow> ('w, 'd) state \<Rightarrow> bool" where
  "cached V p bs s \<longleftrightarrow> (\<exists>a x i k. map_of (hash s) p = Some a \<and> a \<noteq> NULL \<and> pes s a = Some x \<and> 0 \<le> fd x \<and>
     fds (V (world s)) (fd x) = Some (i, k) \<and> files (V (world s)) i = bs)"

lemma rets_release_opened:
  assumes laws: "site_laws E Z V" and "opened V p a i s" "data_conf (cfg s)" "short_path (cfg s) p" "flags AND O_ACCMODE \<noteq> O_RDONLY"
    and "fits E Z (length (files (V (world s)) i))"
    and "\<And>t f. uploaded Z (cfg s) p i f (V (world s)) (V (world t)) \<Longrightarrow> cached V p (files (V (world s)) i) t \<Longrightarrow> cfg t = cfg s \<Longrightarrow>
      Q (0, t)"
  shows "rets (dfs_release E p flags a s) Q"
proof -
  obtain x n where x: "a \<noteq> NULL" "nxt s \<noteq> NULL" "map_of (hash s) p = Some a" "pes s a = Some x" "refcount x = Suc n" "\<not> exclude x"
    "0 \<le> fd x" "fds (V (world s)) (fd x) = Some (i, 0)"
    "names (V (world s)) (cache_file (cfg s) p) = Some i" "names (V (world s)) (cache_file (cfg s) p @ ''.tmp'') \<noteq> Some i"
    using assms(2) unfolding opened_def by blast
  show ?thesis
  proof (rule rets_dfs_release [OF laws x(4,1,2) refl x(7,5,6) assms(3-5) x(8-10) assms(6)])
    fix w
    let ?t = "s\<lparr>pes := (pes s)(a \<mapsto> x\<lparr>refcount := n, flag := FLAG_CLEAN, mutex := False\<rparr>), dicts := (dicts s)(nxt s := None),
      nxt := Suc (nxt s), world := w\<rparr>"
    assume w: "uploaded Z (cfg s) p i (fd x) (V (world s)) (V w)"
    then have "cached V p (files (V (world s)) i) ?t" using x(1,3,7) by (simp add: cached_def uploaded_def)
    with w show "Q (0, ?t)" by (intro assms(7)) simp_all
  qed
qed

text \<open>From whatever a file holds when it has been opened to what its object stands for when it is closed.\<close>

lemma rets_session:
  assumes laws: "site_laws E Z V" and "data_conf (cfg s)" "short_path (cfg s) p"
    and "flags AND O_ACCMODE \<noteq> O_RDONLY" "\<forall>(bs, off)\<in>set ws. 0 \<le> off" "fits E Z (length (patches ws old))"
    and opens: "\<And>Q :: int \<times> addr \<times> ('w, 'd) state \<Rightarrow> bool. (\<And>t a i. opened V p a i t \<Longrightarrow> cfg t = cfg s \<Longrightarrow> files (V (world t)) i = old \<Longrightarrow>
      objects (V (world t)) = objects (V (world s)) \<Longrightarrow> signals (V (world t)) \<le> signals (V (world s)) \<Longrightarrow> Q (0, a, t)) \<Longrightarrow>
      rets (dfs_open E p flags s) Q"
    and "\<And>t x. objects (V (world t)) = (objects (V (world s)))(p \<mapsto> x) \<Longrightarrow> stands_for Z x (patches ws old) \<Longrightarrow>
      signals (V (world t)) \<le> signals (V (world s)) \<Longrightarrow> cached V p (patches ws old) t \<Longrightarrow> cfg t = cfg s \<Longrightarrow> Q (0, t)"
  shows "rets (write_session E p flags ws s) Q"
proof -
  have rest: "rets (dfs_release E p flags a (t\<lparr>world := w\<rparr>)) Q"
    if t: "opened V p a i t" "cfg t = cfg s" "objects (V (world t)) = objects (V (world s))"
      "signals (V (world t)) \<le> signals (V (world s))" and w: "V w = (V (world t))\<lparr>files := (files (V (world t)))(i := patches ws old)\<rparr>"
    for t a i w
  proof (rule rets_release_opened [OF laws opened_write [OF t(1) w]])
    fix v :: "('w, 'd) state" and f
    assume v: "uploaded Z (cfg (t\<lparr>world := w\<rparr>)) p i f (V (world (t\<lparr>world := w\<rparr>))) (V (world v))"
      "cached V p (files (V (world (t\<lparr>world := w\<rparr>))) i) v" "cfg v = cfg (t\<lparr>world := w\<rparr>)"
    from v(1) obtain x where "objects (V (world v)) = (objects (V (world s)))(p \<mapsto> x)" "stands_for Z x (patches ws old)"
      "signals (V (world v)) \<le> signals (V (world s))"
      unfolding uploaded_def using t(4) by (auto simp: w t(3))
    moreover have "cached V p (patches ws old) v" "cfg v = cfg s" using v(2,3) t(2) by (simp_all add: w)
    ultimately show "Q (0, v)" by (rule assms(8))
  qed (use assms(2-4,6) t(2) w in simp_all)
  show ?thesis
    unfolding write_session_def
    using assms(5) by (auto intro!: opens rets_dfs_writes [OF laws, where p = p] rest)
qed

lemma rets_write_session:
  assumes laws: "site_laws E Z V" and "writer_ready V p s"
    and "get_mode_from_flags flags = MODE_CREAT" "flags AND O_ACCMODE \<noteq> O_RDONLY"
    and "\<forall>(bs, off)\<in>set ws. 0 \<le> off" "fits E Z (length (patches ws []))"
    and "\<And>t x. objects (V (world t)) = (objects (V (world s)))(p \<mapsto> x) \<Longrightarrow> stands_for Z x (patches ws []) \<Longrightarrow>
      signals (V (world t)) \<le> signals (V (world s)) \<Longrightarrow> cached V p (patches ws []) t \<Longrightarrow> cfg t = cfg s \<Longrightarrow> Q (0, t)"
  shows "rets (write_session E p flags ws s) Q"
proof (rule rets_session [OF laws _ _ assms(4-6)])
  fix R :: "int \<times> addr \<times> ('a, 'b) state \<Rightarrow> bool"
  assume R: "\<And>t a i. opened V p a i t \<Longrightarrow> cfg t = cfg s \<Longrightarrow> files (V (world t)) i = [] \<Longrightarrow>
      objects (V (world t)) = objects (V (world s)) \<Longrightarrow> signals (V (world t)) \<le> signals (V (world s)) \<Longrightarrow> R (0, a, t)"
  show "rets (dfs_open E p flags s) R"
    using assms(2,3) by (auto simp: writer_ready_def intro!: rets_open_write [OF laws] R)
qed (use assms(2) in \<open>auto simp: writer_ready_def intro: assms(7)\<close>)

lemma rets_append_session:
  assumes laws: "site_laws E Z V" and "reader_ready E Z V p old s" "objects (V (world s)) p = Some y" "stands_for Z y old"
    and "flags AND O_APPEND \<noteq> 0" "flags AND O_ACCMODE \<noteq> O_RDONLY"
    and "\<forall>(bs, off)\<in>set ws. 0 \<le> off" "fits E Z (length (patches ws old))"
    and "\<And>t x. objects (V (world t)) = (objects (V (world s)))(p \<mapsto> x) \<Longrightarrow> stands_for Z x (patches ws old) \<Longrightarrow> Q (0, t)"
  shows "rets (write_session E p flags ws s) Q"
proof (rule rets_session [OF laws _ _ assms(6-8)])
  fix R :: "int \<times> addr \<times> ('a, 'b) state \<Rightarrow> bool"
  assume R: "\<And>t a i. opened V p a i t \<Longrightarrow> cfg t = cfg s \<Longrightarrow> files (V (world t)) i = old \<Longrightarrow>
      objects (V (world t)) = objects (V (world s)) \<Longrightarrow> signals (V (world t)) \<le> signals (V (world s)) \<Longrightarrow> R (0, a, t)"
  have "get_mode_from_flags flags \<in> {MODE_RDONLY, MODE_RDWR}" using assms(5) by (simp add: get_mode_from_flags_def)
  then show "rets (dfs_open E p flags s) R"
    using assms(2) reader_fuel [OF assms(2,4)]
    by (intro rets_open_fetch [OF laws _ _ _ _ _ assms(3,4)] R) (simp_all add: reader_ready_def)
qed (use assms(2) in \<open>auto simp: reader_ready_def intro: assms(9)\<close>)

lemma rets_read_session:
  assumes laws: "site_laws E Z V" and "reader_ready E Z V p bs u" "objects (V (world u)) p = Some x" "stands_for Z x bs"
    and "get_mode_from_flags flags = MODE_RDONLY" "0 \<le> off"
    and "\<And>v. Q (int (length (take n (drop (nat off) bs))), take n (drop (nat off) bs), v)"
  shows "rets (read_session E p flags n off u) Q"
  unfolding read_session_def rets_obind
proof (rule rets_open_fetch [OF laws _ _ _ _ _ assms(3,4) reader_fuel [OF assms(2,4)]])
  fix t :: "('a, 'b) state" and a i
  assume "opened V p a i t" "files (V (world t)) i = bs"
  then have "reading V a bs t" by (auto simp: opened_def reading_def)
  then show "rets (case (0, a, t) of (r, fh, s) \<Rightarrow> dfs_read E fh n off s) Q"
    using assms(6) by (auto simp del: length_take length_drop intro!: rets_dfs_read [OF laws, where bs = bs] assms(7))
qed (use assms(2,5) in \<open>simp_all add: reader_ready_def\<close>)

lemma rets_reread:
  assumes laws: "site_laws E Z V" and "cached V p bs u" "data_conf (cfg u)" "get_mode_from_flags flags = MODE_RDONLY" "0 \<le> off"
    and "\<And>v. Q (int (length (take n (drop (nat off) bs))), take n (drop (nat off) bs), v)"
  shows "rets (read_session E p flags n off u) Q"
proof -
  obtain a x i k where a: "map_of (hash u) p = Some a" "a \<noteq> NULL" "pes u a = Some x" "0 \<le> fd x" "fds (V (world u)) (fd x) = Some (i, k)"
    "files (V (world u)) i = bs"
    using assms(2) unfolding cached_def by blast
  show ?thesis
    unfolding read_session_def rets_obind
    using assms(5) a(6)
    by (intro rets_reopen [OF laws a(1-5) assms(3,4)])
      (auto simp del: length_take length_drop intro!: rets_dfs_read [OF laws, where bs = bs] assms(6))
qed

section \<open>What was written is read\<close>



text \<open>
  C14: after a session that wrote a file, the same mounted file system reads these bytes from its descriptor, as long as nothing
  touches its cache, whatever the store says: it does not see what another one has stored since.
\<close>

theorem reopen_reads_cache:
  assumes laws: "site_laws E Z V" and "writer_ready V p s"
    and "get_mode_from_flags flags = MODE_CREAT" "flags AND O_ACCMODE \<noteq> O_RDONLY"
    and "\<forall>(bs, off)\<in>set ws. 0 \<le> off" and "bytes = patches ws []" "fits E Z (length bytes)"
  shows "\<exists>t. write_session E p flags ws s = Ret (0, t) \<and>
    (\<forall>w rflags n off. files (V w) = files (V (world t)) \<longrightarrow> fds (V w) = fds (V (world t)) \<longrightarrow>
       get_mode_from_flags rflags = MODE_RDONLY \<longrightarrow> 0 \<le> off \<longrightarrow>
       (\<exists>v. read_session E p rflags n off (t\<lparr>world := w\<rparr>) =
          Ret (int (length (take n (drop (nat off) bytes))), take n (drop (nat off) bytes), v)))"
proof -
  obtain t where t: "write_session E p flags ws s = Ret (0, t)" "cached V p bytes t" "cfg t = cfg s"
    using rets_write_session [OF assms(1-5), of "\<lambda>(r, t). r = 0 \<and> cached V p bytes t \<and> cfg t = cfg s"] assms(6,7)
    by (auto simp: rets_iff)
  moreover have "\<exists>v. read_session E p rflags n off (t\<lparr>world := w\<rparr>) =
      Ret (int (length (take n (drop (nat off) bytes))), take n (drop (nat off) bytes), v)"
    if w: "files (V w) = files (V (world t))" "fds (V w) = fds (V (world t))" and r: "get_mode_from_flags rflags = MODE_RDONLY" "0 \<le> off"
    for w rflags n off
  proof -
    have "cached V p bytes (t\<lparr>world := w\<rparr>)" "data_conf (cfg (t\<lparr>world := w\<rparr>))"
      using t(2,3) w assms(2) by (simp_all add: cached_def writer_ready_def)
    then show ?thesis
      using rets_reread [OF laws _ _ r, of p bytes "t\<lparr>world := w\<rparr>" "\<lambda>(r, d, v). r = int (length (take n (drop (nat off) bytes))) \<and>
        d = take n (drop (nat off) bytes)" n] by (auto simp: rets_iff)
  qed
  ultimately show ?thesis by blast
qed

text \<open>
  C15: opening an existing file with \<^verbatim>\<open>O_WRONLY\<close> or \<^verbatim>\<open>O_RDWR\<close> truncates it although \<^verbatim>\<open>O_TRUNC\<close> is not given: who opens a
  file to write after its end finds that the store has zeros in the place of the old contents.
\<close>

theorem open_write_loses:
  assumes laws: "site_laws E Z V" and "writer_ready V p s" and "objects (V (world s)) p = Some x" "stands_for Z x old"
    and "flags \<in> {O_WRONLY, O_RDWR}" and "bs \<noteq> []" "fits E Z (length (old @ bs))"
  shows "\<exists>t y. write_session E p flags [(bs, int (length old))] s = Ret (0, t) \<and> objects (V (world t)) p = Some y \<and>
    stands_for Z y (replicate (length old) 0 @ bs)"
proof -
  have "get_mode_from_flags flags = MODE_CREAT" "flags AND O_ACCMODE \<noteq> O_RDONLY"
    using assms(5) by (auto simp: get_mode_from_flags_def)
  moreover have "patches [(bs, int (length old))] [] = replicate (length old) 0 @ bs"
    using assms(6) by (simp add: patches_def patch_def)
  ultimately show ?thesis
    using rets_write_session [OF assms(1,2), of flags "[(bs, int (length old))]" "\<lambda>(r, t). r = 0 \<and> (\<exists>y. objects (V (world t)) p = Some y \<and>
      stands_for Z y (replicate (length old) 0 @ bs))"] assms(7) by (auto simp: rets_iff)
qed

text \<open>
  C16: with compression, closing a file destroys the cached file of the path with \<^verbatim>\<open>.tmp\<close> after it, which may be another file in
  use: its name is gone, and who has it open finds the compressed bytes of the first file in it.
\<close>

theorem release_overwrites_tmp:
  assumes laws: "site_laws E Z V" and "opened V p a i s" "data_conf (cfg s)" "short_path (cfg s) p" "flags AND O_ACCMODE \<noteq> O_RDONLY"
    and "zlib_on (cfg s)" "fits E Z (length (files (V (world s)) i))"
    and "names (V (world s)) (cache_file (cfg s) (p @ ''.tmp'')) = Some j"
  shows "\<exists>t. dfs_release E p flags a s = Ret (0, t) \<and> names (V (world t)) (cache_file (cfg s) (p @ ''.tmp'')) = None \<and>
    (\<exists>y. objects (V (world t)) p = Some y \<and> files (V (world t)) j = fst y \<and> stands_for Z y (files (V (world s)) i))"
proof -
  have "cache_file (cfg s) (p @ ''.tmp'') = cache_file (cfg s) p @ ''.tmp''"
    unfolding cache_file_def append_assoc [symmetric] by (rule squeeze_tmp)
  then show ?thesis
    using rets_release_opened [OF assms(1-5,7), of "\<lambda>(r, t). r = 0 \<and> names (V (world t)) (cache_file (cfg s) (p @ ''.tmp'')) = None \<and>
      (\<exists>y. objects (V (world t)) p = Some y \<and> files (V (world t)) j = fst y \<and> stands_for Z y (files (V (world s)) i))"] assms(6,8)
    by (fastforce simp: rets_iff uploaded_def)
qed

text \<open>
  C19: \<^verbatim>\<open>write_all\<close> returns and has written its whole buffer at the offset of the descriptor, however short the writes are, as long as
  only finitely many of them are interrupted: so many rounds as interrupts and bytes are enough.
\<close>

theorem write_all_total:
  assumes laws: "site_laws E Z V" and "fds (V (world s)) f = Some (i, k)" "signals (V (world s)) + length buf < n"
  shows "\<exists>w m. write_all n E f buf s = Ret (0, s\<lparr>world := w\<rparr>) \<and> m \<le> signals (V (world s)) \<and>
    V w = (V (world s))\<lparr>files := (files (V (world s)))(i := patch (files (V (world s)) i) k buf),
      fds := (fds (V (world s)))(f \<mapsto> (i, k + length buf)), signals := m\<rparr>"
proof -
  have "rets (write_all n E f buf s) (\<lambda>(r, t). r = 0 \<and> (\<exists>w. t = s\<lparr>world := w\<rparr> \<and> wrote f buf (V (world s)) (V w)))"
    using assms(2,3) by (intro rets_write_all [OF laws]) auto
  then obtain w where "write_all n E f buf s = Ret (0, s\<lparr>world := w\<rparr>)" "wrote f buf (V (world s)) (V w)" by (auto simp: rets_iff)
  then show ?thesis using wroteE [OF _ assms(2)] by metis
qed

section \<open>Applied\<close>

text \<open>A file system just mounted, with two writes that will be interrupted; the file \<^verbatim>\<open>/f\<close> is stored without compression.\<close>

definition toy_start :: toy where
  "toy_start = \<lparr>t_disk = \<lparr>unread = (\<lambda>_. []), written = (\<lambda>_. []), streams = (\<lambda>_. zfresh True)\<rparr>, t_names = [], t_files = (\<lambda>_. []),
     t_fds = [], t_fps = [], t_objects = [''/f'' \<mapsto> ([104, 105], None)], t_uploads = [], t_signals = 2\<rparr>"

definition site_start :: "string \<Rightarrow> toy \<Rightarrow> (toy, sample_dict) state" where
  "site_start m w = \<lparr>hash = [], pes = Map.empty, dicts = Map.empty, nxt = 1, cfg = sample_conf\<lparr>compression_method := CLit m\<rparr>, world = w\<rparr>"

text \<open>The file \<^verbatim>\<open>/f\<close> open for writing, with the file \<^verbatim>\<open>/f.tmp\<close> in the cache.\<close>

definition site_busy :: "(toy, sample_dict) state" where
  "site_busy = (site_start ''zlib'' (toy_start\<lparr>t_names := [(''/tmp/f'', 0), (''/tmp/f.tmp'', 1)],
       t_files := (\<lambda>_. [])(0 := [1, 2], 1 := [7]), t_fds := [(3, 0, 0), (4, 1, 0)]\<rparr>))
     \<lparr>hash := [(''/f'', 1)], pes := [1 \<mapsto> sample_pentry\<lparr>fd := 3, path := Some ''/f'', mutex := True, refcount := 1\<rparr>], nxt := 2\<rparr>"

lemma site_start_inv: "heap_inv (site_start m w)"
  by (auto simp: heap_inv_def table_ok_def heap_ok_def metadata_ok_def md_of_def path_of_def site_start_def)

lemma site_start_conf: "data_conf (sample_conf\<lparr>compression_method := CLit m\<rparr>)" "short_path (sample_conf\<lparr>compression_method := CLit m\<rparr>) ''/f''"
  by (simp_all add: data_conf_def conf_ready_def sample_conf_def cstr_ok_def strncasecmp_eq_def short_path_def
    TMPSTR_MAX_def LOG_DEBUG_def tolower_def)

lemma sample_modes: "get_mode_from_flags O_WRONLY = MODE_CREAT" "get_mode_from_flags O_RDONLY = MODE_RDONLY" "O_WRONLY AND O_ACCMODE \<noteq> O_RDONLY"
  by (simp_all add: get_mode_from_flags_def)

lemma site_start_ready: "writer_ready toy_site ''/f'' (site_start m toy_start)"
  "signals (toy_site w) \<le> 2 \<Longrightarrow> length bs < 45 \<Longrightarrow> reader_ready site_env site_model toy_site ''/f'' bs (site_start m w)"
  using site_start_inv site_start_conf
  by (simp_all add: writer_ready_def reader_ready_def idle_def apart_def site_start_def toy_start_def toy_model_def)

lemma site_fits: "n < 45 \<Longrightarrow> fits site_env site_model n"
  by (simp add: fits_def toy_model_def)



theorem reopen_reads_cache_witness:
  "\<exists>t v. write_session site_env ''/f'' O_WRONLY [([1, 2, 3], 0)] (site_start ''none'' toy_start) = Ret (0, t) \<and>
    read_session site_env ''/f'' O_RDONLY 10 1 (t\<lparr>world := (world t)\<lparr>t_objects := Map.empty\<rparr>\<rparr>) = Ret (2, [2, 3], v)"
proof -
  have bytes: "[1, 2, 3] = patches [([1, 2, 3], 0)] []" by (simp add: patches_def patch_def)
  have off: "\<forall>(bs, off)\<in>set [([1, 2, 3 :: byte], 0)]. (0 :: int) \<le> off" by simp
  have fit: "fits site_env site_model (length [1, 2, 3 :: byte])" by (rule site_fits) simp
  obtain t where t: "write_session site_env ''/f'' O_WRONLY [([1, 2, 3], 0)] (site_start ''none'' toy_start) = Ret (0, t)"
    and read: "\<forall>w rflags n off. files (toy_site w) = files (toy_site (world t)) \<longrightarrow> fds (toy_site w) = fds (toy_site (world t)) \<longrightarrow>
      get_mode_from_flags rflags = MODE_RDONLY \<longrightarrow> 0 \<le> off \<longrightarrow>
      (\<exists>v. read_session site_env ''/f'' rflags n off (t\<lparr>world := w\<rparr>) =
        Ret (int (length (take n (drop (nat off) [1, 2, 3 :: byte]))), take n (drop (nat off) [1, 2, 3]), v))"
    using reopen_reads_cache [OF toy_site_laws site_start_ready(1) sample_modes(1,3) off bytes fit] by blast
  have "\<exists>v. read_session site_env ''/f'' O_RDONLY 10 1 (t\<lparr>world := (world t)\<lparr>t_objects := Map.empty\<rparr>\<rparr>) =
      Ret (int (length (take 10 (drop (nat 1) [1, 2, 3 :: byte]))), take 10 (drop (nat 1) [1, 2, 3]), v)"
    by (intro read [rule_format] sample_modes(2)) simp_all
  with t show ?thesis by auto
qed

theorem open_write_loses_witness:
  "\<exists>t y. write_session site_env ''/f'' O_RDWR [([33], 2)] (site_start ''none'' toy_start) = Ret (0, t) \<and>
    t_objects (world t) ''/f'' = Some y \<and> stands_for site_model y [0, 0, 33]"
  using open_write_loses [OF toy_site_laws site_start_ready(1) _ _ _ _ site_fits, where x = "([104, 105], None)" and old = "[104, 105]"
      and flags = O_RDWR and bs = "[33]"]
  by (simp add: site_start_def toy_start_def stands_for_def numeral_2_eq_2)

theorem release_overwrites_tmp_witness:
  "\<exists>t. dfs_release site_env ''/f'' O_WRONLY 1 site_busy = Ret (0, t) \<and> map_of (t_names (world t)) ''/tmp/f.tmp'' = None \<and>
    t_files (world t) 1 \<noteq> [7]"
proof -
  have cache: "cache_file (cfg site_busy) ''/f'' = ''/tmp/f''" "cache_file (cfg site_busy) (''/f'' @ ''.tmp'') = ''/tmp/f.tmp''"
    "zlib_on (cfg site_busy)"
    by (simp_all add: cache_file_def site_busy_def site_start_def sample_conf_def zlib_on_def strncasecmp_eq_def tolower_def)
  have "opened toy_site ''/f'' 1 0 site_busy"
    unfolding opened_def cache(1) by (simp add: site_busy_def site_start_def toy_start_def sample_pentry_def)
  from release_overwrites_tmp [OF toy_site_laws this _ _ _ cache(3) site_fits, of O_WRONLY 1, unfolded cache]
  obtain t y where "dfs_release site_env ''/f'' O_WRONLY 1 site_busy = Ret (0, t)" "map_of (t_names (world t)) ''/tmp/f.tmp'' = None"
    "t_files (world t) 1 = fst y" "stands_for site_model y [1, 2]"
    using site_start_conf by (auto simp: site_busy_def site_start_def toy_start_def)
  then show ?thesis by (auto simp: stands_for_def toy_model_def split: option.splits)
qed

theorem write_all_total_witness:
  "\<exists>w. write_all 9 site_env 3 [5, 6, 7] site_busy = Ret (0, site_busy\<lparr>world := w\<rparr>) \<and> t_files w 0 = [5, 6, 7] \<and> t_files w 1 = [7]"
proof -
  have s: "map_of (t_fds (world site_busy)) 3 = Some (0, 0)" "t_files (world site_busy) 0 = [1, 2]"
    "t_files (world site_busy) 1 = [7]" "t_signals (world site_busy) = 2"
    by (simp_all add: site_busy_def site_start_def toy_start_def)
  obtain w m where w: "write_all 9 site_env 3 [5, 6, 7] site_busy = Ret (0, site_busy\<lparr>world := w\<rparr>)"
    "toy_site w = (toy_site (world site_busy))\<lparr>files := (t_files (world site_busy))(0 := patch [1, 2] 0 [5, 6, 7]),
      fds := (map_of (t_fds (world site_busy)))(3 \<mapsto> (0, Suc (Suc (Suc 0)))), signals := m\<rparr>"
    using write_all_total [OF toy_site_laws, of site_busy 3 0 0 "[5, 6, 7]" 9] s by auto
  from arg_cong [OF w(2), of files] have "t_files w = (t_files (world site_busy))(0 := [5, 6, 7])" by (simp add: patch_def)
  with w(1) s(3) show ?thesis by (intro exI [of _ w]) simp
qed

end
